(* ===== verification/Prelude.thy ===== *)
theory Prelude
  imports Main "HOL-Library.Word"
begin

text \<open>
  The prelude of the RainstormOS development: the machine integer types of the C code, the
  result type of operations that may end in a kernel panic, the log calls the kernel emits
  (\<open>src/src/utils/klog.h\<close>), and the generic lemmas on words, bits and bounded loops that the
  component theories share.
\<close>

unbundle bit_operations_syntax

named_theorems kframe \<open>what an operation leaves unchanged\<close>
named_theorems kunat \<open>words read as natural numbers\<close>

section \<open>Machine integers\<close>

type_synonym u8 = "8 word"
type_synonym u16 = "16 word"
type_synonym u32 = "32 word"
type_synonym u64 = "64 word"

lemma unat_u64_less [simp]: "unat (x :: u64) < 18446744073709551616"
  using unsigned_less [of x] by simp

lemma unat_u32_less [simp]: "unat (x :: u32) < 4294967296"
  using unsigned_less [of x] by simp

lemma unat_u8_less [simp]: "unat (x :: u8) < 256"
  using unsigned_less [of x] by simp

lemma unat_of_nat_u64 [kunat]: "n < 18446744073709551616 \<Longrightarrow> unat (of_nat n :: u64) = n"
  by (simp add: unat_of_nat)

lemma of_nat_eq_u64:
  "m < 18446744073709551616 \<Longrightarrow> n < 18446744073709551616 \<Longrightarrow>
    (of_nat m :: u64) = of_nat n \<longleftrightarrow> m = n"
  by (metis unat_of_nat_u64)

lemma unat_add_u64 [kunat]:
  "unat (x :: u64) + unat y < 18446744073709551616 \<Longrightarrow> unat (x + y) = unat x + unat y"
  by (simp add: unat_word_ariths)

lemma unat_mult_u64 [kunat]:
  "unat (x :: u64) * unat y < 18446744073709551616 \<Longrightarrow> unat (x * y) = unat x * unat y"
  by (simp add: unat_word_ariths)

lemma unat_sub_u64 [kunat]:
  "unat y \<le> unat (x :: u64) \<Longrightarrow> unat (x - y) = unat x - unat y"
  by (simp add: unat_sub_if')

lemma unat_sub_wrap_u64:
  "unat (x :: u64) < unat y \<Longrightarrow> unat (x - y) = unat x + 18446744073709551616 - unat y"
  by (simp add: unat_sub_if')

lemma unat_offset_u64 [simp]: "n < 18446744073709551616 \<Longrightarrow> unat (a + of_nat n - (a :: u64)) = n"
  by (simp add: unat_of_nat_u64)

lemma of_nat_unat_u64 [simp]: "(a :: u64) + of_nat (unat (b - a)) = b"
  by simp

lemma offset_eq_iff_u64:
  "n < 18446744073709551616 \<Longrightarrow> (b :: u64) = a + of_nat n \<longleftrightarrow> unat (b - a) = n"
  by (metis add.commute diff_add_cancel of_nat_unat_u64 unat_offset_u64)

lemma unat_sub_add_u64:
  "unat (x - (d + y)) = (if unat y \<le> unat (x - d) then unat (x - d) - unat y
     else unat (x - d) + 18446744073709551616 - unat y)" for x d y :: u64
proof -
  have "unat (x - (d + y)) = unat ((x - d) - y)" by (simp add: algebra_simps)
  also have "\<dots> = (if unat y \<le> unat (x - d) then unat (x - d) - unat y
     else unat (x - d) + 18446744073709551616 - unat y)"
    by (subst unat_sub_if') simp
  finally show ?thesis .
qed

section \<open>Single bits\<close>

text \<open>
  The C test \<open>b & (1 << k)\<close> and the updates \<open>b |= (1 << k)\<close> and \<open>b &= ~(1 << k)\<close>, read as
  facts on bit \<open>k\<close>.
\<close>

lemma and_shift_eq_0_iff [simp]: "w AND 2 ^ k = 0 \<longleftrightarrow> \<not> bit w k"
  for w :: "'a::len word"
  by (simp add: and_exp_eq_0_iff_not_bit)

lemma bit_or_shift [simp]: "k < LENGTH('a) \<Longrightarrow> bit (w OR 2 ^ k) j \<longleftrightarrow> j = k \<or> bit w j"
  for w :: "'a::len word"
  by (auto simp: bit_simps)

lemma bit_and_not_shift [simp]: "bit (w AND NOT (2 ^ k)) j \<longleftrightarrow> j \<noteq> k \<and> bit w j"
  for w :: "'a::len word"
  by (auto simp: bit_simps dest: bit_imp_le_length)

lemma byte_all_ones_iff: "w = (0xFF :: u8) \<longleftrightarrow> (\<forall>k<8. bit w k)"
proof -
  have "bit (0xFF :: u8) k" if "k < 8" for k
  proof -
    have "(0xFF :: u8) = mask 8" by (simp add: mask_eq_exp_minus_1)
    moreover have "bit (mask 8 :: u8) k" using that by (simp only: bit_mask_iff) simp
    ultimately show ?thesis by (simp only:)
  qed
  then show ?thesis by (auto intro: bit_word_eqI)
qed

lemma byte_zero_iff: "w = (0 :: u8) \<longleftrightarrow> (\<forall>k<8. \<not> bit w k)"
  by (auto intro: bit_word_eqI)

section \<open>Kernel panics as error values\<close>

text \<open>
  \<open>kpanic\<close> (\<open>src/src/utils/klog.h\<close>, line 9) never returns: an operation that may panic yields
  \<open>Inl\<close> with the format string and arguments of the panic and the state in which it stopped,
  or \<open>Inr\<close> with its value and the new state.
\<close>

type_synonym kerror = "string \<times> u64 list"
type_synonym ('a, 's) kres = "(kerror \<times> 's) + ('a \<times> 's)"

definition kbind :: "('a, 's) kres \<Rightarrow> ('a \<Rightarrow> 's \<Rightarrow> ('b, 's) kres) \<Rightarrow> ('b, 's) kres" where
  "kbind r f = (case r of Inl e \<Rightarrow> Inl e | Inr (x, s) \<Rightarrow> f x s)"

lemma kbind_simps [simp]:
  "kbind (Inl e) f = Inl e"
  "kbind (Inr (x, s)) f = f x s"
  by (simp_all add: kbind_def)

lemma kbind_assoc: "kbind (kbind a f) g = kbind a (\<lambda>x s. kbind (f x s) g)"
  by (cases a) (auto simp: kbind_def)

lemma kbind_eq_Inr_iff:
  "kbind r f = Inr (y, t) \<longleftrightarrow> (\<exists>x s. r = Inr (x, s) \<and> f x s = Inr (y, t))"
  by (cases r) (auto simp: kbind_def)

lemma kbind_eq_Inl_iff:
  "kbind r f = Inl e \<longleftrightarrow> r = Inl e \<or> (\<exists>x s. r = Inr (x, s) \<and> f x s = Inl e)"
  by (cases r) (auto simp: kbind_def)

text \<open>
  A counted C loop \<open>for (size_t i = 0; i < n; i++) body\<close> whose body may panic, over the list of
  the counter values still to come.
\<close>

fun kfor :: "nat list \<Rightarrow> (nat \<Rightarrow> 's \<Rightarrow> (unit, 's) kres) \<Rightarrow> 's \<Rightarrow> (unit, 's) kres" where
  "kfor [] body s = Inr ((), s)"
| "kfor (i # is) body s = kbind (body i s) (\<lambda>_. kfor is body)"

lemma kfor_append: "kfor (xs @ ys) body s = kbind (kfor xs body s) (\<lambda>_. kfor ys body)"
proof (induction xs arbitrary: s)
  case (Cons x xs)
  then show ?case by (cases "body x s") auto
qed simp

lemma kfor_invariant:
  assumes "kfor is body s = Inr (u, t)" and "I s"
    and "\<And>i s u t. i \<in> set is \<Longrightarrow> I s \<Longrightarrow> body i s = Inr (u, t) \<Longrightarrow> I t"
  shows "I t"
  using assms
proof (induction "is" arbitrary: s)
  case (Cons i "is")
  from Cons.prems(1) obtain u' s' where "body i s = Inr (u', s')" "kfor is body s' = Inr (u, t)"
    by (auto simp: kbind_eq_Inr_iff)
  with Cons show ?case by (metis list.set_intros)
qed simp

section \<open>Log calls\<close>

datatype klog_level =
    klog_level_debug | klog_level_info | klog_level_warn | klog_level_error | klog_level_panic

text \<open>
  A call of \<open>klogf\<close> as the caller makes it: level, format string and the (integer) variadic
  arguments. The memory management code records its log calls in order in its state.
\<close>

type_synonym klog_call = "klog_level \<times> string \<times> u64 list"

end
