(* ===== verification/Memory.thy ===== *)
theory Memory
  imports Prelude
begin

text \<open>
  Byte-addressed memory and the routines of \<open>src/src/utils/memory.c\<close> and
  \<open>src/src/utils/memory.asm\<close>: \<open>memset\<close>, \<open>memsetw\<close>, \<open>memmove\<close>, \<open>memcmp\<close> and \<open>memcpy\<close>, with the
  little-endian multi-byte accesses the C code makes through \<open>uint16_t *\<close>, \<open>uint32_t *\<close> and
  \<open>uint64_t *\<close> pointers. Addresses are 64-bit words, so pointer arithmetic wraps as it does on
  the machine.
\<close>

type_synonym memory = "u64 \<Rightarrow> u8"

section \<open>Little-endian accesses\<close>

primrec load_le :: "nat \<Rightarrow> memory \<Rightarrow> u64 \<Rightarrow> 'a::len word" where
  "load_le 0 m a = 0"
| "load_le (Suc n) m a = ucast (m a) OR push_bit 8 (load_le n m (a + 1))"

definition store_le :: "nat \<Rightarrow> u64 \<Rightarrow> 'a::len word \<Rightarrow> memory \<Rightarrow> memory" where
  "store_le n a v m =
     (\<lambda>x. if unat (x - a) < n then ucast (drop_bit (8 * unat (x - a)) v) else m x)"

definition load64 :: "memory \<Rightarrow> u64 \<Rightarrow> u64" where
  "load64 m a = load_le 8 m a"

definition store64 :: "u64 \<Rightarrow> u64 \<Rightarrow> memory \<Rightarrow> memory" where
  "store64 a v m = store_le 8 a v m"

definition load32 :: "memory \<Rightarrow> u64 \<Rightarrow> u32" where
  "load32 m a = load_le 4 m a"

definition store32 :: "u64 \<Rightarrow> u32 \<Rightarrow> memory \<Rightarrow> memory" where
  "store32 a v m = store_le 4 a v m"

definition store16 :: "u64 \<Rightarrow> u16 \<Rightarrow> memory \<Rightarrow> memory" where
  "store16 a v m = store_le 2 a v m"

section \<open>The routines\<close>

definition memset :: "u64 \<Rightarrow> u32 \<Rightarrow> u64 \<Rightarrow> memory \<Rightarrow> u64 \<times> memory" where
  "memset dest value count m =
     (dest, fold (\<lambda>i m. m(dest + of_nat i := ucast value)) [0..<unat count] m)"

definition memsetw :: "u64 \<Rightarrow> u32 \<Rightarrow> u64 \<Rightarrow> memory \<Rightarrow> u64 \<times> memory" where
  "memsetw dest value count m =
     (dest, fold (\<lambda>i m. store16 (dest + 2 * of_nat i) (ucast value) m) [0..<unat count] m)"

definition memmove :: "u64 \<Rightarrow> u64 \<Rightarrow> u64 \<Rightarrow> memory \<Rightarrow> u64 \<times> memory" where
  "memmove dest src count m =
     (if dest < src \<or> dest \<ge> src + count
      then (dest, fold (\<lambda>i m. m(dest + of_nat i := m (src + of_nat i))) [0..<unat count] m)
      else (dest, fold (\<lambda>i m. m(dest + of_nat (i - 1) := m (src + of_nat (i - 1))))
                    (rev [1..<Suc (unat count)]) m))"

fun memcmp_loop :: "memory \<Rightarrow> u64 \<Rightarrow> u64 \<Rightarrow> nat list \<Rightarrow> int" where
  "memcmp_loop m s1 s2 [] = 0"
| "memcmp_loop m s1 s2 (i # is) =
     (if m (s1 + of_nat i) \<noteq> m (s2 + of_nat i)
      then uint (m (s1 + of_nat i)) - uint (m (s2 + of_nat i))
      else memcmp_loop m s1 s2 is)"

definition memcmp :: "u64 \<Rightarrow> u64 \<Rightarrow> u64 \<Rightarrow> memory \<Rightarrow> int" where
  "memcmp s1 s2 count m = memcmp_loop m s1 s2 [0..<unat count]"

text \<open>
  The assembly \<open>memcpy\<close>: \<open>count / 8\<close> quadwords by \<open>rep movsq\<close>, then the remaining
  \<open>count % 8\<close> bytes by \<open>rep movsb\<close>, both ascending (the direction flag is clear).
\<close>

definition memcpy :: "u64 \<Rightarrow> u64 \<Rightarrow> u64 \<Rightarrow> memory \<Rightarrow> u64 \<times> memory" where
  "memcpy dest src count m =
     (let q = unat (drop_bit 3 count); r = unat (count AND 7);
          m1 = fold (\<lambda>i m. store64 (dest + 8 * of_nat i) (load64 m (src + 8 * of_nat i)) m) [0..<q] m;
          d1 = dest + 8 * of_nat q; s1 = src + 8 * of_nat q
      in (dest, fold (\<lambda>i m. m(d1 + of_nat i := m (s1 + of_nat i))) [0..<r] m1))"

section \<open>Accesses read back what was written\<close>

lemma bit_load_le:
  "bit (load_le n m a :: 'a::len word) k \<longleftrightarrow>
     k < 8 * n \<and> k < LENGTH('a) \<and> bit (m (a + of_nat (k div 8))) (k mod 8)"
proof (induction n arbitrary: a k)
  case (Suc n)
  show ?case
  proof (cases "k < 8")
    case True
    then show ?thesis by (auto simp: bit_simps Suc.IH)
  next
    case False
    then obtain j where k: "k = j + 8" by (metis add.commute le_Suc_ex not_less)
    have "(j + 8) div 8 = Suc (j div 8)" by simp
    note div = this
    have "bit (ucast (m a) :: 'a word) k \<longleftrightarrow> False"
      using False by (auto simp: bit_simps dest: bit_imp_le_length)
    with k show ?thesis
      by (auto simp: bit_simps Suc.IH div algebra_simps simp del: add_2_eq_Suc add_2_eq_Suc')
  qed
qed simp

lemma store_le_in: "unat (x - a) < n \<Longrightarrow> store_le n a v m x = ucast (drop_bit (8 * unat (x - a)) v)"
  by (simp add: store_le_def)

lemma store_le_out: "n \<le> unat (x - a) \<Longrightarrow> store_le n a v m x = m x"
  by (simp add: store_le_def)

lemma load_store_le_same:
  assumes "8 * n \<ge> LENGTH('a)" and "n < 2 ^ 64"
  shows "load_le n (store_le n a v m) a = (v :: 'a::len word)"
proof (rule bit_word_eqI)
  fix k assume k: "k < LENGTH('a)"
  with assms have "k div 8 < n" by linarith
  moreover from this assms have "unat (of_nat (k div 8) :: u64) = k div 8"
    by (simp add: unat_of_nat_u64)
  ultimately show "bit (load_le n (store_le n a v m) a :: 'a word) k = bit v k"
    using k assms by (auto simp: bit_load_le store_le_in bit_simps)
qed

lemma load_store_le_other:
  assumes "\<And>i. i < n' \<Longrightarrow> n \<le> unat (b + of_nat i - a)"
  shows "load_le n' (store_le n a v m) b = load_le n' m b"
  by (rule bit_word_eqI) (auto simp: bit_load_le store_le_out assms)

lemma load_le_cong:
  assumes "\<And>i. i < n \<Longrightarrow> m (a + of_nat i) = m' (a + of_nat i)"
  shows "load_le n m a = load_le n m' a"
  by (rule bit_word_eqI) (auto simp: bit_load_le assms)

lemma load64_store64_same [simp]: "load64 (store64 a v m) a = v"
  by (simp add: load64_def store64_def load_store_le_same)

lemma load32_store32_same [simp]: "load32 (store32 a v m) a = v"
  by (simp add: load32_def store32_def load_store_le_same)

section \<open>What the routines do\<close>

lemma memset_fold:
  "n \<le> 2 ^ 64 \<Longrightarrow> fold (\<lambda>i m. m(d + of_nat i := v)) [0..<n] m
     = (\<lambda>x. if unat (x - d) < n then v else m x)" for d :: u64
proof (induction n)
  case (Suc n)
  then have "x = d + of_nat n \<longleftrightarrow> unat (x - d) = n" for x
    by (simp add: offset_eq_iff_u64)
  with Suc show ?case by (auto simp: fun_eq_iff less_Suc_eq)
qed simp

lemma memset_eq:
  "memset d v c m = (d, \<lambda>x. if unat (x - d) < unat c then ucast v else m x)"
  using memset_fold [of "unat c"] less_imp_le [OF unat_u64_less, of c] by (simp add: memset_def)

text \<open>The forward copy is right where no source byte is overwritten before it is read.\<close>

lemma copy_forward_fold:
  fixes dest src :: u64
  assumes "n \<le> 2 ^ 64" and "\<And>i. i < n \<Longrightarrow> i \<le> unat (src + of_nat i - dest)"
  shows "fold (\<lambda>i m. m(dest + of_nat i := m (src + of_nat i))) [0..<n] m
     = (\<lambda>x. if unat (x - dest) < n then m (src + (x - dest)) else m x)"
  using assms
proof (induction n)
  case (Suc n)
  then have "x = dest + of_nat n \<longleftrightarrow> unat (x - dest) = n" for x
    by (simp add: offset_eq_iff_u64)
  moreover have "\<not> unat (src + of_nat n - dest) < n"
    using Suc.prems(2) [of n] by simp
  ultimately show ?case using Suc by (auto simp: fun_eq_iff less_Suc_eq)
qed simp

lemma copy_backward_fold:
  fixes dest src :: u64
  assumes "n \<le> 2 ^ 64" and "\<And>i j. i < j \<Longrightarrow> j < n \<Longrightarrow> src + of_nat i \<noteq> dest + of_nat j"
  shows "fold (\<lambda>i m. m(dest + of_nat (i - 1) := m (src + of_nat (i - 1)))) (rev [1..<Suc n]) m
     = (\<lambda>x. if unat (x - dest) < n then m (src + (x - dest)) else m x)"
  using assms
proof (induction n arbitrary: m)
  case (Suc n)
  let ?m = "m(dest + of_nat n := m (src + of_nat n))"
  have last: "x = dest + of_nat n \<longleftrightarrow> unat (x - dest) = n" for x
    using Suc.prems(1) by (simp add: offset_eq_iff_u64)
  have keep: "?m (src + (x - dest)) = m (src + (x - dest))" if "unat (x - dest) < n" for x
    using Suc.prems(2) [of "unat (x - dest)" n] that by simp
  have "fold (\<lambda>i m. m(dest + of_nat (i - 1) := m (src + of_nat (i - 1)))) (rev [1..<Suc (Suc n)]) m
      = (\<lambda>x. if unat (x - dest) < n then ?m (src + (x - dest)) else ?m x)"
  proof -
    have "rev [1..<Suc (Suc n)] = Suc n # rev [1..<Suc n]" by simp
    then have "fold (\<lambda>i m. m(dest + of_nat (i - 1) := m (src + of_nat (i - 1)))) (rev [1..<Suc (Suc n)]) m
        = fold (\<lambda>i m. m(dest + of_nat (i - 1) := m (src + of_nat (i - 1)))) (rev [1..<Suc n]) ?m"
      by (simp only: fold.simps o_apply diff_Suc_1)
    also have "\<dots> = (\<lambda>x. if unat (x - dest) < n then ?m (src + (x - dest)) else ?m x)"
      by (rule Suc.IH) (use Suc.prems in auto)
    finally show ?thesis .
  qed
  also have "\<dots> = (\<lambda>x. if unat (x - dest) < Suc n then m (src + (x - dest)) else m x)"
  proof
    fix x
    consider "unat (x - dest) < n" | "x = dest + of_nat n" | "n < unat (x - dest)"
      using last [of x] by linarith
    then show "(if unat (x - dest) < n then ?m (src + (x - dest)) else ?m x)
        = (if unat (x - dest) < Suc n then m (src + (x - dest)) else m x)"
      by cases (use keep last Suc.prems(1) in \<open>auto simp: less_Suc_eq\<close>)
  qed
  finally show ?case .
qed simp

text \<open>
  \<open>memmove\<close> copies the bytes the source region held at the call, whether or not the regions
  overlap, and writes nothing else.
\<close>

lemma memmove_eq:
  assumes src: "unat src + unat count < 2 ^ 64" and dest: "unat dest + unat count \<le> 2 ^ 64"
  shows "memmove dest src count m =
    (dest, \<lambda>x. if unat (x - dest) < unat count then m (src + (x - dest)) else m x)"
proof (cases "dest < src \<or> dest \<ge> src + count")
  case True
  have "i \<le> unat (src + of_nat i - dest)" if "i < unat count" for i
  proof -
    from src that have s: "unat (src + of_nat i) = unat src + i"
      by (simp add: unat_add_u64 unat_of_nat_u64)
    from src have "unat (src + count) = unat src + unat count" by (simp add: unat_add_u64)
    with True have "unat dest < unat src \<or> unat src + unat count \<le> unat dest"
      by (simp add: word_less_nat_alt word_le_nat_alt)
    with s dest that show ?thesis by (auto simp: unat_sub_if')
  qed
  with True show ?thesis
    using copy_forward_fold [of "unat count" src dest m] less_imp_le [OF unat_u64_less, of count]
    by (simp add: memmove_def)
next
  case False
  have "src + of_nat i \<noteq> dest + of_nat j" if "i < j" "j < unat count" for i j
  proof -
    from src that have "unat (src + of_nat i) = unat src + i"
      by (simp add: unat_add_u64 unat_of_nat_u64)
    moreover from dest that have "unat (dest + of_nat j) = unat dest + j"
      by (simp add: unat_add_u64 unat_of_nat_u64)
    moreover from False have "unat src \<le> unat dest" by (simp add: word_less_nat_alt)
    ultimately show ?thesis using that by (metis add_le_less_mono less_irrefl)
  qed
  with False show ?thesis
    using copy_backward_fold [of "unat count" src dest m] less_imp_le [OF unat_u64_less, of count]
    by (simp add: memmove_def)
qed

lemma memcmp_loop_zero_iff:
  "memcmp_loop m s1 s2 is = 0 \<longleftrightarrow> (\<forall>i\<in>set is. m (s1 + of_nat i) = m (s2 + of_nat i))"
  by (induction "is") (auto dest: unsigned_word_eqI)

lemma memcmp_zero_iff:
  "memcmp s1 s2 count m = 0 \<longleftrightarrow> (\<forall>i<unat count. m (s1 + of_nat i) = m (s2 + of_nat i))"
  by (auto simp: memcmp_def memcmp_loop_zero_iff)

text \<open>The quadword loop of \<open>memcpy\<close> copies the same bytes as the byte loop would.\<close>

lemma byte_of_load64: "j < 8 \<Longrightarrow> ucast (drop_bit (8 * j) (load64 m a)) = m (a + of_nat j)"
  by (rule bit_word_eqI) (auto simp: load64_def bit_load_le bit_simps)

lemma copy_quad: "store64 a (load64 m b) m = (\<lambda>x. if unat (x - a) < 8 then m (b + (x - a)) else m x)"
  by (auto simp: store64_def store_le_def byte_of_load64)

lemma copy_quads_fold:
  fixes dest src :: u64
  assumes "8 * n \<le> 2 ^ 64" and "\<And>i. i < 8 * n \<Longrightarrow> 8 * n \<le> unat (src + of_nat i - dest)"
  shows "fold (\<lambda>i m. store64 (dest + 8 * of_nat i) (load64 m (src + 8 * of_nat i)) m) [0..<n] m
     = (\<lambda>x. if unat (x - dest) < 8 * n then m (src + (x - dest)) else m x)"
  using assms
proof (induction n)
  case (Suc n)
  let ?m = "\<lambda>x. if unat (x - dest) < 8 * n then m (src + (x - dest)) else m x"
  have pos: "unat (x - (dest + 8 * of_nat n)) < 8 \<longleftrightarrow> 8 * n \<le> unat (x - dest) \<and> unat (x - dest) < 8 * Suc n"
    for x
  proof -
    have "unat (8 * of_nat n :: u64) = 8 * n"
      using Suc.prems(1) unat_of_nat_u64 [of "8 * n"] by simp
    then show ?thesis using Suc.prems(1) unat_u64_less [of "x - dest"] by (auto simp: unat_sub_add_u64)
  qed
  have keep: "?m (src + (x - dest)) = m (src + (x - dest))" if "unat (x - dest) < 8 * Suc n" for x
    using Suc.prems(2) [of "unat (x - dest)"] that by simp
  have IH: "fold (\<lambda>i m. store64 (dest + 8 * of_nat i) (load64 m (src + 8 * of_nat i)) m) [0..<n] m = ?m"
  proof (rule Suc.IH)
    show "8 * n \<le> unat (src + of_nat i - dest)" if "i < 8 * n" for i
    proof -
      from that have "i < 8 * Suc n" by simp
      then have "8 * Suc n \<le> unat (src + of_nat i - dest)" by (rule Suc.prems(2))
      then show ?thesis by (rule order_trans [rotated]) simp
    qed
  qed (use Suc.prems(1) in simp)
  have "fold (\<lambda>i m. store64 (dest + 8 * of_nat i) (load64 m (src + 8 * of_nat i)) m) [0..<Suc n] m
      = store64 (dest + 8 * of_nat n) (load64 ?m (src + 8 * of_nat n)) ?m"
    by (simp only: upt_Suc_append [OF le0] fold_append o_apply IH fold.simps id_apply)
  also have "\<dots> = (\<lambda>x. if unat (x - dest) < 8 * Suc n then m (src + (x - dest)) else m x)"
  proof
    fix x
    have shift: "src + 8 * of_nat n + (x - (dest + 8 * of_nat n)) = src + (x - dest)" by simp
    show "store64 (dest + 8 * of_nat n) (load64 ?m (src + 8 * of_nat n)) ?m x
        = (if unat (x - dest) < 8 * Suc n then m (src + (x - dest)) else m x)"
      unfolding copy_quad pos shift by (use keep [of x] in auto)
  qed
  finally show ?case .
qed simp

lemma memcpy_eq:
  assumes src: "unat src + unat count \<le> 2 ^ 64" and dest: "unat dest + unat count \<le> 2 ^ 64"
    and disj: "unat src + unat count \<le> unat dest \<or> unat dest + unat count \<le> unat src"
  shows "memcpy dest src count m =
    (dest, \<lambda>x. if unat (x - dest) < unat count then m (src + (x - dest)) else m x)"
proof -
  define q r where "q = unat (drop_bit 3 count)" and "r = unat (count AND 7)"
  have count: "unat count = 8 * q + r"
  proof -
    have "(7 :: u64) = mask 3" by (simp add: mask_eq_exp_minus_1)
    then have "r = unat count mod 8"
      by (simp only: r_def take_bit_eq_mask [symmetric] unsigned_take_bit_eq take_bit_eq_mod)
         (simp add: unat_mod)
    moreover have "q = unat count div 8"
      by (simp add: q_def drop_bit_eq_div unat_div)
    ultimately show ?thesis by simp
  qed
  have far: "unat count \<le> unat (src + of_nat i - dest)" if "i < unat count" for i
  proof -
    from src that have "unat (src + of_nat i) = unat src + i"
      by (simp add: unat_add_u64 unat_of_nat_u64)
    with dest disj that show ?thesis by (auto simp: unat_sub_if')
  qed
  let ?m1 = "\<lambda>x. if unat (x - dest) < 8 * q then m (src + (x - dest)) else m x"
  let ?d = "dest + 8 * of_nat q" and ?s = "src + 8 * of_nat q"
  have quads: "fold (\<lambda>i m. store64 (dest + 8 * of_nat i) (load64 m (src + 8 * of_nat i)) m) [0..<q] m = ?m1"
  proof (rule copy_quads_fold)
    show "8 * q \<le> 2 ^ 64" using count src by simp
    show "8 * q \<le> unat (src + of_nat i - dest)" if "i < 8 * q" for i
      using far [of i] that count by simp
  qed
  have q8: "unat (8 * of_nat q :: u64) = 8 * q"
    using count unat_u64_less [of count] unat_of_nat_u64 [of "8 * q"] by simp
  have tail: "fold (\<lambda>i m. m(?d + of_nat i := m (?s + of_nat i))) [0..<r] ?m1
      = (\<lambda>x. if unat (x - ?d) < r then ?m1 (?s + (x - ?d)) else ?m1 x)"
  proof (rule copy_forward_fold)
    show "r \<le> 2 ^ 64" using count unat_u64_less [of count] by simp
    show "i \<le> unat (?s + of_nat i - ?d)" if "i < r" for i
    proof -
      have "?s + of_nat i - ?d = src + of_nat i - dest" by (simp add: algebra_simps)
      moreover have "unat count \<le> unat (src + of_nat i - dest)" by (rule far) (use that count in simp)
      ultimately show ?thesis using that count by (simp only:)
    qed
  qed
  have "(if unat (x - ?d) < r then ?m1 (?s + (x - ?d)) else ?m1 x)
      = (if unat (x - dest) < unat count then m (src + (x - dest)) else m x)" for x
  proof -
    have d: "unat (x - ?d) = (if 8 * q \<le> unat (x - dest) then unat (x - dest) - 8 * q
        else unat (x - dest) + 2 ^ 64 - 8 * q)"
      using q8 by (simp add: unat_sub_add_u64)
    have "?s + (x - ?d) = src + (x - dest)" by simp
    moreover have "unat (x - dest) < unat count \<Longrightarrow> unat count \<le> unat (src + (x - dest) - dest)"
      using far [of "unat (x - dest)"] by simp
    ultimately show ?thesis using d count unat_u64_less [of count] by auto
  qed
  then show ?thesis
    unfolding memcpy_def Let_def q_def [symmetric] r_def [symmetric] quads tail by simp
qed

end
