(* ===== verification/Memory_Properties.thy ===== *)
theory Memory_Properties
  imports Memory
begin

text \<open>The property of the copying routines.\<close>

text \<open>C36: \<open>memmove\<close> copies as if all bytes were read before any is written, also between overlapping
  ranges, and the assembly \<open>memcpy\<close>, which copies by quadwords, does exactly the same between ranges
  that do not overlap.\<close>

theorem copies_correct:
  assumes "unat src + unat count < 2 ^ 64" and "unat dest + unat count \<le> 2 ^ 64"
  shows "memmove dest src count m = (dest, \<lambda>x. if unat (x - dest) < unat count then m (src + (x - dest)) else m x)
    \<and> (unat src + unat count \<le> unat dest \<or> unat dest + unat count \<le> unat src \<longrightarrow>
        memcpy dest src count m = memmove dest src count m)"
  using memmove_eq [OF assms, of m] memcpy_eq [OF less_imp_le [OF assms(1)] assms(2), of m] by auto

theorem copies_correct_witness:
  "snd (memmove 0x1001 0x1000 4 (\<lambda>a. ucast a)) 0x1004 = 3 \<and> snd (memcpy 0x2000 0x1000 11 (\<lambda>a. ucast a)) 0x200A = 10"
  using copies_correct [of "0x1000" 4 "0x1001" "\<lambda>a. ucast a"] copies_correct [of "0x1000" 11 "0x2000" "\<lambda>a. ucast a"] by simp

end
