(* ===== verification/Mm.thy ===== *)
theory Mm
  imports Memory
begin

text \<open>
  The page arithmetic and address conversions of \<open>src/src/memory/mm.h\<close>, the state the memory
  management code shares (memory, the globals of \<open>pmm.c\<close>, the log calls made so far), and the
  logging macros of \<open>src/src/utils/klog.h\<close> as that code uses them.
\<close>

type_synonym phys_addr_t = u64

section \<open>Page arithmetic\<close>

definition PAGE_SIZE :: u64 where
  "PAGE_SIZE = 0x1000"

definition PAGE_MASK :: u64 where
  "PAGE_MASK = PAGE_SIZE - 1"

definition PAGE_ALIGN_DOWN :: "u64 \<Rightarrow> u64" where
  "PAGE_ALIGN_DOWN addr = addr AND NOT PAGE_MASK"

definition PAGE_ALIGN_UP :: "u64 \<Rightarrow> u64" where
  "PAGE_ALIGN_UP addr = (addr + PAGE_MASK) AND NOT PAGE_MASK"

definition PAGE_COUNT :: "u64 \<Rightarrow> u64" where
  "PAGE_COUNT sz = PAGE_ALIGN_UP sz div PAGE_SIZE"

definition IS_PAGE_ALIGNED :: "u64 \<Rightarrow> bool" where
  "IS_PAGE_ALIGNED addr \<longleftrightarrow> addr AND PAGE_MASK = 0"

lemma PAGE_SIZE_simps [simp]: "unat PAGE_SIZE = 4096" "PAGE_SIZE \<noteq> 0"
  by (simp_all add: PAGE_SIZE_def)

lemma PAGE_MASK_eq: "PAGE_MASK = mask 12"
  by (simp add: PAGE_MASK_def PAGE_SIZE_def mask_eq_exp_minus_1)

lemma unat_and_page_mask: "unat (a AND PAGE_MASK) = unat a mod 4096"
  by (simp only: PAGE_MASK_eq take_bit_eq_mask [symmetric] unsigned_take_bit_eq take_bit_eq_mod)
     (simp add: unat_mod)

lemma unat_align_down: "unat (a AND NOT PAGE_MASK) = unat a div 4096 * 4096"
proof -
  have "a AND NOT PAGE_MASK = push_bit 12 (drop_bit 12 a)"
    by (rule bit_word_eqI) (auto simp: PAGE_MASK_eq bit_simps)
  moreover have "unat a div 4096 * 4096 < 2 ^ 64"
    using unat_u64_less [of a] by (simp add: order_le_less_trans [OF div_times_less_eq_dividend])
  ultimately show ?thesis
    by (simp add: push_bit_eq_mult drop_bit_eq_div unat_mult_u64 unat_div mult.commute)
qed

lemma page_aligned_iff: "IS_PAGE_ALIGNED a \<longleftrightarrow> unat a mod 4096 = 0"
  using unat_and_page_mask [of a] by (simp add: IS_PAGE_ALIGNED_def unat_eq_zero flip: unat_and_page_mask)

lemma unat_PAGE_ALIGN_UP:
  "unat a + 4095 < 2 ^ 64 \<Longrightarrow> unat (PAGE_ALIGN_UP a) = (unat a + 4095) div 4096 * 4096"
  by (simp only: PAGE_ALIGN_UP_def unat_align_down)
     (simp add: PAGE_MASK_def PAGE_SIZE_def unat_add_u64)

lemma unat_PAGE_COUNT:
  "unat a + 4095 < 2 ^ 64 \<Longrightarrow> unat (PAGE_COUNT a) = (unat a + 4095) div 4096"
  by (simp add: PAGE_COUNT_def unat_div unat_PAGE_ALIGN_UP)

section \<open>The shared state\<close>

text \<open>
  \<open>mem\<close> is the memory the kernel reaches through its pointers, by virtual address. The next
  fields are the globals \<open>g_hhdm_offset\<close>, \<open>bitmap_start\<close>, \<open>bitmap_size\<close> and \<open>total_frames\<close> of
  \<open>pmm.c\<close>; the bitmap itself lives in \<open>mem\<close>. \<open>klog_calls\<close> lists the log calls, oldest first.
\<close>

record mm_state =
  mem :: memory
  g_hhdm_offset :: u64
  bitmap_start :: u64
  bitmap_size :: u64
  total_frames :: u64
  klog_calls :: "klog_call list"

definition HHDM_PHYS_TO_VIRT :: "'a mm_state_scheme \<Rightarrow> u64 \<Rightarrow> u64" where
  "HHDM_PHYS_TO_VIRT s phys = phys + g_hhdm_offset s"

definition HHDM_VIRT_TO_PHYS :: "'a mm_state_scheme \<Rightarrow> u64 \<Rightarrow> u64" where
  "HHDM_VIRT_TO_PHYS s virt = virt - g_hhdm_offset s"

lemma hhdm_roundtrip [simp]:
  "HHDM_VIRT_TO_PHYS s (HHDM_PHYS_TO_VIRT s p) = p"
  "HHDM_PHYS_TO_VIRT s (HHDM_VIRT_TO_PHYS s v) = v"
  by (simp_all add: HHDM_PHYS_TO_VIRT_def HHDM_VIRT_TO_PHYS_def)

section \<open>Logging macros\<close>

definition klog :: "klog_level \<Rightarrow> string \<Rightarrow> u64 list \<Rightarrow> 'a mm_state_scheme \<Rightarrow> 'a mm_state_scheme" where
  "klog lvl fmt args s = s\<lparr>klog_calls := klog_calls s @ [(lvl, fmt, args)]\<rparr>"

abbreviation klog_debug :: "string \<Rightarrow> u64 list \<Rightarrow> 'a mm_state_scheme \<Rightarrow> 'a mm_state_scheme" where
  "klog_debug \<equiv> klog klog_level_debug"

abbreviation klog_info :: "string \<Rightarrow> u64 list \<Rightarrow> 'a mm_state_scheme \<Rightarrow> 'a mm_state_scheme" where
  "klog_info \<equiv> klog klog_level_info"

abbreviation klog_warn :: "string \<Rightarrow> u64 list \<Rightarrow> 'a mm_state_scheme \<Rightarrow> 'a mm_state_scheme" where
  "klog_warn \<equiv> klog klog_level_warn"

abbreviation klog_error :: "string \<Rightarrow> u64 list \<Rightarrow> 'a mm_state_scheme \<Rightarrow> 'a mm_state_scheme" where
  "klog_error \<equiv> klog klog_level_error"

definition kpanic :: "string \<Rightarrow> u64 list \<Rightarrow> 's \<Rightarrow> ('a, 's) kres" where
  "kpanic fmt args s = Inl ((fmt, args), s)"

lemma klog_fields [simp]:
  "mem (klog l f a s) = mem s"
  "g_hhdm_offset (klog l f a s) = g_hhdm_offset s"
  "bitmap_start (klog l f a s) = bitmap_start s"
  "bitmap_size (klog l f a s) = bitmap_size s"
  "total_frames (klog l f a s) = total_frames s"
  "mm_state.more (klog l f a s) = mm_state.more s"
  "klog_calls (klog l f a s) = klog_calls s @ [(l, f, a)]"
  by (simp_all add: klog_def)

lemma kpanic_not_Inr [simp]: "kpanic f a s \<noteq> Inr r" "Inr r \<noteq> kpanic f a s"
  by (simp_all add: kpanic_def)

end
