(* ===== verification/Pmm.thy ===== *)
theory Pmm
  imports Mm
begin

text \<open>
  The bitmap physical memory manager of \<open>src/src/memory/pmm.c\<close>: one bit per 4 KiB frame, 1 for
  allocated. The definitions follow the C functions; the lemmas relate them to the set of free
  frames, which is the manager's abstract state.
\<close>

section \<open>Memory map entries\<close>

text \<open>\<open>struct limine_memmap_entry\<close> and the entry types of \<open>src/src/limine.h\<close>.\<close>

record limine_memmap_entry =
  entry_base :: u64
  entry_length :: u64
  entry_type :: u64

definition LIMINE_MEMMAP_USABLE :: u64 where "LIMINE_MEMMAP_USABLE = 0"
definition LIMINE_MEMMAP_RESERVED :: u64 where "LIMINE_MEMMAP_RESERVED = 1"
definition LIMINE_MEMMAP_BAD_MEMORY :: u64 where "LIMINE_MEMMAP_BAD_MEMORY = 4"
definition LIMINE_MEMMAP_FRAMEBUFFER :: u64 where "LIMINE_MEMMAP_FRAMEBUFFER = 7"

section \<open>The bitmap\<close>

text \<open>\<open>bitmap_start[i]\<close> as a value and as an assignment, and the two updates the code makes.\<close>

definition bitmap_byte :: "'a mm_state_scheme \<Rightarrow> nat \<Rightarrow> u8" where
  "bitmap_byte s i = mem s (bitmap_start s + of_nat i)"

definition bitmap_write :: "nat \<Rightarrow> u8 \<Rightarrow> 'a mm_state_scheme \<Rightarrow> 'a mm_state_scheme" where
  "bitmap_write i v s = s\<lparr>mem := (mem s)(bitmap_start s + of_nat i := v)\<rparr>"

definition bitmap_set_bit :: "nat \<Rightarrow> nat \<Rightarrow> 'a mm_state_scheme \<Rightarrow> 'a mm_state_scheme" where
  "bitmap_set_bit byte b s = bitmap_write byte (bitmap_byte s byte OR push_bit b 1) s"

definition bitmap_clear_bit :: "nat \<Rightarrow> nat \<Rightarrow> 'a mm_state_scheme \<Rightarrow> 'a mm_state_scheme" where
  "bitmap_clear_bit byte b s = bitmap_write byte (bitmap_byte s byte AND NOT (push_bit b 1)) s"

definition bitmap_size_from_frames :: "u64 \<Rightarrow> u64" where
  "bitmap_size_from_frames frame_count = (frame_count + 7) div 8"

section \<open>Allocation\<close>

text \<open>The inner loop over the bits of one byte; \<open>None\<close> when it ends or breaks.\<close>

fun alloc_scan_bits :: "'a mm_state_scheme \<Rightarrow> nat \<Rightarrow> nat list \<Rightarrow> nat option" where
  "alloc_scan_bits s byte [] = None"
| "alloc_scan_bits s byte (b # bs) =
     (if of_nat byte * 8 + of_nat b \<ge> total_frames s then None
      else if bitmap_byte s byte AND push_bit b 1 \<noteq> 0 then alloc_scan_bits s byte bs
      else Some b)"

fun alloc_scan_bytes :: "'a mm_state_scheme \<Rightarrow> nat list \<Rightarrow> (nat \<times> nat) option" where
  "alloc_scan_bytes s [] = None"
| "alloc_scan_bytes s (byte # bytes) =
     (if bitmap_byte s byte = 0xFF then alloc_scan_bytes s bytes
      else (case alloc_scan_bits s byte [0..<8] of
              Some b \<Rightarrow> Some (byte, b)
            | None \<Rightarrow> alloc_scan_bytes s bytes))"

definition pmm_alloc_frame :: "'a mm_state_scheme \<Rightarrow> (phys_addr_t, 'a mm_state_scheme) kres" where
  "pmm_alloc_frame s =
     (case alloc_scan_bytes s [0..<unat (bitmap_size s)] of
        Some (byte, b) \<Rightarrow>
          Inr ((of_nat byte * 8 + of_nat b) * PAGE_SIZE, bitmap_set_bit byte b s)
      | None \<Rightarrow> kpanic ''pmm_alloc_frame: out of memory'' [] s)"

text \<open>
  The scan of \<open>pmm_alloc_frames\<close> for \<open>count\<close> free frames in a row, with \<open>run_start\<close> and
  \<open>run_len\<close> of the run so far. Both stay below \<open>total_frames\<close>, so naturals do not differ from
  the \<open>size_t\<close> of the source.
\<close>

fun alloc_scan_run :: "'a mm_state_scheme \<Rightarrow> nat \<Rightarrow> nat \<Rightarrow> nat \<Rightarrow> nat list \<Rightarrow> nat option" where
  "alloc_scan_run s count run_start run_len [] = None"
| "alloc_scan_run s count run_start run_len (frame # frames) =
     (if bitmap_byte s (frame div 8) AND push_bit (frame mod 8) 1 \<noteq> 0
      then alloc_scan_run s count run_start 0 frames
      else (let run_start' = (if run_len = 0 then frame else run_start); run_len' = run_len + 1
            in if run_len' \<noteq> count then alloc_scan_run s count run_start' run_len' frames
               else Some run_start'))"

definition pmm_alloc_frames :: "u64 \<Rightarrow> 'a mm_state_scheme \<Rightarrow> (phys_addr_t, 'a mm_state_scheme) kres" where
  "pmm_alloc_frames count s =
     (if count = 0 then Inr (0, s)
      else if count = 1 then pmm_alloc_frame s
      else (case alloc_scan_run s (unat count) 0 0 [0..<unat (total_frames s)] of
              Some run_start \<Rightarrow>
                Inr (of_nat run_start * PAGE_SIZE,
                  fold (\<lambda>i. bitmap_set_bit (i div 8) (i mod 8)) [run_start..<run_start + unat count] s)
            | None \<Rightarrow> kpanic ''pmm_alloc_frames: out of contiguous memory'' [] s))"

section \<open>Freeing and queries\<close>

definition pmm_free_frame :: "phys_addr_t \<Rightarrow> 'a mm_state_scheme \<Rightarrow> 'a mm_state_scheme" where
  "pmm_free_frame phys_addr s =
     (if \<not> IS_PAGE_ALIGNED phys_addr then
        klog_error ''pmm_free_frame: address 0x%llx is not page alligned'' [phys_addr] s
      else
        let frame = unat (phys_addr div PAGE_SIZE) in
        if frame \<ge> unat (total_frames s) then
          klog_error ''pmm_free_frame: address 0x%llx is not tracked by the physical memory manager''
            [phys_addr] s
        else if bitmap_byte s (frame div 8) AND push_bit (frame mod 8) 1 = 0 then
          klog_warn ''pmm_free_frame: attempting to free already free frame'' [] s
        else bitmap_clear_bit (frame div 8) (frame mod 8) s)"

definition pmm_free_frames :: "phys_addr_t \<Rightarrow> u64 \<Rightarrow> 'a mm_state_scheme \<Rightarrow> 'a mm_state_scheme" where
  "pmm_free_frames phys_addr count s =
     fold (\<lambda>i. pmm_free_frame (phys_addr + of_nat i * PAGE_SIZE)) [0..<unat count] s"

definition pmm_mark_allocated :: "phys_addr_t \<Rightarrow> 'a mm_state_scheme \<Rightarrow> 'a mm_state_scheme" where
  "pmm_mark_allocated phys_addr s =
     (if \<not> IS_PAGE_ALIGNED phys_addr then
        klog_error ''pmm_mark_allocated: address 0x%llx is not page alligned'' [phys_addr] s
      else
        let frame = unat (phys_addr div PAGE_SIZE) in
        if frame \<ge> unat (total_frames s) then
          klog_error ''pmm_mark_allocated: address 0x%llx is not tracked by the physical memory manager''
            [phys_addr] s
        else bitmap_set_bit (frame div 8) (frame mod 8) s)"

definition pmm_is_frame_free :: "phys_addr_t \<Rightarrow> 'a mm_state_scheme \<Rightarrow> bool \<times> 'a mm_state_scheme" where
  "pmm_is_frame_free phys_addr s =
     (if \<not> IS_PAGE_ALIGNED phys_addr then
        (False, klog_error ''pmm_is_frame_free: address 0x%llx is not page alligned'' [phys_addr] s)
      else
        let frame = unat (phys_addr div PAGE_SIZE) in
        if frame \<ge> unat (total_frames s) then
          (False, klog_warn ''pmm_is_frame_free: address 0x%llx is not tracked by the physical memory manager''
            [phys_addr] s)
        else (bitmap_byte s (frame div 8) AND push_bit (frame mod 8) 1 = 0, s))"

fun free_size_bits :: "u8 \<Rightarrow> nat list \<Rightarrow> u64 \<Rightarrow> u64" where
  "free_size_bits v [] free_frames = free_frames"
| "free_size_bits v (b # bs) free_frames =
     free_size_bits v bs (if v AND push_bit b 1 = 0 then free_frames + 1 else free_frames)"

fun free_size_bytes :: "'a mm_state_scheme \<Rightarrow> nat list \<Rightarrow> u64 \<Rightarrow> u64" where
  "free_size_bytes s [] free_frames = free_frames"
| "free_size_bytes s (byte # bytes) free_frames =
     (if bitmap_byte s byte = 0x00 then free_size_bytes s bytes (free_frames + 8)
      else if bitmap_byte s byte = 0xFF then free_size_bytes s bytes free_frames
      else free_size_bytes s bytes (free_size_bits (bitmap_byte s byte) [0..<8] free_frames))"

definition pmm_get_free_size :: "'a mm_state_scheme \<Rightarrow> u64" where
  "pmm_get_free_size s = free_size_bytes s [0..<unat (bitmap_size s)] 0 * PAGE_SIZE"

definition pmm_get_total_size :: "'a mm_state_scheme \<Rightarrow> u64" where
  "pmm_get_total_size s = total_frames s * PAGE_SIZE"

section \<open>Initialisation\<close>

fun highest_address :: "limine_memmap_entry list \<Rightarrow> u64 \<Rightarrow> u64" where
  "highest_address [] highest_addr = highest_addr"
| "highest_address (entry # entries) highest_addr =
     (if entry_type entry = LIMINE_MEMMAP_RESERVED \<or> entry_type entry = LIMINE_MEMMAP_FRAMEBUFFER
         \<or> entry_type entry = LIMINE_MEMMAP_BAD_MEMORY
      then highest_address entries highest_addr
      else let entry_end = entry_base entry + entry_length entry
           in highest_address entries (if entry_end > highest_addr then entry_end else highest_addr))"

fun find_bitmap_region :: "u64 \<Rightarrow> limine_memmap_entry list \<Rightarrow> phys_addr_t" where
  "find_bitmap_region sz [] = 0"
| "find_bitmap_region sz (entry # entries) =
     (if entry_type entry \<noteq> LIMINE_MEMMAP_USABLE then find_bitmap_region sz entries
      else if entry_length entry < sz then find_bitmap_region sz entries
      else entry_base entry)"

text \<open>
  \<open>for (uint64_t j = 0; j < entry->length; j += PAGE_SIZE)\<close>: the counter wraps when the length
  is within a page of \<open>2\<^sup>6\<^sup>4\<close>, and then the loop never ends (\<open>None\<close>).
\<close>

partial_function (option) free_region ::
    "limine_memmap_entry \<Rightarrow> u64 \<Rightarrow> 'a mm_state_scheme \<Rightarrow> 'a mm_state_scheme option" where
  "free_region entry j s =
     (if j < entry_length entry
      then free_region entry (j + PAGE_SIZE) (pmm_free_frame (entry_base entry + j) s)
      else Some s)"

fun free_usable :: "limine_memmap_entry list \<Rightarrow> 'a mm_state_scheme \<Rightarrow> 'a mm_state_scheme option" where
  "free_usable [] s = Some s"
| "free_usable (entry # entries) s =
     (if entry_type entry \<noteq> LIMINE_MEMMAP_USABLE then free_usable entries s
      else Option.bind (free_region entry 0 s) (free_usable entries))"

definition pmm_init ::
    "limine_memmap_entry list \<Rightarrow> u64 \<Rightarrow> 'a mm_state_scheme \<Rightarrow> (unit, 'a mm_state_scheme) kres option" where
  "pmm_init memmap hhdm_offset s0 =
     (let s1 = s0\<lparr>g_hhdm_offset := hhdm_offset\<rparr>;
          highest_addr = highest_address memmap 0;
          s2 = s1\<lparr>total_frames := PAGE_COUNT highest_addr\<rparr>;
          s3 = s2\<lparr>bitmap_size := bitmap_size_from_frames (total_frames s2)\<rparr>;
          bitmap_start_phys = find_bitmap_region (bitmap_size s3) memmap
      in if bitmap_start_phys = 0
         then Some (kpanic ''pmm_init: No usable region found for bitmap'' [] s3)
         else
           let s4 = s3\<lparr>bitmap_start := HHDM_PHYS_TO_VIRT s3 bitmap_start_phys\<rparr>;
               s5 = s4\<lparr>mem := snd (memset (bitmap_start s4) 0xFF (bitmap_size s4) (mem s4))\<rparr>
           in case free_usable memmap s5 of
                None \<Rightarrow> None
              | Some s6 \<Rightarrow>
                  let s7 = fold (\<lambda>frame. pmm_mark_allocated (bitmap_start_phys + of_nat frame * PAGE_SIZE))
                             [0..<unat (PAGE_COUNT (bitmap_size s6))] s6;
                      s8 = klog_debug ''bitmap_size=%lluKB frames=%llu'' [bitmap_size s7, total_frames s7] s7;
                      s9 = klog_info ''pmm_init: initialized sucessfully'' [] s8
                  in Some (Inr ((), s9)))"

section \<open>The abstract state: free frames\<close>

definition frame_allocated :: "'a mm_state_scheme \<Rightarrow> nat \<Rightarrow> bool" where
  "frame_allocated s f \<longleftrightarrow> bit (bitmap_byte s (f div 8)) (f mod 8)"

definition free_frames :: "'a mm_state_scheme \<Rightarrow> nat set" where
  "free_frames s = set (filter (\<lambda>f. \<not> frame_allocated s f) [0..<unat (total_frames s)])"

text \<open>
  The manager's invariant: the bitmap has one bit per frame, rounded up to bytes; frames lie
  in the 52-bit physical address space; and the padding bits of the last byte are set.
\<close>

definition pmm_wf :: "'a mm_state_scheme \<Rightarrow> bool" where
  "pmm_wf s \<longleftrightarrow> unat (bitmap_size s) = (unat (total_frames s) + 7) div 8
     \<and> unat (total_frames s) \<le> 2 ^ 40
     \<and> list_all (frame_allocated s) [unat (total_frames s)..<8 * unat (bitmap_size s)]"

text \<open>What the manager's operations leave alone: everything but the bitmap bytes and the log.\<close>

definition same_but_bitmap :: "'a mm_state_scheme \<Rightarrow> 'a mm_state_scheme \<Rightarrow> bool" where
  "same_but_bitmap s t \<longleftrightarrow> g_hhdm_offset t = g_hhdm_offset s \<and> bitmap_start t = bitmap_start s
     \<and> bitmap_size t = bitmap_size s \<and> total_frames t = total_frames s
     \<and> mm_state.more t = mm_state.more s
     \<and> (\<forall>a. unat (bitmap_size s) \<le> unat (a - bitmap_start s) \<longrightarrow> mem t a = mem s a)"

lemma free_frames_iff: "f \<in> free_frames s \<longleftrightarrow> f < unat (total_frames s) \<and> \<not> frame_allocated s f"
  by (auto simp: free_frames_def)

lemma finite_free_frames [simp]: "finite (free_frames s)"
  by (simp add: free_frames_def)

lemma free_frames_Min:
  assumes "f \<in> free_frames s" and "\<And>g. g < f \<Longrightarrow> frame_allocated s g"
  shows "Min (free_frames s) = f"
proof (rule Min_eqI)
  show "f \<le> g" if "g \<in> free_frames s" for g
    using that assms(2) [of g] by (auto simp: free_frames_iff not_less [symmetric])
qed (use assms in auto)

lemma pmm_wf_padding:
  "pmm_wf s \<Longrightarrow> unat (total_frames s) \<le> f \<Longrightarrow> f < 8 * unat (bitmap_size s) \<Longrightarrow> frame_allocated s f"
  by (simp add: pmm_wf_def list_all_iff)

lemma pmm_wf_frame_byte: "pmm_wf s \<Longrightarrow> f < unat (total_frames s) \<Longrightarrow> f div 8 < unat (bitmap_size s)"
  by (auto simp: pmm_wf_def)

lemma pmm_wf_bound: "pmm_wf s \<Longrightarrow> unat (total_frames s) \<le> 1099511627776"
  by (simp add: pmm_wf_def)

lemma pmm_wf_size_bound: "pmm_wf s \<Longrightarrow> unat (bitmap_size s) \<le> 137438953472"
  by (auto simp: pmm_wf_def)

lemma pmm_wf_cong:
  assumes "bitmap_size t = bitmap_size s" and "total_frames t = total_frames s"
    and "\<And>f. f < 8 * unat (bitmap_size s) \<Longrightarrow> frame_allocated t f = frame_allocated s f"
  shows "pmm_wf t = pmm_wf s"
  using assms by (auto simp: pmm_wf_def list_all_iff)

lemma same_but_bitmap_refl [simp]: "same_but_bitmap s s"
  by (simp add: same_but_bitmap_def)

lemma same_but_bitmap_trans [trans]:
  "same_but_bitmap s t \<Longrightarrow> same_but_bitmap t u \<Longrightarrow> same_but_bitmap s u"
  by (simp add: same_but_bitmap_def)

lemma same_but_bitmap_fields:
  assumes "same_but_bitmap s t"
  shows "g_hhdm_offset t = g_hhdm_offset s" "bitmap_start t = bitmap_start s"
    "bitmap_size t = bitmap_size s" "total_frames t = total_frames s"
    "mm_state.more t = mm_state.more s"
  using assms by (auto simp: same_but_bitmap_def)

lemma same_but_bitmap_klog [simp]: "same_but_bitmap s (klog l f a s)"
  by (simp add: same_but_bitmap_def)

lemma frame_allocated_klog [simp]: "frame_allocated (klog l f a s) = frame_allocated s"
  by (simp add: frame_allocated_def bitmap_byte_def fun_eq_iff)

lemma free_frames_klog [simp]: "free_frames (klog l f a s) = free_frames s"
  by (simp add: free_frames_def)

lemma pmm_wf_klog [simp]: "pmm_wf (klog l f a s) = pmm_wf s"
  by (simp add: pmm_wf_def)

subsection \<open>Bitmap updates\<close>

lemma bitmap_write_fields [simp]:
  "g_hhdm_offset (bitmap_write i v s) = g_hhdm_offset s"
  "bitmap_start (bitmap_write i v s) = bitmap_start s"
  "bitmap_size (bitmap_write i v s) = bitmap_size s"
  "total_frames (bitmap_write i v s) = total_frames s"
  "klog_calls (bitmap_write i v s) = klog_calls s"
  "mm_state.more (bitmap_write i v s) = mm_state.more s"
  by (simp_all add: bitmap_write_def)

lemma bitmap_bit_fields [simp]:
  "g_hhdm_offset (bitmap_set_bit y b s) = g_hhdm_offset s"
  "bitmap_start (bitmap_set_bit y b s) = bitmap_start s"
  "bitmap_size (bitmap_set_bit y b s) = bitmap_size s"
  "total_frames (bitmap_set_bit y b s) = total_frames s"
  "klog_calls (bitmap_set_bit y b s) = klog_calls s"
  "g_hhdm_offset (bitmap_clear_bit y b s) = g_hhdm_offset s"
  "bitmap_start (bitmap_clear_bit y b s) = bitmap_start s"
  "bitmap_size (bitmap_clear_bit y b s) = bitmap_size s"
  "total_frames (bitmap_clear_bit y b s) = total_frames s"
  "klog_calls (bitmap_clear_bit y b s) = klog_calls s"
  by (simp_all add: bitmap_set_bit_def bitmap_clear_bit_def)

lemma bitmap_byte_write:
  "i < 2 ^ 64 \<Longrightarrow> j < 2 ^ 64 \<Longrightarrow> bitmap_byte (bitmap_write i v s) j = (if j = i then v else bitmap_byte s j)"
  by (simp add: bitmap_byte_def bitmap_write_def of_nat_eq_u64)

lemma same_but_bitmap_write: "i < unat (bitmap_size s) \<Longrightarrow> same_but_bitmap s (bitmap_write i v s)"
  by (auto simp: same_but_bitmap_def bitmap_write_def offset_eq_iff_u64
      order_less_trans [OF _ unat_u64_less])

lemma frame_split: "f div 8 = g div 8 \<Longrightarrow> f mod 8 = g mod 8 \<Longrightarrow> f = g" for f g :: nat
  by (metis div_mult_mod_eq)

lemma frame_allocated_set:
  assumes "f < 2 ^ 64" and "g < 2 ^ 64"
  shows "frame_allocated (bitmap_set_bit (f div 8) (f mod 8) s) g \<longleftrightarrow> g = f \<or> frame_allocated s g"
  using assms by (auto simp: frame_allocated_def bitmap_set_bit_def bitmap_byte_write dest: frame_split)

lemma frame_allocated_clear:
  assumes "f < 2 ^ 64" and "g < 2 ^ 64"
  shows "frame_allocated (bitmap_clear_bit (f div 8) (f mod 8) s) g \<longleftrightarrow> g \<noteq> f \<and> frame_allocated s g"
  using assms by (auto simp: frame_allocated_def bitmap_clear_bit_def bitmap_byte_write dest: frame_split)

lemma same_but_bitmap_set:
  "pmm_wf s \<Longrightarrow> f < unat (total_frames s) \<Longrightarrow> same_but_bitmap s (bitmap_set_bit (f div 8) (f mod 8) s)"
  by (simp add: bitmap_set_bit_def same_but_bitmap_write pmm_wf_frame_byte)

lemma same_but_bitmap_clear:
  "pmm_wf s \<Longrightarrow> f < unat (total_frames s) \<Longrightarrow> same_but_bitmap s (bitmap_clear_bit (f div 8) (f mod 8) s)"
  by (simp add: bitmap_clear_bit_def same_but_bitmap_write pmm_wf_frame_byte)

lemma pmm_wf_small: "pmm_wf s \<Longrightarrow> f < 8 * unat (bitmap_size s) \<Longrightarrow> f < 2 ^ 64"
  using pmm_wf_size_bound [of s] by simp

lemma set_frame_effect:
  assumes "pmm_wf s" and f: "f < unat (total_frames s)"
  shows "pmm_wf (bitmap_set_bit (f div 8) (f mod 8) s)"
    and "free_frames (bitmap_set_bit (f div 8) (f mod 8) s) = free_frames s - {f}"
proof -
  note small = pmm_wf_small [OF assms(1)] pmm_wf_bound [OF assms(1)]
  have "frame_allocated (bitmap_set_bit (f div 8) (f mod 8) s) g" if "frame_allocated s g" "g < 2 ^ 64" for g
    using that f small by (subst frame_allocated_set) auto
  with assms small show "pmm_wf (bitmap_set_bit (f div 8) (f mod 8) s)"
    by (auto simp: pmm_wf_def list_all_iff)
  show "free_frames (bitmap_set_bit (f div 8) (f mod 8) s) = free_frames s - {f}"
    using f small by (auto simp: free_frames_iff frame_allocated_set)
qed

lemma clear_frame_effect:
  assumes "pmm_wf s" and f: "f < unat (total_frames s)"
  shows "pmm_wf (bitmap_clear_bit (f div 8) (f mod 8) s)"
    and "free_frames (bitmap_clear_bit (f div 8) (f mod 8) s) = insert f (free_frames s)"
proof -
  note small = pmm_wf_small [OF assms(1)] pmm_wf_bound [OF assms(1)]
  have "frame_allocated (bitmap_clear_bit (f div 8) (f mod 8) s) g"
    if "frame_allocated s g" "g < 2 ^ 64" "g \<noteq> f" for g
    using that f small by (subst frame_allocated_clear) auto
  with assms small show "pmm_wf (bitmap_clear_bit (f div 8) (f mod 8) s)"
    by (auto simp: pmm_wf_def list_all_iff)
  show "free_frames (bitmap_clear_bit (f div 8) (f mod 8) s) = insert f (free_frames s)"
    using f small by (auto simp: free_frames_iff frame_allocated_clear)
qed

subsection \<open>The allocation scans\<close>

lemma frame_in_byte: "b < 8 \<Longrightarrow> frame_allocated s (8 * y + b) \<longleftrightarrow> bit (bitmap_byte s y) b"
  by (simp add: frame_allocated_def)

lemma scan_frame_number:
  assumes "8 * y + b < 2 ^ 64"
  shows "unat (of_nat y * 8 + of_nat b :: u64) = 8 * y + b"
proof -
  have "(of_nat y * 8 + of_nat b :: u64) = of_nat (8 * y + b)" by (simp add: mult.commute)
  moreover have "unat (of_nat (8 * y + b) :: u64) = 8 * y + b"
    by (rule unat_of_nat_u64) (use assms in simp)
  ultimately show ?thesis by (simp only:)
qed

lemma alloc_scan_bits_Some:
  assumes "alloc_scan_bits s y [k..<8] = Some b" and "8 * y + 8 < 2 ^ 64"
  shows "k \<le> b \<and> b < 8 \<and> 8 * y + b \<in> free_frames s
    \<and> (\<forall>j. k \<le> j \<longrightarrow> j < b \<longrightarrow> frame_allocated s (8 * y + j))"
  using assms
proof (induction "8 - k" arbitrary: k)
  case (Suc n)
  then have k: "k < 8" and upt: "[k..<8] = k # [Suc k..<8]" by (auto simp: upt_rec)
  show ?case
  proof (cases "frame_allocated s (8 * y + k)")
    case True
    with Suc.prems k upt have "alloc_scan_bits s y [Suc k..<8] = Some b"
      by (auto simp: frame_in_byte split: if_splits)
    moreover have "n = 8 - Suc k" using Suc.hyps(2) by simp
    ultimately have IH: "Suc k \<le> b \<and> b < 8 \<and> 8 * y + b \<in> free_frames s
        \<and> (\<forall>j. Suc k \<le> j \<longrightarrow> j < b \<longrightarrow> frame_allocated s (8 * y + j))"
      using Suc.hyps(1) Suc.prems(2) by blast
    have "frame_allocated s (8 * y + j)" if "k \<le> j" "j < b" for j
      using IH True that by (cases "j = k") auto
    with IH show ?thesis by simp
  next
    case False
    with Suc.prems k upt show ?thesis
      by (auto simp: frame_in_byte scan_frame_number free_frames_iff word_le_nat_alt split: if_splits)
  qed
qed (auto simp: upt_rec)

lemma alloc_scan_bits_None:
  assumes "alloc_scan_bits s y [k..<8] = None" and "8 * y + 8 < 2 ^ 64" and "k \<le> j" and "j < 8"
  shows "8 * y + j \<notin> free_frames s"
  using assms
proof (induction "8 - k" arbitrary: k)
  case (Suc n)
  then have k: "k < 8" and upt: "[k..<8] = k # [Suc k..<8]" by (auto simp: upt_rec)
  show ?case
  proof (cases "unat (total_frames s) \<le> 8 * y + k")
    case True
    with Suc.prems show ?thesis by (auto simp: free_frames_iff)
  next
    case False
    with Suc.prems k upt have "frame_allocated s (8 * y + k)" "alloc_scan_bits s y [Suc k..<8] = None"
      by (auto simp: frame_in_byte scan_frame_number word_le_nat_alt split: if_splits)
    moreover have "n = 8 - Suc k" using Suc.hyps(2) by simp
    ultimately show ?thesis
      using Suc.hyps(1) [of "Suc k"] Suc.prems by (cases "j = k") (auto simp: free_frames_iff)
  qed
qed auto

lemma full_byte_not_free: "bitmap_byte s y = 0xFF \<Longrightarrow> f div 8 = y \<Longrightarrow> f \<notin> free_frames s"
  by (auto simp: free_frames_iff frame_allocated_def byte_all_ones_iff)

lemma alloc_scan_bytes_Some:
  assumes "alloc_scan_bytes s [k..<n] = Some (y, b)" and "8 * n < 2 ^ 64"
  shows "b < 8 \<and> 8 * y + b \<in> free_frames s \<and> (\<forall>g. 8 * k \<le> g \<longrightarrow> g < 8 * y + b \<longrightarrow> g \<notin> free_frames s)"
  using assms
proof (induction "n - k" arbitrary: k)
  case (Suc d)
  then have k: "k < n" and upt: "[k..<n] = k # [Suc k..<n]" and d: "d = n - Suc k"
    by (auto simp: upt_rec)
  have first_byte: "g div 8 = k" if "8 * k \<le> g" "\<not> 8 * Suc k \<le> g" for g using that by auto
  show ?case
  proof (cases "alloc_scan_bytes s [Suc k..<n] = Some (y, b)
      \<and> (bitmap_byte s k = 0xFF \<or> alloc_scan_bits s k [0..<8] = None)")
    case True
    then have IH: "b < 8 \<and> 8 * y + b \<in> free_frames s
        \<and> (\<forall>g. 8 * Suc k \<le> g \<longrightarrow> g < 8 * y + b \<longrightarrow> g \<notin> free_frames s)"
      using Suc.hyps(1) [OF d] Suc.prems by blast
    have "g \<notin> free_frames s" if "g div 8 = k" for g
    proof -
      have "8 * k + g mod 8 = g" using that by auto
      with True k Suc.prems(2) that show ?thesis
        using alloc_scan_bits_None [of s k 0 "g mod 8"] full_byte_not_free [of s k g] by auto
    qed
    with IH first_byte show ?thesis by blast
  next
    case False
    with Suc.prems upt have y: "y = k" "alloc_scan_bits s k [0..<8] = Some b"
      by (auto split: if_splits option.splits)
    with k Suc.prems(2) have b: "b < 8 \<and> 8 * k + b \<in> free_frames s
        \<and> (\<forall>j. j < b \<longrightarrow> frame_allocated s (8 * k + j))"
      using alloc_scan_bits_Some [of s k 0 b] by simp
    have "g \<notin> free_frames s" if "8 * k \<le> g" "g < 8 * k + b" for g
      using b that by (auto simp: free_frames_iff dest!: le_Suc_ex)
    with y b show ?thesis by blast
  qed
qed (auto simp: upt_rec)

lemma alloc_scan_bytes_None:
  assumes "alloc_scan_bytes s [k..<n] = None" and "8 * n < 2 ^ 64" and "8 * k \<le> g" and "g < 8 * n"
  shows "g \<notin> free_frames s"
  using assms
proof (induction "n - k" arbitrary: k)
  case (Suc d)
  then have k: "k < n" and upt: "[k..<n] = k # [Suc k..<n]" and d: "d = n - Suc k"
    by (auto simp: upt_rec)
  from Suc.prems upt have rest: "alloc_scan_bytes s [Suc k..<n] = None"
    and this_byte: "bitmap_byte s k = 0xFF \<or> alloc_scan_bits s k [0..<8] = None"
    by (auto split: if_splits option.splits)
  show ?case
  proof (cases "8 * Suc k \<le> g")
    case True
    then show ?thesis using Suc.hyps(1) [OF d rest] Suc.prems by blast
  next
    case False
    with Suc.prems(3) have "g div 8 = k" by auto
    moreover from this have "8 * k + g mod 8 = g" by auto
    ultimately show ?thesis
      using this_byte k Suc.prems(2) alloc_scan_bits_None [of s k 0 "g mod 8"] full_byte_not_free [of s k g] by auto
  qed
qed auto

text \<open>\<open>pmm_alloc_frame\<close> takes the lowest free frame, and panics exactly when there is none.\<close>

lemma pmm_alloc_frame_out_of_memory:
  assumes "pmm_wf s" and "free_frames s = {}"
  shows "pmm_alloc_frame s = kpanic ''pmm_alloc_frame: out of memory'' [] s"
proof (cases "alloc_scan_bytes s [0..<unat (bitmap_size s)]")
  case None
  then show ?thesis by (simp add: pmm_alloc_frame_def)
next
  case (Some yb)
  obtain y b where "yb = (y, b)" by (cases yb)
  with Some assms pmm_wf_size_bound [OF assms(1)] show ?thesis
    using alloc_scan_bytes_Some [of s 0 "unat (bitmap_size s)" y b] by simp
qed

lemma pmm_alloc_frame_success:
  assumes wf: "pmm_wf s" and "free_frames s \<noteq> {}"
  defines "f \<equiv> Min (free_frames s)"
  shows "pmm_alloc_frame s = Inr (of_nat f * PAGE_SIZE, bitmap_set_bit (f div 8) (f mod 8) s)"
proof (cases "alloc_scan_bytes s [0..<unat (bitmap_size s)]")
  case None
  from assms(2) obtain g where g: "g \<in> free_frames s" by blast
  with wf have "g div 8 < unat (bitmap_size s)" by (simp add: free_frames_iff pmm_wf_frame_byte)
  then have "g < 8 * unat (bitmap_size s)" by linarith
  with None g pmm_wf_size_bound [OF wf] show ?thesis
    using alloc_scan_bytes_None [of s 0 "unat (bitmap_size s)" g] by simp
next
  case (Some yb)
  obtain y b where yb: "yb = (y, b)" by (cases yb)
  with Some pmm_wf_size_bound [OF wf] have found: "b < 8" "8 * y + b \<in> free_frames s"
    "\<And>g. g < 8 * y + b \<Longrightarrow> g \<notin> free_frames s"
    using alloc_scan_bytes_Some [of s 0 "unat (bitmap_size s)" y b] by auto
  have "f = 8 * y + b"
    unfolding f_def by (rule Min_eqI) (use found in \<open>auto simp: not_less [symmetric]\<close>)
  with found(1) have "f div 8 = y" "f mod 8 = b" "(of_nat f :: u64) = of_nat y * 8 + of_nat b" by auto
  with Some yb show ?thesis by (simp add: pmm_alloc_frame_def)
qed

end
