(* ===== verification/Pmm_Spec.thy ===== *)
theory Pmm_Spec
  imports Pmm
begin

text \<open>
  What the operations of \<open>src/src/memory/pmm.c\<close> do to the set of free frames: allocation of a
  run of frames, freeing, marking, the queries and the size computations. The locale
  \<open>frame_allocator\<close> states the contract a client of a frame allocator relies on; it is
  interpreted on \<open>pmm_alloc_frame\<close> and \<open>pmm_free_frame\<close>.
\<close>

section \<open>Addresses and frames\<close>

definition frame_of :: "phys_addr_t \<Rightarrow> nat" where
  "frame_of p = unat (p div PAGE_SIZE)"

definition frame_addr :: "nat \<Rightarrow> phys_addr_t" where
  "frame_addr f = of_nat f * PAGE_SIZE"

lemma frame_of_eq: "frame_of p = unat p div 4096"
  by (simp add: frame_of_def unat_div)

lemma unat_frame_addr: "f < 2 ^ 52 \<Longrightarrow> unat (frame_addr f) = f * 4096"
  by (simp add: frame_addr_def unat_mult_u64 unat_of_nat_u64)

lemma frame_of_frame_addr [simp]: "f < 2 ^ 52 \<Longrightarrow> frame_of (frame_addr f) = f"
  by (simp add: frame_of_eq unat_frame_addr)

lemma frame_addr_aligned [simp]: "f < 2 ^ 52 \<Longrightarrow> IS_PAGE_ALIGNED (frame_addr f)"
  by (simp add: page_aligned_iff unat_frame_addr)

lemma frame_addr_frame_of: "IS_PAGE_ALIGNED p \<Longrightarrow> frame_addr (frame_of p) = p"
proof -
  assume "IS_PAGE_ALIGNED p"
  then have "unat p div 4096 * 4096 = unat p" by (auto simp: page_aligned_iff)
  moreover have "unat p div 4096 < 2 ^ 52"
    using unat_u64_less [of p] by (intro less_mult_imp_div_less) simp
  ultimately have "unat (frame_addr (frame_of p)) = unat p" by (simp add: unat_frame_addr frame_of_eq)
  then show ?thesis by (simp only: word_unat_eq_iff)
qed

section \<open>Runs of frames\<close>

definition free_run :: "'a mm_state_scheme \<Rightarrow> nat \<Rightarrow> nat \<Rightarrow> bool" where
  "free_run s a n \<longleftrightarrow> list_all (\<lambda>f. f < unat (total_frames s) \<and> \<not> frame_allocated s f) [a..<a + n]"

lemma free_run_iff: "free_run s a n \<longleftrightarrow> {a..<a + n} \<subseteq> free_frames s"
  by (auto simp: free_run_def list_all_iff free_frames_iff)

lemma alloc_scan_run_result:
  assumes "rl < c" and "lo + rl = k" and "rl \<noteq> 0 \<longrightarrow> rs = lo"
    and "{lo..<k} \<subseteq> free_frames s" and "k \<le> unat (total_frames s)"
  shows "case alloc_scan_run s c rs rl [k..<unat (total_frames s)] of
      Some r \<Rightarrow> lo \<le> r \<and> free_run s r c \<and> (\<forall>a. lo \<le> a \<longrightarrow> free_run s a c \<longrightarrow> r \<le> a)
    | None \<Rightarrow> (\<forall>a. lo \<le> a \<longrightarrow> \<not> free_run s a c)"
  using assms
proof (induction "unat (total_frames s) - k" arbitrary: k rs rl lo)
  case 0
  then have "\<not> free_run s a c" if "lo \<le> a" for a
  proof -
    have "a + c - 1 \<in> {a..<a + c}" "unat (total_frames s) \<le> a + c - 1" using 0 that by auto
    then show ?thesis unfolding free_run_iff by (meson free_frames_iff not_less subsetD)
  qed
  with 0 show ?case by simp
next
  case (Suc n)
  let ?T = "unat (total_frames s)"
  from Suc have k: "k < ?T" and n: "n = ?T - Suc k" and upt: "[k..<?T] = k # [Suc k..<?T]"
    by (auto simp: upt_rec)
  show ?case
  proof (cases "frame_allocated s k")
    case True
    have ge: "Suc k \<le> a" if "lo \<le> a" "free_run s a c" for a
    proof (rule ccontr)
      assume "\<not> Suc k \<le> a"
      with that Suc.prems have "k \<in> {a..<a + c}" by auto
      with that True show False by (auto simp: free_run_iff free_frames_iff)
    qed
    have rest: "case alloc_scan_run s c rs 0 [Suc k..<?T] of
        Some r \<Rightarrow> Suc k \<le> r \<and> free_run s r c \<and> (\<forall>a. Suc k \<le> a \<longrightarrow> free_run s a c \<longrightarrow> r \<le> a)
      | None \<Rightarrow> (\<forall>a. Suc k \<le> a \<longrightarrow> \<not> free_run s a c)"
      by (rule Suc.hyps(1) [OF n]) (use Suc.prems k in auto)
    have step: "alloc_scan_run s c rs rl [k..<?T] = alloc_scan_run s c rs 0 [Suc k..<?T]"
      using True by (simp add: upt frame_allocated_def)
    show ?thesis
    proof (cases "alloc_scan_run s c rs 0 [Suc k..<?T]")
      case None
      with rest step ge show ?thesis by (simp del: upt_Suc) blast
    next
      case (Some r)
      with rest have "Suc k \<le> r" "free_run s r c" "\<And>a. Suc k \<le> a \<Longrightarrow> free_run s a c \<Longrightarrow> r \<le> a" by auto
      moreover from this Suc.prems(2) have "lo \<le> r" by simp
      ultimately show ?thesis using Some step ge by simp
    qed
  next
    case False
    let ?rs = "if rl = 0 then k else rs"
    have rs: "?rs = lo" using Suc.prems by auto
    have "{lo..<Suc k} = insert k {lo..<k}" using Suc.prems(2) by auto
    with False k Suc.prems have run: "{lo..<Suc k} \<subseteq> free_frames s"
      by (auto simp: free_frames_iff)
    show ?thesis
    proof (cases "rl + 1 = c")
      case True
      with run Suc.prems have "free_run s lo c" by (auto simp: free_run_iff)
      moreover have "alloc_scan_run s c rs rl [k..<?T] = Some lo"
        using False True rs by (simp add: upt frame_allocated_def)
      ultimately show ?thesis by simp
    next
      case more: False
      have "alloc_scan_run s c rs rl [k..<?T] = alloc_scan_run s c ?rs (rl + 1) [Suc k..<?T]"
        using False more by (simp add: upt frame_allocated_def Let_def)
      also have "case \<dots> of
          Some r \<Rightarrow> lo \<le> r \<and> free_run s r c \<and> (\<forall>a. lo \<le> a \<longrightarrow> free_run s a c \<longrightarrow> r \<le> a)
        | None \<Rightarrow> (\<forall>a. lo \<le> a \<longrightarrow> \<not> free_run s a c)"
        by (rule Suc.hyps(1) [OF n]) (use Suc.prems k more rs run in auto)
      finally show ?thesis .
    qed
  qed
qed

lemma set_run_effect:
  fixes a b :: nat
  assumes "pmm_wf s" and "b \<le> unat (total_frames s)"
  defines "t \<equiv> fold (\<lambda>i. bitmap_set_bit (i div 8) (i mod 8)) [a..<b] s"
  shows "pmm_wf t \<and> free_frames t = free_frames s - {a..<b} \<and> same_but_bitmap s t \<and> klog_calls t = klog_calls s"
  using assms(2) unfolding t_def
proof (induction b)
  case (Suc b)
  show ?case
  proof (cases "a \<le> b")
    case True
    let ?u = "fold (\<lambda>i. bitmap_set_bit (i div 8) (i mod 8)) [a..<b] s"
    from Suc have IH: "pmm_wf ?u" "free_frames ?u = free_frames s - {a..<b}" "same_but_bitmap s ?u"
      "klog_calls ?u = klog_calls s" by auto
    moreover from IH(3) Suc.prems have "b < unat (total_frames ?u)" by (simp add: same_but_bitmap_fields)
    moreover from calculation have "same_but_bitmap s (bitmap_set_bit (b div 8) (b mod 8) ?u)"
      using same_but_bitmap_set [of ?u b] by (blast intro: same_but_bitmap_trans)
    moreover have "free_frames s - {a..<b} - {b} = free_frames s - {a..<Suc b}"
      using True by auto
    ultimately show ?thesis using True set_frame_effect [of ?u b] by simp
  next
    case False
    then show ?thesis using assms(1) by simp
  qed
qed (use assms in auto)

text \<open>
  \<open>pmm_alloc_frames\<close> takes the lowest run of \<open>count\<close> free frames, and panics when there is none.
\<close>

lemma pmm_alloc_frames_cases:
  assumes wf: "pmm_wf s" and count: "0 < unat count"
  shows "(\<exists>r t. pmm_alloc_frames count s = Inr (frame_addr r, t) \<and> free_run s r (unat count)
        \<and> (\<forall>a. free_run s a (unat count) \<longrightarrow> r \<le> a)
        \<and> free_frames t = free_frames s - {r..<r + unat count} \<and> pmm_wf t \<and> same_but_bitmap s t)
    \<or> (\<forall>a. \<not> free_run s a (unat count)) \<and> (\<exists>msg. pmm_alloc_frames count s = kpanic msg [] s)"
proof (cases "count = 1")
  case True
  let ?f = "Min (free_frames s)"
  show ?thesis
  proof (cases "free_frames s = {}")
    case True
    with wf \<open>count = 1\<close> show ?thesis
      by (auto simp: pmm_alloc_frames_def pmm_alloc_frame_out_of_memory free_run_iff)
  next
    case False
    then have f: "?f \<in> free_frames s" by simp
    have "free_run s ?f 1" "\<forall>a. free_run s a 1 \<longrightarrow> ?f \<le> a"
      using f by (auto simp: free_run_iff)
    moreover have "{?f..<?f + 1} = {?f}" by auto
    ultimately show ?thesis using \<open>count = 1\<close> wf f False
      using set_frame_effect [of s ?f] same_but_bitmap_set [of s ?f]
      by (intro disjI1 exI [of _ ?f] exI [of _ "bitmap_set_bit (?f div 8) (?f mod 8) s"])
         (simp add: pmm_alloc_frames_def pmm_alloc_frame_success frame_addr_def free_frames_iff)
  qed
next
  case False
  let ?T = "unat (total_frames s)" and ?c = "unat count"
  have neq: "count \<noteq> 0" using count by auto
  have scan: "case alloc_scan_run s ?c 0 0 [0..<?T] of
      Some r \<Rightarrow> 0 \<le> r \<and> free_run s r ?c \<and> (\<forall>a. 0 \<le> a \<longrightarrow> free_run s a ?c \<longrightarrow> r \<le> a)
    | None \<Rightarrow> (\<forall>a. 0 \<le> a \<longrightarrow> \<not> free_run s a ?c)"
    by (rule alloc_scan_run_result) (use count in auto)
  show ?thesis
  proof (cases "alloc_scan_run s ?c 0 0 [0..<?T]")
    case None
    with scan False neq show ?thesis by (auto simp: pmm_alloc_frames_def)
  next
    case (Some r)
    with scan have r: "free_run s r ?c" "\<forall>a. free_run s a ?c \<longrightarrow> r \<le> a" by auto
    have "r + ?c - 1 \<in> free_frames s" using r(1) count by (auto simp: free_run_iff)
    then have "r + ?c \<le> ?T" by (auto simp: free_frames_iff)
    with Some r False neq wf show ?thesis
      using set_run_effect [of s "r + ?c" r]
      by (intro disjI1 exI [of _ r]) (simp add: pmm_alloc_frames_def frame_addr_def)
  qed
qed

section \<open>Freeing, marking and asking\<close>

lemma pmm_free_frame_effect:
  assumes "pmm_wf s"
  shows "pmm_wf (pmm_free_frame p s)" and "same_but_bitmap s (pmm_free_frame p s)"
    and "free_frames (pmm_free_frame p s) =
      (if IS_PAGE_ALIGNED p \<and> frame_of p < unat (total_frames s)
       then insert (frame_of p) (free_frames s) else free_frames s)"
  using assms clear_frame_effect [of s "frame_of p"] same_but_bitmap_clear [of s "frame_of p"]
  by (auto simp: pmm_free_frame_def Let_def free_frames_iff simp flip: frame_of_def frame_allocated_def)

lemma pmm_free_frame_rejects:
  assumes "\<not> (IS_PAGE_ALIGNED p \<and> frame_of p < unat (total_frames s)) \<or> frame_of p \<in> free_frames s"
  shows "\<exists>lvl msg args. pmm_free_frame p s = klog lvl msg args s"
  using assms
  by (auto simp: pmm_free_frame_def Let_def free_frames_iff simp flip: frame_of_def frame_allocated_def)

lemma pmm_mark_allocated_effect:
  assumes "pmm_wf s"
  shows "pmm_wf (pmm_mark_allocated p s)" and "same_but_bitmap s (pmm_mark_allocated p s)"
    and "free_frames (pmm_mark_allocated p s) =
      (if IS_PAGE_ALIGNED p then free_frames s - {frame_of p} else free_frames s)"
  using assms set_frame_effect [of s "frame_of p"] same_but_bitmap_set [of s "frame_of p"]
  by (auto simp: pmm_mark_allocated_def Let_def free_frames_iff simp flip: frame_of_def)

lemma pmm_is_frame_free_result:
  "fst (pmm_is_frame_free p s) \<longleftrightarrow> IS_PAGE_ALIGNED p \<and> frame_of p \<in> free_frames s"
  by (auto simp: pmm_is_frame_free_def Let_def free_frames_iff simp flip: frame_of_def frame_allocated_def)

lemma pmm_free_frames_effect:
  assumes "pmm_wf s" and "IS_PAGE_ALIGNED p" and "frame_of p + n \<le> unat (total_frames s)"
  defines "t \<equiv> fold (\<lambda>i. pmm_free_frame (p + of_nat i * PAGE_SIZE)) [0..<n] s"
  shows "pmm_wf t \<and> same_but_bitmap s t \<and> free_frames t = free_frames s \<union> {frame_of p..<frame_of p + n}"
  using assms(3) unfolding t_def
proof (induction n)
  case (Suc n)
  let ?u = "fold (\<lambda>i. pmm_free_frame (p + of_nat i * PAGE_SIZE)) [0..<n] s"
  let ?p = "p + of_nat n * PAGE_SIZE"
  from Suc have IH: "pmm_wf ?u" "same_but_bitmap s ?u"
    "free_frames ?u = free_frames s \<union> {frame_of p..<frame_of p + n}" by auto
  have "?p = frame_addr (frame_of p + n)"
    using frame_addr_frame_of [OF assms(2)] by (simp add: frame_addr_def algebra_simps)
  moreover have "frame_of p + n < 2 ^ 52" using Suc.prems pmm_wf_bound [OF assms(1)] by simp
  ultimately have "IS_PAGE_ALIGNED ?p" "frame_of ?p = frame_of p + n" by simp_all
  with Suc.prems IH show ?case
    using pmm_free_frame_effect [OF IH(1), of ?p]
    by (auto simp: same_but_bitmap_fields intro: same_but_bitmap_trans)
qed (use assms in simp)

section \<open>Counting free memory\<close>

definition byte_free :: "'a mm_state_scheme \<Rightarrow> nat \<Rightarrow> nat" where
  "byte_free s y = length (filter (\<lambda>b. \<not> bit (bitmap_byte s y) b) [0..<8])"

lemma free_size_bits_eq:
  "free_size_bits v bs n = n + of_nat (length (filter (\<lambda>b. \<not> bit v b) bs))"
  by (induction bs arbitrary: n) auto

lemma free_size_bytes_eq: "free_size_bytes s ys n = n + of_nat (sum_list (map (byte_free s) ys))"
proof (induction ys arbitrary: n)
  case (Cons y ys)
  have "byte_free s y = 8" if "bitmap_byte s y = 0"
    using that by (simp add: byte_free_def)
  moreover have "byte_free s y = 0" if "bitmap_byte s y = 0xFF"
    using that [unfolded byte_all_ones_iff] by (auto simp: byte_free_def filter_empty_conv)
  ultimately show ?case
    by (simp add: Cons.IH free_size_bits_eq byte_free_def)
qed simp

lemma count_free_bytes:
  "sum_list (map (byte_free s) [0..<n]) = length (filter (\<lambda>f. \<not> frame_allocated s f) [0..<8 * n])"
proof (induction n)
  case (Suc n)
  have "[8 * n..<8 * n + 8] = map (\<lambda>b. 8 * n + b) [0..<8]"
    by (simp add: map_add_upt [of "8 * n" 8, symmetric] add.commute)
  then have "length (filter (\<lambda>f. \<not> frame_allocated s f) [8 * n..<8 * n + 8])
      = length (filter (\<lambda>b. \<not> frame_allocated s (8 * n + b)) [0..<8])"
    by (simp only: filter_map length_map o_def)
  also have "\<dots> = byte_free s n"
    unfolding byte_free_def by (intro arg_cong [of _ _ length] filter_cong) (auto simp: frame_in_byte)
  finally have "length (filter (\<lambda>f. \<not> frame_allocated s f) [8 * n..<8 * n + 8]) = byte_free s n" .
  moreover have "[0..<8 * Suc n] = [0..<8 * n] @ [8 * n..<8 * n + 8]"
    using upt_add_eq_append [of 0 "8 * n" 8] by (simp add: add.commute)
  ultimately show ?case using Suc by simp
qed simp

lemma card_free_frames: "card (free_frames s) = length (filter (\<lambda>f. \<not> frame_allocated s f) [0..<unat (total_frames s)])"
  unfolding free_frames_def by (rule distinct_card) simp

lemma count_free_padding:
  assumes "pmm_wf s"
  shows "length (filter (\<lambda>f. \<not> frame_allocated s f) [0..<8 * unat (bitmap_size s)]) = card (free_frames s)"
proof -
  let ?T = "unat (total_frames s)" and ?N = "8 * unat (bitmap_size s)"
  have "?T \<le> ?N" using assms by (auto simp: pmm_wf_def)
  then have "[0..<?N] = [0..<?T] @ [?T..<?N]"
    using upt_add_eq_append [of 0 ?T "?N - ?T"] by simp
  moreover have "filter (\<lambda>f. \<not> frame_allocated s f) [?T..<?N] = []"
    using pmm_wf_padding [OF assms] by (auto simp: filter_empty_conv)
  ultimately show ?thesis by (simp add: card_free_frames)
qed

lemma pmm_get_free_size_eq:
  assumes "pmm_wf s"
  shows "unat (pmm_get_free_size s) = card (free_frames s) * 4096"
proof -
  have "card (free_frames s) \<le> unat (total_frames s)"
    unfolding card_free_frames by (rule order_trans [OF length_filter_le]) simp
  with pmm_wf_bound [OF assms] have "card (free_frames s) \<le> 1099511627776" by simp
  moreover have "pmm_get_free_size s = of_nat (card (free_frames s)) * PAGE_SIZE"
    by (simp add: pmm_get_free_size_def free_size_bytes_eq count_free_bytes count_free_padding [OF assms])
  ultimately show ?thesis by (simp add: unat_mult_u64 unat_of_nat_u64)
qed

lemma pmm_get_total_size_eq: "pmm_wf s \<Longrightarrow> unat (pmm_get_total_size s) = unat (total_frames s) * 4096"
  using pmm_wf_bound [of s] by (simp add: pmm_get_total_size_def unat_mult_u64)

section \<open>The contract of a frame allocator\<close>

text \<open>
  What a client relies on: a set of managed frames, the free ones among them, \<open>alloc\<close> that takes
  some free frame or fails when there is none, and \<open>release\<close> that gives a managed frame back.
\<close>

locale frame_allocator =
  fixes alloc :: "'s \<Rightarrow> (phys_addr_t, 's) kres"
    and release :: "phys_addr_t \<Rightarrow> 's \<Rightarrow> 's"
    and free :: "'s \<Rightarrow> nat set"
    and managed :: "'s \<Rightarrow> nat set"
    and inv :: "'s \<Rightarrow> bool"
  assumes alloc_Inr: "inv s \<Longrightarrow> alloc s = Inr (p, t) \<Longrightarrow>
      inv t \<and> managed t = managed s \<and> p = frame_addr (frame_of p) \<and> frame_of p \<in> free s
      \<and> free t = free s - {frame_of p}"
    and alloc_Inl: "inv s \<Longrightarrow> alloc s = Inl e \<Longrightarrow> free s = {}"
    and release: "inv s \<Longrightarrow> f \<in> managed s \<Longrightarrow>
      inv (release (frame_addr f) s) \<and> managed (release (frame_addr f) s) = managed s
      \<and> free (release (frame_addr f) s) = insert f (free s)"
    and free_managed: "inv s \<Longrightarrow> free s \<subseteq> managed s \<and> finite (managed s)"

text \<open>\<open>n\<close> allocations in a row, the frames in the order they were returned.\<close>

fun alloc_many :: "('s \<Rightarrow> (phys_addr_t, 's) kres) \<Rightarrow> nat \<Rightarrow> 's \<Rightarrow> (phys_addr_t list, 's) kres" where
  "alloc_many alloc 0 s = Inr ([], s)"
| "alloc_many alloc (Suc n) s =
     kbind (alloc s) (\<lambda>p s. kbind (alloc_many alloc n s) (\<lambda>ps s. Inr (p # ps, s)))"

context frame_allocator
begin

lemma finite_free: "inv s \<Longrightarrow> finite (free s)"
  using free_managed finite_subset by blast

lemma alloc_ok_iff: "inv s \<Longrightarrow> (\<exists>p t. alloc s = Inr (p, t)) \<longleftrightarrow> free s \<noteq> {}"
  using alloc_Inr alloc_Inl by (cases "alloc s") fastforce+

lemma alloc_release:
  assumes "inv s" and "alloc s = Inr (p, t)"
  shows "free (release p t) = free s \<and> inv (release p t)"
proof -
  from alloc_Inr [OF assms] have t: "inv t" "managed t = managed s" "p = frame_addr (frame_of p)"
    "frame_of p \<in> free s" "free t = free s - {frame_of p}" by auto
  moreover from t assms(1) free_managed have "frame_of p \<in> managed t" by auto
  ultimately show ?thesis using release [of t "frame_of p"] by auto
qed

lemma alloc_many_Inr:
  assumes "inv s" and "alloc_many alloc n s = Inr (ps, t)"
  shows "inv t \<and> length ps = n \<and> distinct (map frame_of ps) \<and> set (map frame_of ps) \<subseteq> free s
    \<and> free t = free s - set (map frame_of ps)"
  using assms
proof (induction n arbitrary: s ps)
  case (Suc n)
  then obtain p u qs where p: "alloc s = Inr (p, u)" "alloc_many alloc n u = Inr (qs, t)" "ps = p # qs"
    by (auto simp: kbind_eq_Inr_iff)
  from alloc_Inr [OF Suc.prems(1) p(1)] have u: "inv u" "frame_of p \<in> free s"
    "free u = free s - {frame_of p}" by auto
  from Suc.IH [OF u(1) p(2)] u p(3) show ?case by auto
qed auto

lemma alloc_many_ok:
  assumes "inv s" and "n \<le> card (free s)"
  shows "\<exists>ps t. alloc_many alloc n s = Inr (ps, t)"
  using assms
proof (induction n arbitrary: s)
  case (Suc n)
  then have "free s \<noteq> {}" by auto
  then obtain p t where p: "alloc s = Inr (p, t)" using alloc_ok_iff [OF Suc.prems(1)] by blast
  from alloc_Inr [OF Suc.prems(1) p] have "inv t" "frame_of p \<in> free s"
    "free t = free s - {frame_of p}" by auto
  moreover from this Suc.prems finite_free have "n \<le> card (free t)" by auto
  ultimately obtain qs u where "alloc_many alloc n t = Inr (qs, u)" using Suc.IH by blast
  with p show ?case by simp
qed simp

lemma alloc_many_fails:
  assumes "inv s" and "card (free s) < n"
  shows "\<exists>e. alloc_many alloc n s = Inl e"
proof (cases "alloc_many alloc n s")
  case (Inr r)
  then obtain ps t where "alloc_many alloc n s = Inr (ps, t)" by (cases r) auto
  from alloc_many_Inr [OF assms(1) this] have "n = length (map frame_of ps)"
    "distinct (map frame_of ps)" "set (map frame_of ps) \<subseteq> free s" by auto
  then have "n = card (set (map frame_of ps))" "set (map frame_of ps) \<subseteq> free s"
    by (simp_all only: distinct_card)
  with card_mono [OF finite_free [OF assms(1)]] have "n \<le> card (free s)" by metis
  with assms(2) show ?thesis by simp
qed auto

end

lemma pmm_alloc_frame_Inr:
  assumes "pmm_wf s" and "pmm_alloc_frame s = Inr (p, t)"
  shows "pmm_wf t" and "same_but_bitmap s t" and "p = frame_addr (frame_of p)"
    and "frame_of p = Min (free_frames s)" and "frame_of p \<in> free_frames s"
    and "free_frames t = free_frames s - {frame_of p}"
proof -
  let ?f = "Min (free_frames s)"
  from assms have ne: "free_frames s \<noteq> {}" by (auto simp: pmm_alloc_frame_out_of_memory)
  then have f: "?f \<in> free_frames s" by simp
  with pmm_wf_bound [OF assms(1)] have lt: "?f < unat (total_frames s)" "?f < 2 ^ 52"
    by (auto simp: free_frames_iff)
  from assms pmm_alloc_frame_success [OF assms(1) ne]
  have pt: "p = frame_addr ?f" "t = bitmap_set_bit (?f div 8) (?f mod 8) s"
    by (auto simp: frame_addr_def)
  with lt have "frame_of p = ?f" by simp
  with pt f lt assms(1) show "pmm_wf t" "same_but_bitmap s t" "p = frame_addr (frame_of p)"
    "frame_of p = ?f" "frame_of p \<in> free_frames s" "free_frames t = free_frames s - {frame_of p}"
    by (simp_all add: set_frame_effect same_but_bitmap_set)
qed

lemma pmm_alloc_frame_klog:
  assumes "pmm_wf s" and "pmm_alloc_frame s = Inr (p, t)"
  shows "klog_calls t = klog_calls s"
proof -
  from assms have "free_frames s \<noteq> {}" by (auto simp: pmm_alloc_frame_out_of_memory)
  with assms pmm_alloc_frame_success [OF assms(1)] show ?thesis by auto
qed

interpretation pmm: frame_allocator pmm_alloc_frame pmm_free_frame free_frames
  "\<lambda>s. {f. f < unat (total_frames s)}" pmm_wf
proof
  fix s t :: "'a mm_state_scheme" and p
  assume "pmm_wf s" "pmm_alloc_frame s = Inr (p, t)"
  from pmm_alloc_frame_Inr [OF this]
  show "pmm_wf t \<and> {f. f < unat (total_frames t)} = {f. f < unat (total_frames s)}
      \<and> p = frame_addr (frame_of p) \<and> frame_of p \<in> free_frames s
      \<and> free_frames t = free_frames s - {frame_of p}"
    by (auto simp: same_but_bitmap_fields)
next
  fix s :: "'a mm_state_scheme" and e
  assume "pmm_wf s" "pmm_alloc_frame s = Inl e"
  then show "free_frames s = {}" using pmm_alloc_frame_success by fastforce
next
  fix s :: "'a mm_state_scheme" and f
  assume s: "pmm_wf s" and "f \<in> {f. f < unat (total_frames s)}"
  with pmm_wf_bound [OF s] have "IS_PAGE_ALIGNED (frame_addr f)" "frame_of (frame_addr f) = f"
    "f < unat (total_frames s)" by auto
  with pmm_free_frame_effect [OF s, of "frame_addr f"]
  show "pmm_wf (pmm_free_frame (frame_addr f) s)
      \<and> {g. g < unat (total_frames (pmm_free_frame (frame_addr f) s))} = {g. g < unat (total_frames s)}
      \<and> free_frames (pmm_free_frame (frame_addr f) s) = insert f (free_frames s)"
    by (auto simp: same_but_bitmap_fields)
qed (auto simp: free_frames_iff)

end
