(* ===== verification/Pmm_Init.thy ===== *)
theory Pmm_Init
  imports Pmm_Spec
begin

text \<open>
  \<open>pmm_init\<close> of \<open>src/src/memory/pmm.c\<close>: from a memory map as the Limine protocol promises it,
  the manager starts with exactly the usable frames free, less the frames that hold its bitmap.
\<close>

section \<open>Memory maps\<close>

definition is_usable :: "limine_memmap_entry \<Rightarrow> bool" where
  "is_usable e \<longleftrightarrow> entry_type e = LIMINE_MEMMAP_USABLE"

definition is_counted :: "limine_memmap_entry \<Rightarrow> bool" where
  "is_counted e \<longleftrightarrow> entry_type e \<noteq> LIMINE_MEMMAP_RESERVED \<and> entry_type e \<noteq> LIMINE_MEMMAP_FRAMEBUFFER
     \<and> entry_type e \<noteq> LIMINE_MEMMAP_BAD_MEMORY"

text \<open>
  The promises of the boot protocol the manager relies on: regions other than reserved, bad and
  framebuffer memory end in the 52-bit physical address space, and usable regions are page
  aligned in base and length and do not start at address 0.
\<close>

definition memmap_ok :: "limine_memmap_entry list \<Rightarrow> bool" where
  "memmap_ok memmap \<longleftrightarrow>
     list_all (\<lambda>e. (is_counted e \<longrightarrow> unat (entry_base e) + unat (entry_length e) \<le> 2 ^ 52)
       \<and> (is_usable e \<longrightarrow> IS_PAGE_ALIGNED (entry_base e) \<and> IS_PAGE_ALIGNED (entry_length e)
            \<and> entry_base e \<noteq> 0)) memmap"

definition entry_frames :: "limine_memmap_entry \<Rightarrow> nat set" where
  "entry_frames e =
     {frame_of (entry_base e)..<frame_of (entry_base e) + unat (entry_length e) div 4096}"

definition usable_frames :: "limine_memmap_entry list \<Rightarrow> nat set" where
  "usable_frames memmap = (\<Union>e\<in>set (filter is_usable memmap). entry_frames e)"

definition init_total_frames :: "limine_memmap_entry list \<Rightarrow> u64" where
  "init_total_frames memmap = PAGE_COUNT (highest_address memmap 0)"

definition init_bitmap_size :: "limine_memmap_entry list \<Rightarrow> u64" where
  "init_bitmap_size memmap = bitmap_size_from_frames (init_total_frames memmap)"

text \<open>The frames the bitmap occupies.\<close>

definition bitmap_frames :: "'a mm_state_scheme \<Rightarrow> nat set" where
  "bitmap_frames s =
     (let b = frame_of (HHDM_VIRT_TO_PHYS s (bitmap_start s))
      in {b..<b + (unat (bitmap_size s) + 4095) div 4096})"

lemma usable_counted: "is_usable e \<Longrightarrow> is_counted e"
  by (simp add: is_usable_def is_counted_def LIMINE_MEMMAP_USABLE_def LIMINE_MEMMAP_RESERVED_def
      LIMINE_MEMMAP_FRAMEBUFFER_def LIMINE_MEMMAP_BAD_MEMORY_def)

lemma memmap_okD:
  assumes "memmap_ok memmap" and "e \<in> set memmap"
  shows "is_counted e \<Longrightarrow> unat (entry_base e) + unat (entry_length e) \<le> 4503599627370496"
    and "is_usable e \<Longrightarrow> unat (entry_base e) + unat (entry_length e) \<le> 4503599627370496"
    and "is_usable e \<Longrightarrow> IS_PAGE_ALIGNED (entry_base e)"
    and "is_usable e \<Longrightarrow> IS_PAGE_ALIGNED (entry_length e)"
    and "is_usable e \<Longrightarrow> entry_base e \<noteq> 0"
  using assms by (auto simp: memmap_ok_def list_all_iff dest: usable_counted)

section \<open>The highest address\<close>

lemma highest_address_Cons:
  "highest_address (e # es) h =
     highest_address es (if is_counted e then max h (entry_base e + entry_length e) else h)"
  by (auto simp: is_counted_def max_def Let_def not_le less_le)

lemma highest_address_ge: "h \<le> highest_address es h"
  by (induction es arbitrary: h) (auto simp: highest_address_Cons simp del: highest_address.simps(2)
      intro: order_trans [OF max.cobounded1])

lemma highest_address_entry:
  "e \<in> set es \<Longrightarrow> is_counted e \<Longrightarrow> entry_base e + entry_length e \<le> highest_address es h"
proof (induction es arbitrary: h)
  case (Cons x xs)
  show ?case
  proof (cases "e = x")
    case True
    then have "entry_base e + entry_length e \<le> max h (entry_base x + entry_length x)" by simp
    also have "\<dots> \<le> highest_address xs (max h (entry_base x + entry_length x))"
      by (rule highest_address_ge)
    finally show ?thesis using Cons.prems True by (simp only: highest_address_Cons if_True)
  next
    case False
    with Cons show ?thesis by (simp only: highest_address_Cons set_ConsD) auto
  qed
qed simp

lemma highest_address_le:
  assumes "\<And>e. e \<in> set es \<Longrightarrow> is_counted e \<Longrightarrow> entry_base e + entry_length e \<le> b" and "h \<le> b"
  shows "highest_address es h \<le> b"
  using assms
proof (induction es arbitrary: h)
  case (Cons x xs)
  then have "highest_address xs (if is_counted x then max h (entry_base x + entry_length x) else h) \<le> b"
    by (intro Cons.IH) auto
  then show ?case by (simp only: highest_address_Cons)
qed simp

lemma memmap_ok_end:
  assumes "memmap_ok memmap" and "e \<in> set memmap" and "is_counted e"
  shows "unat (entry_base e + entry_length e) = unat (entry_base e) + unat (entry_length e)"
  using memmap_okD(1) [OF assms] by (simp add: unat_add_u64)

lemma highest_address_bound:
  assumes "memmap_ok memmap"
  shows "unat (highest_address memmap 0) \<le> 4503599627370496"
proof -
  have "highest_address memmap 0 \<le> (4503599627370496 :: u64)"
  proof (rule highest_address_le)
    fix e assume "e \<in> set memmap" "is_counted e"
    with assms show "entry_base e + entry_length e \<le> 4503599627370496"
      using memmap_okD(1) [OF assms] memmap_ok_end [OF assms] by (simp add: word_le_nat_alt)
  qed simp
  then show ?thesis by (simp add: word_le_nat_alt)
qed

lemma init_total_frames_bounds:
  assumes "memmap_ok memmap"
  shows "unat (init_total_frames memmap) \<le> 2 ^ 40"
    and "e \<in> set memmap \<Longrightarrow> is_usable e \<Longrightarrow>
      frame_of (entry_base e) + unat (entry_length e) div 4096 \<le> unat (init_total_frames memmap)"
proof -
  let ?h = "unat (highest_address memmap 0)"
  from highest_address_bound [OF assms]
  have total: "unat (init_total_frames memmap) = (?h + 4095) div 4096"
    by (simp add: init_total_frames_def unat_PAGE_COUNT)
  with highest_address_bound [OF assms] show "unat (init_total_frames memmap) \<le> 2 ^ 40" by simp
  assume e: "e \<in> set memmap" "is_usable e"
  then have "unat (entry_base e) + unat (entry_length e) \<le> ?h"
    using highest_address_entry [of e memmap 0] memmap_ok_end [OF assms e(1)]
    by (simp add: usable_counted word_le_nat_alt)
  moreover obtain b l where "unat (entry_base e) = 4096 * b" "unat (entry_length e) = 4096 * l"
    using memmap_okD [OF assms e(1)] e(2) by (auto simp: page_aligned_iff elim!: dvdE)
  ultimately show "frame_of (entry_base e) + unat (entry_length e) div 4096 \<le> unat (init_total_frames memmap)"
    unfolding total frame_of_eq by simp
qed

lemma init_bitmap_size_eq:
  assumes "memmap_ok memmap"
  shows "unat (init_bitmap_size memmap) = (unat (init_total_frames memmap) + 7) div 8"
  using init_total_frames_bounds(1) [OF assms]
  by (simp add: init_bitmap_size_def bitmap_size_from_frames_def unat_div unat_add_u64)

section \<open>Freeing the usable regions\<close>

text \<open>
  The page loop of one region ends when its length leaves room for the last increment, and it
  frees the pages of the region in order.
\<close>

lemma free_region_fold:
  fixes s :: "'a mm_state_scheme"
  assumes "unat (entry_length e) \<le> 2 ^ 64 - 4096" and "i \<le> (unat (entry_length e) + 4095) div 4096"
  shows "free_region e (of_nat i * PAGE_SIZE) s =
    Some (fold (\<lambda>j. pmm_free_frame (entry_base e + of_nat j * PAGE_SIZE))
      [i..<(unat (entry_length e) + 4095) div 4096] s)"
  using assms(2)
proof (induction "(unat (entry_length e) + 4095) div 4096 - i" arbitrary: i s)
  let ?n = "(unat (entry_length e) + 4095) div 4096"
  have at: "unat (of_nat j * PAGE_SIZE) = j * 4096" if "j \<le> ?n" for j
  proof -
    have "j < 2 ^ 52" using that assms(1) by simp
    then show ?thesis using that assms(1) by (simp add: unat_mult_u64 unat_of_nat_u64)
  qed
  {
    case 0
    then have i: "i = ?n" by simp
    have "unat (entry_length e) \<le> ?n * 4096" by simp
    with at [of i] i have "\<not> of_nat i * PAGE_SIZE < entry_length e" by (simp add: word_less_nat_alt)
    then show ?case using i by (subst free_region.simps) simp
  next
    case (Suc n)
    then have i: "i < ?n" and n: "n = ?n - Suc i" and upt: "[i..<?n] = i # [Suc i..<?n]"
      by (auto simp: upt_rec)
    from i at [of i] have "of_nat i * PAGE_SIZE < entry_length e" by (simp add: word_less_nat_alt)
    moreover have "of_nat i * PAGE_SIZE + PAGE_SIZE = (of_nat (Suc i) * PAGE_SIZE :: u64)"
      by (simp add: algebra_simps)
    ultimately show ?case
      using Suc.hyps(1) [OF n, of "pmm_free_frame (entry_base e + of_nat i * PAGE_SIZE) s"] i
      by (subst free_region.simps) (simp only: upt fold.simps o_apply if_True)
  }
qed

lemma free_region_effect:
  fixes s :: "'a mm_state_scheme"
  assumes "memmap_ok memmap" and "e \<in> set memmap" and "is_usable e"
    and "pmm_wf s" and "total_frames s = init_total_frames memmap"
  shows "\<exists>t. free_region e 0 s = Some t \<and> pmm_wf t \<and> same_but_bitmap s t
    \<and> free_frames t = free_frames s \<union> entry_frames e"
proof -
  let ?n = "unat (entry_length e) div 4096"
  have ok: "unat (entry_length e) \<le> 4503599627370496" "unat (entry_length e) mod 4096 = 0"
    "IS_PAGE_ALIGNED (entry_base e)" "frame_of (entry_base e) + ?n \<le> unat (total_frames s)"
    using memmap_okD [OF assms(1,2)] init_total_frames_bounds(2) [OF assms(1,2)] assms(3,5)
    by (auto simp: page_aligned_iff)
  then obtain l where "unat (entry_length e) = 4096 * l" by (auto elim!: dvdE)
  then have "(unat (entry_length e) + 4095) div 4096 = ?n" by simp
  with free_region_fold [of e 0 s] ok(1)
  have "free_region e 0 s = Some (fold (\<lambda>j. pmm_free_frame (entry_base e + of_nat j * PAGE_SIZE)) [0..<?n] s)"
    by simp
  with pmm_free_frames_effect [OF assms(4) ok(3,4)] show ?thesis by (simp add: entry_frames_def)
qed

lemma free_usable_effect:
  fixes s :: "'a mm_state_scheme"
  assumes "memmap_ok memmap" and "set es \<subseteq> set memmap"
    and "pmm_wf s" and "total_frames s = init_total_frames memmap"
  shows "\<exists>t. free_usable es s = Some t \<and> pmm_wf t \<and> same_but_bitmap s t
    \<and> free_frames t = free_frames s \<union> usable_frames es"
  using assms(2-4)
proof (induction es arbitrary: s)
  case (Cons e es)
  show ?case
  proof (cases "is_usable e")
    case True
    with Cons.prems obtain u where u: "free_region e 0 s = Some u" "pmm_wf u" "same_but_bitmap s u"
      "free_frames u = free_frames s \<union> entry_frames e"
      using free_region_effect [OF assms(1), of e s] by auto
    with Cons obtain t where "free_usable es u = Some t" "pmm_wf t" "same_but_bitmap u t"
      "free_frames t = free_frames u \<union> usable_frames es"
      by (metis list.set_intros(2) same_but_bitmap_fields(4) subset_iff)
    with u True show ?thesis
      by (auto simp: is_usable_def usable_frames_def intro: same_but_bitmap_trans)
  next
    case False
    with Cons show ?thesis by (auto simp: is_usable_def usable_frames_def)
  qed
qed (auto simp: usable_frames_def)

section \<open>Reserving the bitmap\<close>

lemma mark_run_effect:
  assumes "pmm_wf s" and "IS_PAGE_ALIGNED p" and "frame_of p + n \<le> 2 ^ 52"
  defines "t \<equiv> fold (\<lambda>i. pmm_mark_allocated (p + of_nat i * PAGE_SIZE)) [0..<n] s"
  shows "pmm_wf t \<and> same_but_bitmap s t \<and> free_frames t = free_frames s - {frame_of p..<frame_of p + n}"
  using assms(3) unfolding t_def
proof (induction n)
  case (Suc n)
  let ?u = "fold (\<lambda>i. pmm_mark_allocated (p + of_nat i * PAGE_SIZE)) [0..<n] s"
  let ?p = "p + of_nat n * PAGE_SIZE"
  from Suc have IH: "pmm_wf ?u" "same_but_bitmap s ?u"
    "free_frames ?u = free_frames s - {frame_of p..<frame_of p + n}" by auto
  have "?p = frame_addr (frame_of p + n)"
    using frame_addr_frame_of [OF assms(2)] by (simp add: frame_addr_def algebra_simps)
  with Suc.prems have "IS_PAGE_ALIGNED ?p" "frame_of ?p = frame_of p + n" by simp_all
  moreover have "{frame_of p..<frame_of p + Suc n} = insert (frame_of p + n) {frame_of p..<frame_of p + n}"
    by auto
  ultimately show ?case
    using pmm_mark_allocated_effect [OF IH(1), of ?p] IH
    by (auto intro: same_but_bitmap_trans)
qed (use assms in simp)

lemma find_bitmap_region_found:
  assumes "find_bitmap_region sz es \<noteq> 0"
  shows "\<exists>e\<in>set es. is_usable e \<and> sz \<le> entry_length e \<and> entry_base e = find_bitmap_region sz es"
  using assms by (induction es) (auto simp: is_usable_def)

lemma find_bitmap_region_finds:
  assumes "memmap_ok es" and "e \<in> set es" and "is_usable e" and "sz \<le> entry_length e"
  shows "find_bitmap_region sz es \<noteq> 0"
  using assms by (induction es) (auto simp: is_usable_def memmap_ok_def)

text \<open>After the \<open>memset\<close> every frame is allocated.\<close>

lemma memset_bitmap:
  assumes "unat (bitmap_size s) = (unat (total_frames s) + 7) div 8" and "unat (total_frames s) \<le> 2 ^ 40"
  defines "t \<equiv> s\<lparr>mem := snd (memset (bitmap_start s) 0xFF (bitmap_size s) (mem s))\<rparr>"
  shows "pmm_wf t" and "free_frames t = {}" and "same_but_bitmap s t"
proof -
  have ff: "bit (0xFF :: u8) b" if "b < 8" for b
    using that byte_all_ones_iff [of "0xFF"] by blast
  have alloc: "frame_allocated t f" if "f < 8 * unat (bitmap_size s)" for f
  proof -
    have "f div 8 < unat (bitmap_size s)" using that by auto
    moreover from this have "unat (of_nat (f div 8) :: u64) = f div 8"
      by (intro unat_of_nat_u64 order_less_trans [OF _ unat_u64_less])
    ultimately show ?thesis
      using ff [of "f mod 8"] by (simp add: t_def frame_allocated_def bitmap_byte_def memset_eq)
  qed
  then show "pmm_wf t" using assms(1,2) by (auto simp: pmm_wf_def list_all_iff t_def)
  show "free_frames t = {}" using alloc assms(1) by (auto simp: free_frames_iff t_def)
  show "same_but_bitmap s t" by (simp add: same_but_bitmap_def t_def memset_eq)
qed

section \<open>The whole initialisation\<close>

definition bitmap_region_exists :: "limine_memmap_entry list \<Rightarrow> bool" where
  "bitmap_region_exists memmap \<longleftrightarrow>
     list_ex (\<lambda>e. is_usable e \<and> init_bitmap_size memmap \<le> entry_length e) memmap"

lemma pmm_init_no_region:
  assumes "\<not> bitmap_region_exists memmap"
  shows "\<exists>t. pmm_init memmap hhdm s0 = Some (kpanic ''pmm_init: No usable region found for bitmap'' [] t)"
proof -
  have "find_bitmap_region (init_bitmap_size memmap) memmap = 0"
    using assms find_bitmap_region_found [of "init_bitmap_size memmap" memmap]
    by (auto simp: bitmap_region_exists_def list_ex_iff)
  then show ?thesis
    by (auto simp: pmm_init_def Let_def init_bitmap_size_def init_total_frames_def)
qed

lemma pmm_init_effect:
  assumes ok: "memmap_ok memmap" and region: "bitmap_region_exists memmap"
  shows "\<exists>t. pmm_init memmap hhdm s0 = Some (Inr ((), t)) \<and> pmm_wf t
    \<and> g_hhdm_offset t = hhdm \<and> total_frames t = init_total_frames memmap
    \<and> bitmap_size t = init_bitmap_size memmap
    \<and> HHDM_VIRT_TO_PHYS t (bitmap_start t) = find_bitmap_region (init_bitmap_size memmap) memmap
    \<and> mm_state.more t = mm_state.more s0
    \<and> free_frames t = usable_frames memmap - bitmap_frames t
    \<and> (\<forall>a. unat (bitmap_size t) \<le> unat (a - bitmap_start t) \<longrightarrow> mem t a = mem s0 a)"
proof -
  define bp where "bp = find_bitmap_region (init_bitmap_size memmap) memmap"
  define s4 where "s4 = s0\<lparr>g_hhdm_offset := hhdm, total_frames := init_total_frames memmap,
    bitmap_size := init_bitmap_size memmap, bitmap_start := bp + hhdm\<rparr>"
  define s5 where "s5 = s4\<lparr>mem := snd (memset (bitmap_start s4) 0xFF (bitmap_size s4) (mem s4))\<rparr>"
  from region obtain e where "e \<in> set memmap" "is_usable e" "init_bitmap_size memmap \<le> entry_length e"
    by (auto simp: bitmap_region_exists_def list_ex_iff)
  then have bp0: "bp \<noteq> 0" unfolding bp_def by (intro find_bitmap_region_finds [OF ok])
  then obtain e where e: "e \<in> set memmap" "is_usable e" "entry_base e = bp"
    unfolding bp_def using find_bitmap_region_found by blast
  then have bp: "IS_PAGE_ALIGNED bp" "unat bp \<le> 4503599627370496"
    using memmap_okD [OF ok e(1)] by auto
  have s5: "pmm_wf s5" "free_frames s5 = {}" "same_but_bitmap s4 s5"
    using init_bitmap_size_eq [OF ok] init_total_frames_bounds(1) [OF ok]
      memset_bitmap [of s4] by (simp_all add: s4_def s5_def)
  obtain s6 where s6: "free_usable memmap s5 = Some s6" "pmm_wf s6" "same_but_bitmap s5 s6"
    "free_frames s6 = usable_frames memmap"
    using free_usable_effect [OF ok order_refl s5(1)] s5(2) by (auto simp: s4_def s5_def)
  define n where "n = (unat (bitmap_size s6) + 4095) div 4096"
  define s7 where "s7 = fold (\<lambda>i. pmm_mark_allocated (bp + of_nat i * PAGE_SIZE)) [0..<n] s6"
  have n: "unat (PAGE_COUNT (bitmap_size s6)) = n"
    using pmm_wf_size_bound [OF s6(2)] by (simp add: n_def unat_PAGE_COUNT)
  have "frame_of bp + n \<le> 2 ^ 52"
    using pmm_wf_size_bound [OF s6(2)] bp(2) by (simp add: n_def frame_of_eq)
  then have s7: "pmm_wf s7" "same_but_bitmap s6 s7"
    "free_frames s7 = usable_frames memmap - {frame_of bp..<frame_of bp + n}"
    using mark_run_effect [OF s6(2) bp(1), of n] s6(4) by (simp_all add: s7_def)
  have same: "same_but_bitmap s4 s7"
    using s5(3) s6(3) s7(2) by (blast intro: same_but_bitmap_trans)
  let ?t = "klog_info ''pmm_init: initialized sucessfully'' []
    (klog_debug ''bitmap_size=%lluKB frames=%llu'' [bitmap_size s7, total_frames s7] s7)"
  have "pmm_init memmap hhdm s0 = Some (Inr ((), ?t))"
    using bp0 s6(1)
    by (simp add: pmm_init_def Let_def bp_def s4_def s5_def s7_def n
        HHDM_PHYS_TO_VIRT_def flip: init_total_frames_def init_bitmap_size_def)
  moreover have "bitmap_frames ?t = {frame_of bp..<frame_of bp + n}"
    using same_but_bitmap_fields [OF same] same_but_bitmap_fields(3) [OF s7(2)]
    by (simp add: bitmap_frames_def HHDM_VIRT_TO_PHYS_def Let_def n_def s4_def)
  moreover have "\<forall>a. unat (bitmap_size ?t) \<le> unat (a - bitmap_start ?t) \<longrightarrow> mem ?t a = mem s0 a"
    using same by (simp add: same_but_bitmap_def s4_def)
  ultimately show ?thesis
    using s7 same_but_bitmap_fields [OF same]
    by (intro exI [of _ ?t]) (simp add: s4_def HHDM_VIRT_TO_PHYS_def flip: bp_def)
qed

end
