(* ===== verification/Paging.thy ===== *)
theory Paging
  imports Pmm_Init
begin

text \<open>
  Four-level paging: the operations of \<open>src/src/memory/paging.c\<close> over page tables that live in
  memory and are reached through the higher-half direct map, the flag and index macros of
  \<open>src/src/memory/paging.h\<close>, and the CPU instructions behind \<open>src/src/memory/paging.asm\<close>.
\<close>

section \<open>Flags and indices\<close>

definition PAGE_PRESENT :: u64 where "PAGE_PRESENT = push_bit 0 1"
definition PAGE_WRITABLE :: u64 where "PAGE_WRITABLE = push_bit 1 1"
definition PAGE_USER :: u64 where "PAGE_USER = push_bit 2 1"
definition PAGE_WRITE_THROUGH :: u64 where "PAGE_WRITE_THROUGH = push_bit 3 1"
definition PAGE_CACHE_DISABLE :: u64 where "PAGE_CACHE_DISABLE = push_bit 4 1"
definition PAGE_GLOBAL :: u64 where "PAGE_GLOBAL = push_bit 8 1"
definition PAGE_NO_EXECUTE :: u64 where "PAGE_NO_EXECUTE = push_bit 63 1"

definition PML4_INDEX :: "u64 \<Rightarrow> u64" where "PML4_INDEX vaddr = drop_bit 39 vaddr AND 0x1FF"
definition PDPT_INDEX :: "u64 \<Rightarrow> u64" where "PDPT_INDEX vaddr = drop_bit 30 vaddr AND 0x1FF"
definition PD_INDEX :: "u64 \<Rightarrow> u64" where "PD_INDEX vaddr = drop_bit 21 vaddr AND 0x1FF"
definition PT_INDEX :: "u64 \<Rightarrow> u64" where "PT_INDEX vaddr = drop_bit 12 vaddr AND 0x1FF"
definition PAGE_OFFSET :: "u64 \<Rightarrow> u64" where "PAGE_OFFSET vaddr = vaddr AND 0xFFF"

definition PHYS_ADDR_MASK :: u64 where "PHYS_ADDR_MASK = 0x000FFFFFFFFFF000"

definition PMM_INVALID_ADDRESS :: phys_addr_t where "PMM_INVALID_ADDRESS = - 1"

section \<open>State\<close>

text \<open>
  The static array \<open>kernel_pml4_entries\<close>, the control registers the assembly helpers write, and
  the translation cache: the leaf entry cached for a page, by page address.
\<close>

record vm_state = mm_state +
  kernel_pml4_entries :: "u64 list"
  cr3 :: u64
  efer :: u64
  tlb :: "u64 \<rightharpoonup> u64"

record kernel_segment_info =
  limine_start :: u64
  limine_end :: u64
  text_start :: u64
  text_end :: u64
  rodata_start :: u64
  rodata_end :: u64
  data_start :: u64
  data_end :: u64

text \<open>
  \<open>mov cr3\<close> drops the cached translations of all but global pages, \<open>invlpg\<close> the translation of
  one page; \<open>_paging_enable_nxe\<close> sets bit 11 of the EFER register.
\<close>

definition paging_switch_dir :: "phys_addr_t \<Rightarrow> 'a vm_state_scheme \<Rightarrow> 'a vm_state_scheme" where
  "paging_switch_dir pml4_phys s =
     s\<lparr>cr3 := pml4_phys,
       tlb := (\<lambda>v. case tlb s v of None \<Rightarrow> None
                   | Some e \<Rightarrow> if e AND PAGE_GLOBAL = 0 then None else Some e)\<rparr>"

definition paging_invalidate_page :: "u64 \<Rightarrow> 'a vm_state_scheme \<Rightarrow> 'a vm_state_scheme" where
  "paging_invalidate_page virt_addr s = s\<lparr>tlb := (tlb s)(PAGE_ALIGN_DOWN virt_addr := None)\<rparr>"

definition paging_flush_tlb :: "'a vm_state_scheme \<Rightarrow> 'a vm_state_scheme" where
  "paging_flush_tlb s = paging_switch_dir (cr3 s) s"

definition paging_enable_nxe :: "'a vm_state_scheme \<Rightarrow> 'a vm_state_scheme" where
  "paging_enable_nxe s = s\<lparr>efer := efer s OR push_bit 11 1\<rparr>"

definition paging_get_current_pml4 :: "'a vm_state_scheme \<Rightarrow> phys_addr_t" where
  "paging_get_current_pml4 s = cr3 s"

text \<open>
  \<open>entries[index]\<close> with \<open>entries = (uint64_t *)HHDM_PHYS_TO_VIRT(table)\<close>, as a value and as an
  assignment.
\<close>

definition entry_get :: "'a mm_state_scheme \<Rightarrow> phys_addr_t \<Rightarrow> u64 \<Rightarrow> u64" where
  "entry_get s table index = load64 (mem s) (HHDM_PHYS_TO_VIRT s table + 8 * index)"

definition entry_set :: "phys_addr_t \<Rightarrow> u64 \<Rightarrow> u64 \<Rightarrow> 'a mm_state_scheme \<Rightarrow> 'a mm_state_scheme" where
  "entry_set table index v s =
     s\<lparr>mem := store64 (HHDM_PHYS_TO_VIRT s table + 8 * index) v (mem s)\<rparr>"

definition zero_frame :: "phys_addr_t \<Rightarrow> 'a mm_state_scheme \<Rightarrow> 'a mm_state_scheme" where
  "zero_frame frame s =
     s\<lparr>mem := snd (memset (HHDM_PHYS_TO_VIRT s frame) 0 PAGE_SIZE (mem s))\<rparr>"

section \<open>Mapping\<close>

text \<open>
  The block \<open>paging_map\<close> repeats for the three upper levels: allocate and clear a table where the
  entry is not present, add the intermediate flags, and go to the table the entry points to.
\<close>

definition paging_next_table ::
    "phys_addr_t \<Rightarrow> u64 \<Rightarrow> u64 \<Rightarrow> 'a vm_state_scheme \<Rightarrow> (phys_addr_t, 'a vm_state_scheme) kres" where
  "paging_next_table table index intermediate_flags s0 =
     kbind (if entry_get s0 table index AND PAGE_PRESENT = 0
            then kbind (pmm_alloc_frame s0) (\<lambda>frame s1. Inr ((), entry_set table index frame (zero_frame frame s1)))
            else Inr ((), s0))
       (\<lambda>_ s. let s' = entry_set table index (entry_get s table index OR intermediate_flags) s
              in Inr (entry_get s' table index AND PHYS_ADDR_MASK, s'))"

definition paging_map ::
    "phys_addr_t \<Rightarrow> u64 \<Rightarrow> phys_addr_t \<Rightarrow> u64 \<Rightarrow> 'a vm_state_scheme \<Rightarrow> (unit, 'a vm_state_scheme) kres" where
  "paging_map pml4_phys virt_addr phys_addr flags s =
     (if \<not> IS_PAGE_ALIGNED pml4_phys then
        Inr ((), klog_error ''paging_map: pml4 address is not page alligned 0x%p'' [pml4_phys] s)
      else if \<not> IS_PAGE_ALIGNED virt_addr then
        Inr ((), klog_error ''paging_map: virtual address is not page alligned 0x%p'' [virt_addr] s)
      else if \<not> IS_PAGE_ALIGNED phys_addr then
        Inr ((), klog_error ''paging_map: physical address is not page alligned 0x%p'' [phys_addr] s)
      else
        let pml4_index = PML4_INDEX virt_addr;
            pdpt_index = PDPT_INDEX virt_addr;
            pd_index = PD_INDEX virt_addr;
            pt_index = PT_INDEX virt_addr;
            intermediate_flags = PAGE_PRESENT OR PAGE_WRITABLE OR
              (if flags AND PAGE_USER \<noteq> 0 then PAGE_USER else 0)
        in kbind (paging_next_table pml4_phys pml4_index intermediate_flags s) (\<lambda>pdpt_phys s.
           kbind (paging_next_table pdpt_phys pdpt_index intermediate_flags s) (\<lambda>pd_phys s.
           kbind (paging_next_table pd_phys pd_index intermediate_flags s) (\<lambda>pt_phys s.
             let old = entry_get s pt_phys pt_index;
                 s = (if old AND PAGE_PRESENT \<noteq> 0
                      then klog_warn ''paging_map: remapping already mapped address 0x%p from 0x%p to 0x%p''
                             [virt_addr, old AND PHYS_ADDR_MASK, phys_addr] s
                      else s);
                 s = entry_set pt_phys pt_index (phys_addr OR flags) s
             in Inr ((), paging_invalidate_page virt_addr s)))))"

definition paging_map_range ::
    "phys_addr_t \<Rightarrow> u64 \<Rightarrow> phys_addr_t \<Rightarrow> u64 \<Rightarrow> u64 \<Rightarrow> 'a vm_state_scheme \<Rightarrow> (unit, 'a vm_state_scheme) kres" where
  "paging_map_range pml4_phys virt_addr phys_addr sz flags s =
     (if \<not> IS_PAGE_ALIGNED pml4_phys then
        Inr ((), klog_error ''paging_map_range: pml4 address is not page alligned 0x%p'' [pml4_phys] s)
      else if \<not> IS_PAGE_ALIGNED virt_addr then
        Inr ((), klog_error ''paging_map_range: virtual address is not page alligned 0x%p'' [virt_addr] s)
      else if \<not> IS_PAGE_ALIGNED phys_addr then
        Inr ((), klog_error ''paging_map_range: physical address is not page alligned 0x%p'' [phys_addr] s)
      else
        kfor [0..<unat (PAGE_COUNT sz)]
          (\<lambda>i. paging_map pml4_phys (virt_addr + of_nat i * PAGE_SIZE) (phys_addr + of_nat i * PAGE_SIZE) flags) s)"

section \<open>Walking\<close>

text \<open>
  The walk \<open>paging_unmap\<close>, \<open>paging_is_mapped\<close> and \<open>paging_get_physical\<close> have in common: the
  address of the page table that holds the leaf entry, \<open>None\<close> where an upper entry is missing.
\<close>

definition paging_step :: "'a mm_state_scheme \<Rightarrow> phys_addr_t \<Rightarrow> u64 \<Rightarrow> phys_addr_t option" where
  "paging_step s table index =
     (if entry_get s table index AND PAGE_PRESENT = 0 then None
      else Some (entry_get s table index AND PHYS_ADDR_MASK))"

definition paging_walk :: "'a mm_state_scheme \<Rightarrow> phys_addr_t \<Rightarrow> u64 \<Rightarrow> phys_addr_t option" where
  "paging_walk s pml4_phys virt_addr =
     (case paging_step s pml4_phys (PML4_INDEX virt_addr) of
        None \<Rightarrow> None
      | Some pdpt_phys \<Rightarrow>
          (case paging_step s pdpt_phys (PDPT_INDEX virt_addr) of
             None \<Rightarrow> None
           | Some pd_phys \<Rightarrow> paging_step s pd_phys (PD_INDEX virt_addr)))"

definition paging_unmap :: "phys_addr_t \<Rightarrow> u64 \<Rightarrow> 'a vm_state_scheme \<Rightarrow> 'a vm_state_scheme" where
  "paging_unmap pml4_phys virt_addr s =
     (if \<not> IS_PAGE_ALIGNED pml4_phys then
        klog_error ''paging_unmap: pml4 address is not page alligned 0x%p'' [pml4_phys] s
      else if \<not> IS_PAGE_ALIGNED virt_addr then
        klog_error ''paging_unmap: virtual address is not page alligned 0x%p'' [virt_addr] s
      else
        (case paging_walk s pml4_phys virt_addr of
           None \<Rightarrow> klog_warn ''paging_unmap: address 0x%p is not mapped'' [virt_addr] s
         | Some pt_phys \<Rightarrow>
             if entry_get s pt_phys (PT_INDEX virt_addr) AND PAGE_PRESENT = 0
             then klog_warn ''paging_unmap: address 0x%p is not mapped'' [virt_addr] s
             else paging_invalidate_page virt_addr (entry_set pt_phys (PT_INDEX virt_addr) 0 s)))"

definition paging_unmap_range :: "phys_addr_t \<Rightarrow> u64 \<Rightarrow> u64 \<Rightarrow> 'a vm_state_scheme \<Rightarrow> 'a vm_state_scheme" where
  "paging_unmap_range pml4_phys virt_addr sz s =
     (if \<not> IS_PAGE_ALIGNED pml4_phys then
        klog_error ''paging_unmap_range: pml4 address is not page alligned 0x%p'' [pml4_phys] s
      else if \<not> IS_PAGE_ALIGNED virt_addr then
        klog_error ''paging_unmap_range: virtual address is not page alligned 0x%p'' [virt_addr] s
      else fold (\<lambda>i. paging_unmap pml4_phys (virt_addr + of_nat i * PAGE_SIZE)) [0..<unat (PAGE_COUNT sz)] s)"

definition paging_is_mapped :: "phys_addr_t \<Rightarrow> u64 \<Rightarrow> 'a vm_state_scheme \<Rightarrow> bool \<times> 'a vm_state_scheme" where
  "paging_is_mapped pml4_phys virt_addr s =
     (if \<not> IS_PAGE_ALIGNED pml4_phys then
        (False, klog_error ''paging_is_mapped: pml4 address is not page alligned 0x%p'' [pml4_phys] s)
      else
        (case paging_walk s pml4_phys virt_addr of
           None \<Rightarrow> (False, s)
         | Some pt_phys \<Rightarrow> (entry_get s pt_phys (PT_INDEX virt_addr) AND PAGE_PRESENT \<noteq> 0, s)))"

definition paging_get_physical :: "phys_addr_t \<Rightarrow> u64 \<Rightarrow> 'a vm_state_scheme \<Rightarrow> phys_addr_t \<times> 'a vm_state_scheme" where
  "paging_get_physical pml4_phys virt_addr s =
     (if \<not> IS_PAGE_ALIGNED pml4_phys then
        (PMM_INVALID_ADDRESS,
         klog_error ''paging_is_mapped: pml4 address is not page alligned 0x%p'' [pml4_phys] s)
      else
        (case paging_walk s pml4_phys virt_addr of
           None \<Rightarrow> (PMM_INVALID_ADDRESS, s)
         | Some pt_phys \<Rightarrow>
             (let e = entry_get s pt_phys (PT_INDEX virt_addr) in
              if e AND PAGE_PRESENT = 0 then (PMM_INVALID_ADDRESS, s)
              else ((e AND PHYS_ADDR_MASK) OR PAGE_OFFSET virt_addr, s))))"

section \<open>Address spaces\<close>

definition paging_switch_pml4 :: "phys_addr_t \<Rightarrow> 'a vm_state_scheme \<Rightarrow> 'a vm_state_scheme" where
  "paging_switch_pml4 pml4_phys s =
     (if \<not> IS_PAGE_ALIGNED pml4_phys then
        klog_error ''paging_switch_pml4: pml4 address is not page alligned 0x%p'' [pml4_phys] s
      else paging_switch_dir pml4_phys s)"

definition paging_create_pml4 :: "'a vm_state_scheme \<Rightarrow> (phys_addr_t, 'a vm_state_scheme) kres" where
  "paging_create_pml4 s0 =
     kbind (pmm_alloc_frame s0) (\<lambda>pml4_phys s1.
       let s2 = fold (\<lambda>i. entry_set pml4_phys (of_nat i) 0) [0..<256] s1;
           s3 = fold (\<lambda>i s. entry_set pml4_phys (of_nat (i + 256)) (kernel_pml4_entries s ! i) s) [0..<256] s2
       in Inr (pml4_phys, s3))"

definition destroy_pd :: "phys_addr_t \<Rightarrow> 'a mm_state_scheme \<Rightarrow> 'a mm_state_scheme" where
  "destroy_pd pd_phys =
     fold (\<lambda>pd_index s.
       if entry_get s pd_phys (of_nat pd_index) AND PAGE_PRESENT = 0 then s
       else pmm_free_frame (entry_get s pd_phys (of_nat pd_index) AND PHYS_ADDR_MASK) s) [0..<512]"

definition destroy_pdpt :: "phys_addr_t \<Rightarrow> 'a mm_state_scheme \<Rightarrow> 'a mm_state_scheme" where
  "destroy_pdpt pdpt_phys =
     fold (\<lambda>pdpt_index s.
       if entry_get s pdpt_phys (of_nat pdpt_index) AND PAGE_PRESENT = 0 then s
       else let pd_phys = entry_get s pdpt_phys (of_nat pdpt_index) AND PHYS_ADDR_MASK
            in pmm_free_frame pd_phys (destroy_pd pd_phys s)) [0..<512]"

definition paging_destroy_pml4 :: "phys_addr_t \<Rightarrow> 'a mm_state_scheme \<Rightarrow> 'a mm_state_scheme" where
  "paging_destroy_pml4 pml4_phys s0 =
     (if \<not> IS_PAGE_ALIGNED pml4_phys then
        klog_error ''paging_switch_pml4: pml4 address is not page alligned 0x%p'' [pml4_phys] s0
      else
        pmm_free_frame pml4_phys
          (fold (\<lambda>pml4_index s.
             if entry_get s pml4_phys (of_nat pml4_index) AND PAGE_PRESENT = 0 then s
             else let pdpt_phys = entry_get s pml4_phys (of_nat pml4_index) AND PHYS_ADDR_MASK
                  in pmm_free_frame pdpt_phys (destroy_pdpt pdpt_phys s)) [0..<256] s0))"

section \<open>Initialisation\<close>

text \<open>The first loop of \<open>paging_init\<close>: a cleared table for every entry of the kernel half.\<close>

definition init_kernel_pdpts :: "phys_addr_t \<Rightarrow> 'a vm_state_scheme \<Rightarrow> (unit, 'a vm_state_scheme) kres" where
  "init_kernel_pdpts pml4_phys =
     kfor [256..<512] (\<lambda>i s. kbind (pmm_alloc_frame s) (\<lambda>pdpt_phys s.
       let s = zero_frame pdpt_phys s
       in Inr ((), entry_set pml4_phys (of_nat i) (pdpt_phys OR PAGE_PRESENT OR PAGE_WRITABLE) s)))"

definition paging_init ::
    "phys_addr_t \<Rightarrow> u64 \<Rightarrow> kernel_segment_info \<Rightarrow> 'a vm_state_scheme \<Rightarrow> (phys_addr_t, 'a vm_state_scheme) kres" where
  "paging_init kernel_physical_base kernel_virtual_base seg s0 =
     kbind (pmm_alloc_frame s0) (\<lambda>pml4_phys s.
     kbind (init_kernel_pdpts pml4_phys (zero_frame pml4_phys s)) (\<lambda>_ s.
     let memsize = pmm_get_total_size s in
     kbind (paging_map_range pml4_phys (g_hhdm_offset s) 0 memsize
              (PAGE_WRITABLE OR PAGE_GLOBAL OR PAGE_NO_EXECUTE OR PAGE_PRESENT) s) (\<lambda>_ s.
     let limine_size = limine_end seg - limine_start seg;
         limine_phys_addr = (limine_start seg - kernel_virtual_base) + kernel_physical_base in
     kbind (paging_map_range pml4_phys (limine_start seg) limine_phys_addr limine_size
              (PAGE_GLOBAL OR PAGE_NO_EXECUTE OR PAGE_PRESENT) s) (\<lambda>_ s.
     let text_size = text_end seg - text_start seg;
         text_phys_addr = (text_start seg - kernel_virtual_base) + kernel_physical_base in
     kbind (paging_map_range pml4_phys (text_start seg) text_phys_addr text_size
              (PAGE_GLOBAL OR PAGE_PRESENT) s) (\<lambda>_ s.
     let rodata_size = rodata_end seg - rodata_start seg;
         rodata_phys_addr = (rodata_start seg - kernel_virtual_base) + kernel_physical_base in
     kbind (paging_map_range pml4_phys (rodata_start seg) rodata_phys_addr rodata_size
              (PAGE_GLOBAL OR PAGE_NO_EXECUTE OR PAGE_PRESENT) s) (\<lambda>_ s.
     let data_size = data_end seg - data_start seg;
         data_phys_addr = (data_start seg - kernel_virtual_base) + kernel_physical_base in
     kbind (paging_map_range pml4_phys (data_start seg) data_phys_addr data_size
              (PAGE_GLOBAL OR PAGE_NO_EXECUTE OR PAGE_WRITABLE OR PAGE_PRESENT) s) (\<lambda>_ s.
     let s = s\<lparr>kernel_pml4_entries := map (\<lambda>i. entry_get s pml4_phys (of_nat (i + 256))) [0..<256]\<rparr>;
         s = paging_switch_dir pml4_phys (paging_enable_nxe s);
         s = klog_debug ''paging_init: paging initialised without crashing, pml4_phys=0x%p'' [pml4_phys] s
     in Inr (pml4_phys, s))))))))"

end
