(* ===== verification/Page_Tables.thy ===== *)
theory Page_Tables
  imports Paging
begin

text \<open>
  The structure of a set of page table trees, apart from where its tables are stored: walks from
  a root along table indices, the tables a set of address spaces uses, and the property that no
  table is reached on two different paths (except for kernel-half tables, which all address
  spaces share). Three changes are analysed: new flags on an upper entry, a fresh table under an
  absent entry, and a new leaf entry. They are the three kinds of step \<open>paging_map\<close> is made of.
\<close>

section \<open>Walks\<close>

text \<open>The contents of the tables: table address and index to entry.\<close>

type_synonym ptab = "phys_addr_t \<Rightarrow> nat \<Rightarrow> u64"

definition pte_present :: "u64 \<Rightarrow> bool" where
  "pte_present e \<longleftrightarrow> e AND PAGE_PRESENT \<noteq> 0"

definition pte_addr :: "u64 \<Rightarrow> phys_addr_t" where
  "pte_addr e = e AND PHYS_ADDR_MASK"

fun node :: "ptab \<Rightarrow> phys_addr_t \<Rightarrow> nat list \<Rightarrow> phys_addr_t option" where
  "node P t [] = Some t"
| "node P t (i # is) = (if pte_present (P t i) then node P (pte_addr (P t i)) is else None)"

text \<open>The present entry \<open>j\<close> of the table at the end of a path.\<close>

definition leaf :: "ptab \<Rightarrow> phys_addr_t \<Rightarrow> nat list \<Rightarrow> nat \<Rightarrow> u64 option" where
  "leaf P r q j =
     (case node P r q of None \<Rightarrow> None | Some t \<Rightarrow> if pte_present (P t j) then Some (P t j) else None)"

definition path_ok :: "nat list \<Rightarrow> bool" where
  "path_ok p \<longleftrightarrow> list_all (\<lambda>i. i < 512) p"

definition is_node :: "ptab \<Rightarrow> phys_addr_t set \<Rightarrow> phys_addr_t \<Rightarrow> nat list \<Rightarrow> phys_addr_t \<Rightarrow> bool" where
  "is_node P R r p t \<longleftrightarrow> r \<in> R \<and> path_ok p \<and> length p \<le> 3 \<and> node P r p = Some t"

definition used_tables :: "ptab \<Rightarrow> phys_addr_t set \<Rightarrow> phys_addr_t set" where
  "used_tables P R = {t. \<exists>r p. is_node P R r p t}"

definition forest :: "ptab \<Rightarrow> phys_addr_t set \<Rightarrow> bool" where
  "forest P R \<longleftrightarrow> (\<forall>r p r' p' t. is_node P R r p t \<and> is_node P R r' p' t \<longrightarrow>
     p' = p \<and> (r' = r \<or> p \<noteq> [] \<and> 256 \<le> hd p))"

text \<open>All address spaces have the same kernel half.\<close>

definition kernel_half_shared :: "ptab \<Rightarrow> phys_addr_t set \<Rightarrow> bool" where
  "kernel_half_shared P R \<longleftrightarrow> (\<forall>r\<in>R. \<forall>r'\<in>R. \<forall>i\<in>{256..<512}.
     pte_present (P r i) \<and> pte_addr (P r' i) = pte_addr (P r i))"

lemma node_append:
  "node P t (p @ q) = (case node P t p of None \<Rightarrow> None | Some u \<Rightarrow> node P u q)"
  by (induction p arbitrary: t) auto

lemma node_snoc:
  "node P t (p @ [j]) =
     (case node P t p of None \<Rightarrow> None
      | Some u \<Rightarrow> if pte_present (P u j) then Some (pte_addr (P u j)) else None)"
  by (simp add: node_append split: option.split)

lemma path_ok_simps [simp]:
  "path_ok []" "path_ok (i # p) \<longleftrightarrow> i < 512 \<and> path_ok p" "path_ok (p @ q) \<longleftrightarrow> path_ok p \<and> path_ok q"
  by (auto simp: path_ok_def)

lemma forestD:
  assumes "forest P R" and "is_node P R r p t" and "is_node P R r' p' t"
  shows "p' = p" and "r' = r \<or> p \<noteq> [] \<and> 256 \<le> hd p"
  using assms unfolding forest_def by blast+

lemma is_node_butlast:
  "is_node P R r (p @ [i]) t \<Longrightarrow> \<exists>u. is_node P R r p u \<and> i < 512 \<and> pte_present (P u i) \<and> t = pte_addr (P u i)"
  by (auto simp: is_node_def node_snoc split: option.splits if_splits)

lemma used_tablesI: "is_node P R r p t \<Longrightarrow> t \<in> used_tables P R"
  by (auto simp: used_tables_def)

lemma roots_used: "r \<in> R \<Longrightarrow> r \<in> used_tables P R"
  by (rule used_tablesI [of _ _ _ "[]"]) (simp add: is_node_def)

lemma leaf_snoc_present: "leaf P r q j = Some e \<Longrightarrow> node P r (q @ [j]) = Some (pte_addr e)"
  by (auto simp: leaf_def node_snoc split: option.splits if_splits)

text \<open>Walks depend on the entries of the tables they pass only.\<close>

lemma node_cong:
  assumes "r \<in> R" and "path_ok q" and "length q \<le> 3"
    and "\<And>p u j. is_node P R r p u \<Longrightarrow> length p \<le> 2 \<Longrightarrow> j < 512 \<Longrightarrow>
      pte_present (P' u j) = pte_present (P u j)
      \<and> (pte_present (P u j) \<longrightarrow> pte_addr (P' u j) = pte_addr (P u j))"
  shows "node P' r q = node P r q"
  using assms(2,3)
proof (induction q rule: rev_induct)
  case (snoc j q)
  then have IH: "node P' r q = node P r q" by simp
  show ?case
  proof (cases "node P r q")
    case (Some u)
    with snoc.prems assms(1) have "is_node P R r q u" "length q \<le> 2" "j < 512" by (auto simp: is_node_def)
    from assms(4) [OF this] IH Some show ?thesis by (simp add: node_snoc)
  qed (simp add: node_snoc IH)
qed simp

section \<open>Three kinds of change\<close>

text \<open>All used tables but for entry \<open>i\<close> of table \<open>t\<close> keep their entries.\<close>

definition only_entry :: "ptab \<Rightarrow> ptab \<Rightarrow> phys_addr_t set \<Rightarrow> phys_addr_t \<Rightarrow> nat \<Rightarrow> bool" where
  "only_entry P P' R t i \<longleftrightarrow>
     (\<forall>u\<in>used_tables P R. \<forall>j<512. \<not> (u = t \<and> j = i) \<longrightarrow> P' u j = P u j)"

lemma only_entryD:
  "only_entry P P' R t i \<Longrightarrow> u \<in> used_tables P R \<Longrightarrow> j < 512 \<Longrightarrow> \<not> (u = t \<and> j = i) \<Longrightarrow> P' u j = P u j"
  by (simp add: only_entry_def)

lemma other_depth:
  assumes "forest P R" and "is_node P R r p t" and "is_node P R r' q u" and "length q \<noteq> length p"
  shows "u \<noteq> t"
  using forestD(1) [OF assms(1,2)] assms(3,4) by blast

lemma same_nodes:
  assumes "\<And>r q. r \<in> R \<Longrightarrow> path_ok q \<Longrightarrow> length q \<le> 3 \<Longrightarrow> node P' r q = node P r q"
  shows "is_node P' R = is_node P R" and "used_tables P' R = used_tables P R" and "forest P' R = forest P R"
proof -
  show "is_node P' R = is_node P R" by (auto simp: fun_eq_iff is_node_def assms)
  then show "used_tables P' R = used_tables P R" and "forest P' R = forest P R"
    by (simp_all add: used_tables_def forest_def)
qed

subsection \<open>New flags on an upper entry: walks and leaves stay\<close>

lemma flag_change_walk:
  assumes "only_entry P P' R t i" and "pte_present (P' t i) = pte_present (P t i)"
    and "pte_addr (P' t i) = pte_addr (P t i)" and "r' \<in> R" and "path_ok q" and "length q \<le> 3"
  shows "node P' r' q = node P r' q"
  using assms(4-6)
proof (rule node_cong [where R = R])
  fix p' u and j :: nat assume "is_node P R r' p' u" "length p' \<le> 2" "j < 512"
  then show "pte_present (P' u j) = pte_present (P u j)
      \<and> (pte_present (P u j) \<longrightarrow> pte_addr (P' u j) = pte_addr (P u j))"
    using assms(2,3) only_entryD [OF assms(1), of u j]
    by (cases "u = t \<and> j = i") (auto simp: used_tablesI)
qed

lemma flag_change_leaf:
  assumes "forest P R" and "is_node P R r p t" and "length p \<le> 2" and "only_entry P P' R t i"
    and "pte_present (P' t i) = pte_present (P t i)" and "pte_addr (P' t i) = pte_addr (P t i)"
    and "r' \<in> R" and "path_ok q" and "length q = 3" and "j < 512"
  shows "leaf P' r' q j = leaf P r' q j"
proof -
  note walk = flag_change_walk [OF assms(4-8)]
  show ?thesis
  proof (cases "node P r' q")
    case (Some u)
    with assms have u: "is_node P R r' q u" by (simp add: is_node_def)
    then have "u \<noteq> t" by (rule other_depth [OF assms(1,2)]) (use assms in simp)
    with u assms(9,10) Some walk show ?thesis
      using only_entryD [OF assms(4) used_tablesI [OF u], of j] by (simp add: leaf_def)
  qed (use walk assms in \<open>simp add: leaf_def\<close>)
qed

subsection \<open>A fresh, empty table under an absent entry: one new node, the leaves stay\<close>

definition fresh_table :: "ptab \<Rightarrow> ptab \<Rightarrow> phys_addr_t set \<Rightarrow> phys_addr_t \<Rightarrow> nat \<Rightarrow> phys_addr_t \<Rightarrow> bool" where
  "fresh_table P P' R t i n \<longleftrightarrow> only_entry P P' R t i \<and> i < 512 \<and> \<not> pte_present (P t i)
     \<and> n \<notin> used_tables P R \<and> pte_present (P' t i) \<and> pte_addr (P' t i) = n
     \<and> (\<forall>j<512. \<not> pte_present (P' n j))"

lemma absent_walk:
  assumes "fresh_table P P' R t i n" and "q \<noteq> [] \<and> node P r' (butlast q) = Some t \<and> last q = i"
  shows "node P r' q = None"
proof -
  from assms(2) have q: "q = butlast q @ [i]" by (metis append_butlast_last_id)
  have "node P r' (butlast q @ [i]) = None" using assms by (simp add: node_snoc fresh_table_def)
  then show ?thesis by (subst q)
qed

lemma fresh_table_walk:
  assumes ft: "fresh_table P P' R t i n" and "r' \<in> R" and "path_ok q" and "length q \<le> 3"
  shows "node P' r' q =
    (if q \<noteq> [] \<and> node P r' (butlast q) = Some t \<and> last q = i then Some n else node P r' q)"
  using assms(3,4)
proof (induction q rule: rev_induct)
  case (snoc j q)
  then have IH: "node P' r' q =
    (if q \<noteq> [] \<and> node P r' (butlast q) = Some t \<and> last q = i then Some n else node P r' q)"
    and j: "j < 512" by auto
  show ?case
  proof (cases "q \<noteq> [] \<and> node P r' (butlast q) = Some t \<and> last q = i")
    case True
    then have "node P r' q = None" by (rule absent_walk [OF ft])
    moreover from True IH have "node P' r' q = Some n" by simp
    ultimately show ?thesis using ft j by (simp add: node_snoc fresh_table_def)
  next
    case False
    with IH have IH': "node P' r' q = node P r' q" by auto
    show ?thesis
    proof (cases "node P r' q")
      case (Some u)
      with snoc.prems assms(2) have u: "u \<in> used_tables P R"
        by (intro used_tablesI) (auto simp: is_node_def)
      have "only_entry P P' R t i" using ft by (simp add: fresh_table_def)
      from only_entryD [OF this u j] have "\<not> (u = t \<and> j = i) \<Longrightarrow> P' u j = P u j" .
      with ft show ?thesis
        using Some IH' by (cases "u = t \<and> j = i") (auto simp: node_snoc fresh_table_def)
    qed (use IH' in \<open>simp add: node_snoc\<close>)
  qed
qed simp

lemma fresh_table_is_node:
  assumes ft: "fresh_table P P' R t i n"
  shows "is_node P' R r' q u \<longleftrightarrow>
    is_node P R r' q u \<or> u = n \<and> (\<exists>q'. q = q' @ [i] \<and> is_node P R r' q' t \<and> length q' \<le> 2)"
proof (cases "q = []")
  case False
  then obtain q' j where q: "q = q' @ [j]" using rev_exhaust by blast
  have "node P r' q' = Some t \<Longrightarrow> j = i \<Longrightarrow> node P r' (q' @ [j]) = None" "i < 512"
    using ft by (auto simp: node_snoc fresh_table_def)
  with q show ?thesis
    by (auto simp: is_node_def fresh_table_walk [OF ft] split: if_splits)
qed (auto simp: is_node_def)

lemma fresh_table_used:
  assumes "fresh_table P P' R t i n" and "is_node P R r p t" and "length p \<le> 2"
  shows "used_tables P' R = insert n (used_tables P R)"
  using assms(2,3) by (auto simp: used_tables_def fresh_table_is_node [OF assms(1)])

lemma fresh_table_forest:
  assumes "fresh_table P P' R t i n" and "forest P R"
  shows "forest P' R"
  unfolding forest_def
proof (intro allI impI, elim conjE)
  fix r1 p1 r2 p2 u assume 1: "is_node P' R r1 p1 u" and 2: "is_node P' R r2 p2 u"
  show "p2 = p1 \<and> (r2 = r1 \<or> p1 \<noteq> [] \<and> 256 \<le> hd p1)"
  proof (cases "u = n")
    case True
    from assms(1) have "n \<notin> used_tables P R" by (simp add: fresh_table_def)
    with True 1 2 obtain q1 q2 where q: "p1 = q1 @ [i]" "is_node P R r1 q1 t" "p2 = q2 @ [i]" "is_node P R r2 q2 t"
      by (auto simp: fresh_table_is_node [OF assms(1)] dest: used_tablesI)
    from forestD [OF assms(2) q(2,4)] q(1,3) show ?thesis by auto
  next
    case False
    with 1 2 have "is_node P R r1 p1 u" "is_node P R r2 p2 u"
      by (auto simp: fresh_table_is_node [OF assms(1)])
    from forestD [OF assms(2) this] show ?thesis by blast
  qed
qed

lemma fresh_table_leaf:
  assumes ft: "fresh_table P P' R t i n" and "forest P R" and "is_node P R r p t" and "length p \<le> 2"
    and "r' \<in> R" and "path_ok q" and "length q = 3" and "j < 512"
  shows "leaf P' r' q j = leaf P r' q j"
proof (cases "q \<noteq> [] \<and> node P r' (butlast q) = Some t \<and> last q = i")
  case True
  then have "node P r' q = None" by (rule absent_walk [OF ft])
  moreover have "node P' r' q = Some n" using True assms by (simp add: fresh_table_walk [OF ft])
  ultimately show ?thesis using ft assms by (simp add: leaf_def fresh_table_def)
next
  case False
  then have eq: "node P' r' q = node P r' q" using assms by (auto simp: fresh_table_walk [OF ft])
  show ?thesis
  proof (cases "node P r' q")
    case (Some u)
    with assms have u: "is_node P R r' q u" by (simp add: is_node_def)
    then have "u \<noteq> t" by (rule other_depth [OF assms(2,3)]) (use assms in simp)
    moreover from ft have "only_entry P P' R t i" by (simp add: fresh_table_def)
    ultimately have "P' u j = P u j" using only_entryD used_tablesI [OF u] assms(8) by blast
    with Some eq show ?thesis by (simp add: leaf_def)
  qed (simp add: leaf_def eq)
qed

subsection \<open>A new leaf entry: walks stay and one leaf changes\<close>

lemma leaf_change_walk:
  assumes "forest P R" and "is_node P R r p t" and "length p = 3" and "only_entry P P' R t i"
    and "r' \<in> R" and "path_ok q" and "length q \<le> 3"
  shows "node P' r' q = node P r' q"
  using assms(5-7)
proof (rule node_cong [where R = R])
  fix p' u and j :: nat assume u: "is_node P R r' p' u" "length p' \<le> 2" "j < 512"
  from u(1) have "u \<noteq> t" by (rule other_depth [OF assms(1,2)]) (use u assms(3) in simp)
  then have "P' u j = P u j" using only_entryD [OF assms(4) used_tablesI [OF u(1)] u(3)] by simp
  then show "pte_present (P' u j) = pte_present (P u j)
      \<and> (pte_present (P u j) \<longrightarrow> pte_addr (P' u j) = pte_addr (P u j))" by simp
qed

lemma leaf_change_leaf:
  assumes "forest P R" and "is_node P R r p t" and "length p = 3" and "only_entry P P' R t i"
    and "r' \<in> R" and "path_ok q" and "length q = 3" and "j < 512"
  shows "leaf P' r' q j =
    (if node P r' q = Some t \<and> j = i then (if pte_present (P' t i) then Some (P' t i) else None)
     else leaf P r' q j)"
proof -
  have walk: "node P' r' q = node P r' q" by (rule leaf_change_walk [OF assms(1-6)]) (use assms in simp)
  show ?thesis
  proof (cases "node P r' q")
    case (Some u)
    with assms have "is_node P R r' q u" by (simp add: is_node_def)
    then have "\<not> (u = t \<and> j = i) \<Longrightarrow> P' u j = P u j"
      using only_entryD [OF assms(4) used_tablesI assms(8)] by blast
    with Some walk show ?thesis by (auto simp: leaf_def)
  qed (simp add: leaf_def walk)
qed

section \<open>The shared kernel half\<close>

lemma shared_walk:
  assumes "kernel_half_shared P R" and "r \<in> R" and "r' \<in> R" and "q \<noteq> []" and "path_ok q" and "256 \<le> hd q"
  shows "node P r' q = node P r q"
proof -
  from assms(4) obtain i "is" where q: "q = i # is" by (cases q) auto
  with assms have "i \<in> {256..<512}" by simp
  then have "pte_present (P r i)" "pte_present (P r' i)" "pte_addr (P r' i) = pte_addr (P r i)"
    using assms(1-3) unfolding kernel_half_shared_def by blast+
  with q show ?thesis by simp
qed

text \<open>Which address spaces see a change of the table at the end of path \<open>p\<close> of \<open>r\<close>.\<close>

lemma same_table_iff:
  assumes "forest P R" and "is_node P R r p t" and "p \<noteq> []" and "kernel_half_shared P R \<or> R = {r}"
    and "r' \<in> R" and "path_ok q" and "length q \<le> 3"
  shows "node P r' q = Some t \<longleftrightarrow> q = p \<and> (r' = r \<or> 256 \<le> hd p)"
proof
  assume "node P r' q = Some t"
  with assms have "is_node P R r' q t" by (simp add: is_node_def)
  from forestD [OF assms(1,2) this] show "q = p \<and> (r' = r \<or> 256 \<le> hd p)" by blast
next
  assume "q = p \<and> (r' = r \<or> 256 \<le> hd p)"
  moreover from assms(2) have "node P r p = Some t" "r \<in> R" "path_ok p" by (auto simp: is_node_def)
  ultimately show "node P r' q = Some t"
    using assms(3-5) shared_walk [of P R r r' p] by auto
qed

end
