(* ===== verification/Paging_Mem.thy ===== *)
theory Paging_Mem
  imports Page_Tables
begin

text \<open>
  Page tables in memory: reading and writing table entries through the direct map, the
  separation of the table pages from each other and from the allocation bitmap, and the
  invariant that ties the page table trees to the physical memory manager.
\<close>

section \<open>Table entries in memory\<close>

definition ptes :: "'a mm_state_scheme \<Rightarrow> ptab" where
  "ptes s t i = entry_get s t (of_nat i)"

lemma aligned_bound: "IS_PAGE_ALIGNED t \<Longrightarrow> unat t \<le> 18446744073709547520"
proof -
  assume "IS_PAGE_ALIGNED t"
  then obtain k where "unat t = 4096 * k" by (auto simp: page_aligned_iff elim!: dvdE)
  with unat_u64_less [of t] show ?thesis by simp
qed

lemma page_offset_unat: "IS_PAGE_ALIGNED t \<Longrightarrow> n < 4096 \<Longrightarrow> unat (t + of_nat n) = unat t + n"
  using aligned_bound [of t] by (simp add: unat_add_u64 unat_of_nat_u64)

lemma aligned_diff:
  assumes "IS_PAGE_ALIGNED t" and "IS_PAGE_ALIGNED u" and "unat t < unat u"
  shows "unat t + 4096 \<le> unat u"
proof -
  from assms(1,2) obtain j k where "unat t = 4096 * j" "unat u = 4096 * k"
    by (auto simp: page_aligned_iff elim!: dvdE)
  with assms(3) show ?thesis by simp
qed

text \<open>A byte of page \<open>t\<close> lies in page \<open>u\<close> only if they are the same page.\<close>

lemma page_byte_iff:
  assumes "IS_PAGE_ALIGNED t" and "IS_PAGE_ALIGNED u" and "n < 4096"
  shows "unat (t + h + of_nat n - (u + h)) < 4096 \<longleftrightarrow> t = u"
proof -
  have eq: "t + h + of_nat n - (u + h) = (t + of_nat n) - u" by simp
  consider "t = u" | "unat t + 4096 \<le> unat u" | "unat u + 4096 \<le> unat t"
    using aligned_diff [OF assms(1,2)] aligned_diff [OF assms(2,1)]
    by (metis linorder_neqE_nat word_unat_eq_iff)
  then show ?thesis
  proof cases
    case 1
    then show ?thesis using assms(3) by (simp add: unat_of_nat_u64)
  next
    case 2
    with page_offset_unat [OF assms(1,3)] assms(3) aligned_bound [OF assms(2)]
    have "4096 \<le> unat ((t + of_nat n) - u)" by (simp add: unat_sub_wrap_u64)
    with 2 show ?thesis unfolding eq by auto
  next
    case 3
    with page_offset_unat [OF assms(1,3)] have "4096 \<le> unat ((t + of_nat n) - u)"
      by (simp add: unat_sub_u64)
    with 3 show ?thesis unfolding eq by auto
  qed
qed

lemma entry_address: "i < 512 \<Longrightarrow> 8 * of_nat i = (of_nat (8 * i) :: u64)"
  by simp

lemma entry_apart:
  assumes "IS_PAGE_ALIGNED t" and "IS_PAGE_ALIGNED u" and "i < 512" and "j < 512"
    and "\<not> (u = t \<and> j = i)" and "k < 8"
  shows "8 \<le> unat (u + h + of_nat (8 * j) + of_nat k - (t + h + of_nat (8 * i)))"
proof -
  have t: "unat (t + of_nat (8 * i)) = unat t + 8 * i" by (rule page_offset_unat) (use assms in auto)
  have u: "unat (u + of_nat (8 * j + k)) = unat u + (8 * j + k)"
    by (rule page_offset_unat) (use assms in auto)
  have eq: "u + h + of_nat (8 * j) + of_nat k - (t + h + of_nat (8 * i)) = (u + of_nat (8 * j + k)) - (t + of_nat (8 * i))"
    by simp
  obtain a b where ab: "unat t = 4096 * a" "unat u = 4096 * b"
    using assms(1,2) by (auto simp: page_aligned_iff elim!: dvdE)
  from assms(5) have ne: "4096 * b + 8 * j \<noteq> 4096 * a + 8 * i"
  proof (rule contrapos_nn)
    assume "4096 * b + 8 * j = 4096 * a + 8 * i"
    then have eq512: "512 * b + j = 512 * a + i" by simp
    moreover have "(512 * b + j) div 512 = b" "(512 * a + i) div 512 = a" using assms(3,4) by simp_all
    ultimately have "b = a" by simp
    moreover from this eq512 have "j = i" by simp
    ultimately have "b = a" "j = i" by simp_all
    with ab show "u = t \<and> j = i" by (simp add: word_unat_eq_iff)
  qed
  show ?thesis
  proof (cases "unat t + 8 * i \<le> unat u + (8 * j + k)")
    case True
    moreover have "unat t + 8 * i + 8 \<le> unat u + (8 * j + k)"
    proof -
      have "512 * a + i \<le> 512 * b + j"
        by (rule ccontr) (use True ab assms(6) in linarith)
      with ne have "512 * a + i < 512 * b + j" by linarith
      with ab show ?thesis by linarith
    qed
    ultimately show ?thesis unfolding eq using t u by (simp add: unat_sub_u64)
  next
    case False
    then have "unat ((u + of_nat (8 * j + k)) - (t + of_nat (8 * i)))
        = unat u + (8 * j + k) + 18446744073709551616 - (unat t + 8 * i)"
      using t u by (simp only: unat_sub_wrap_u64 not_le)
    with aligned_bound [OF assms(1)] assms(3) show ?thesis unfolding eq by linarith
  qed
qed

lemma ptes_entry_set:
  assumes "IS_PAGE_ALIGNED t" and "IS_PAGE_ALIGNED u" and "i < 512" and "j < 512"
  shows "ptes (entry_set t (of_nat i) v s) u j = (if u = t \<and> j = i then v else ptes s u j)"
proof (cases "u = t \<and> j = i")
  case True
  then show ?thesis by (simp add: ptes_def entry_get_def entry_set_def HHDM_PHYS_TO_VIRT_def)
next
  case False
  have "load64 (store64 (t + h + of_nat (8 * i)) v m) (u + h + of_nat (8 * j)) = load64 m (u + h + of_nat (8 * j))" for h m
    unfolding load64_def store64_def
    by (rule load_store_le_other) (use entry_apart [OF assms False] in simp)
  with False show ?thesis
    by (auto simp: ptes_def entry_get_def entry_set_def HHDM_PHYS_TO_VIRT_def)
qed

lemma ptes_zero_frame:
  assumes "IS_PAGE_ALIGNED n" and "IS_PAGE_ALIGNED t" and "i < 512"
  shows "ptes (zero_frame n s) t i = (if t = n then 0 else ptes s t i)"
proof -
  let ?h = "g_hhdm_offset s"
  let ?m = "\<lambda>x. if unat (x - (n + ?h)) < 4096 then 0 else mem s x"
  have byte: "?m (t + ?h + of_nat (8 * i) + of_nat k) = (if t = n then 0 else mem s (t + ?h + of_nat (8 * i) + of_nat k))"
    if "k < 8" for k
    using page_byte_iff [OF assms(2,1), of "8 * i + k" ?h] that assms(3) by (simp add: add.assoc)
  have "load_le 8 ?m (t + ?h + of_nat (8 * i)) = (if t = n then 0 else load_le 8 (mem s) (t + ?h + of_nat (8 * i)) :: u64)"
  proof (cases "t = n")
    case True
    have "load_le 8 ?m (t + ?h + of_nat (8 * i)) = (load_le 8 (\<lambda>_. 0) (t + ?h + of_nat (8 * i)) :: u64)"
      by (rule load_le_cong) (use byte True in simp)
    also have "\<dots> = 0" by (rule bit_word_eqI) (simp add: bit_load_le)
    finally show ?thesis using True by simp
  next
    case False
    have "load_le 8 ?m (t + ?h + of_nat (8 * i)) = (load_le 8 (mem s) (t + ?h + of_nat (8 * i)) :: u64)"
      by (rule load_le_cong) (use byte False in simp)
    with False show ?thesis by simp
  qed
  moreover have "mem (zero_frame n s) = ?m" "g_hhdm_offset (zero_frame n s) = ?h"
    by (simp_all add: zero_frame_def memset_eq HHDM_PHYS_TO_VIRT_def fun_eq_iff)
  ultimately show ?thesis
    by (cases "t = n") (simp_all add: ptes_def entry_get_def HHDM_PHYS_TO_VIRT_def load64_def)
qed

section \<open>Writes to one page\<close>

text \<open>Everything but the bytes of the page at physical address \<open>t\<close> is unchanged.\<close>

definition same_but_page :: "phys_addr_t \<Rightarrow> 'a mm_state_scheme \<Rightarrow> 'a mm_state_scheme \<Rightarrow> bool" where
  "same_but_page t s s' \<longleftrightarrow> g_hhdm_offset s' = g_hhdm_offset s \<and> bitmap_start s' = bitmap_start s
     \<and> bitmap_size s' = bitmap_size s \<and> total_frames s' = total_frames s
     \<and> klog_calls s' = klog_calls s \<and> mm_state.more s' = mm_state.more s
     \<and> (\<forall>a. 4096 \<le> unat (a - (t + g_hhdm_offset s)) \<longrightarrow> mem s' a = mem s a)"

lemma same_but_page_trans:
  "same_but_page t s s' \<Longrightarrow> same_but_page t s' s'' \<Longrightarrow> same_but_page t s s''"
  by (simp add: same_but_page_def)

lemma same_but_page_zero: "same_but_page n s (zero_frame n s)"
  by (simp add: same_but_page_def zero_frame_def memset_eq HHDM_PHYS_TO_VIRT_def)

lemma same_but_page_entry:
  assumes "i < 512"
  shows "same_but_page t s (entry_set t (of_nat i) v s)"
proof -
  have "store64 (t + h + of_nat (8 * i)) v m a = m a" if "4096 \<le> unat (a - (t + h))" for a h m
  proof -
    have "unat (of_nat (8 * i) :: u64) = 8 * i" using assms by (intro unat_of_nat_u64) simp
    then have "8 \<le> unat (a - (t + h + of_nat (8 * i)))"
      using that assms unat_sub_add_u64 [of a "t + h" "of_nat (8 * i)"] by simp
    then show ?thesis by (simp add: store64_def store_le_out)
  qed
  then show ?thesis by (simp add: same_but_page_def entry_set_def HHDM_PHYS_TO_VIRT_def)
qed

section \<open>The bitmap and the pages\<close>

definition bitmap_ok :: "'a mm_state_scheme \<Rightarrow> bool" where
  "bitmap_ok s \<longleftrightarrow> (let b = HHDM_VIRT_TO_PHYS s (bitmap_start s) in
     IS_PAGE_ALIGNED b \<and> unat b \<le> 2 ^ 52 \<and> bitmap_frames s \<inter> free_frames s = {})"

text \<open>A page the kernel may use for a table: managed, allocated, and not holding the bitmap.\<close>

definition table_ok :: "'a mm_state_scheme \<Rightarrow> phys_addr_t \<Rightarrow> bool" where
  "table_ok s t \<longleftrightarrow> IS_PAGE_ALIGNED t \<and> frame_of t < unat (total_frames s)
     \<and> frame_of t \<notin> free_frames s \<and> frame_of t \<notin> bitmap_frames s"

lemma page_off_bitmap:
  assumes "pmm_wf s" and "bitmap_ok s" and "IS_PAGE_ALIGNED t" and "frame_of t < unat (total_frames s)"
    and "frame_of t \<notin> bitmap_frames s" and "n < 4096"
  shows "unat (bitmap_size s) \<le> unat (t + g_hhdm_offset s + of_nat n - bitmap_start s)"
proof -
  define b where "b = HHDM_VIRT_TO_PHYS s (bitmap_start s)"
  let ?z = "unat (bitmap_size s)"
  have eq: "t + g_hhdm_offset s + of_nat n - bitmap_start s = (t + of_nat n) - b"
    by (simp add: b_def HHDM_VIRT_TO_PHYS_def)
  from assms(2) have b: "IS_PAGE_ALIGNED b" "unat b \<le> 4503599627370496"
    by (simp_all add: bitmap_ok_def Let_def b_def)
  obtain j k where jk: "unat t = 4096 * j" "unat b = 4096 * k"
    using assms(3) b(1) by (auto simp: page_aligned_iff elim!: dvdE)
  with assms(5) have out: "j < k \<or> k + (?z + 4095) div 4096 \<le> j"
    by (auto simp: bitmap_frames_def Let_def frame_of_eq simp flip: b_def)
  note tn = page_offset_unat [OF assms(3,6)]
  show ?thesis
  proof (cases "j < k")
    case True
    with jk tn assms(6) have lt: "unat (t + of_nat n) < unat b" by simp
    then show ?thesis unfolding eq
      using b(2) pmm_wf_size_bound [OF assms(1)] by (simp add: unat_sub_wrap_u64)
  next
    case False
    with out have "k + (?z + 4095) div 4096 \<le> j" by simp
    moreover have "?z \<le> 4096 * ((?z + 4095) div 4096)" by simp
    ultimately have "unat b + ?z \<le> unat t" using jk by linarith
    with tn show ?thesis unfolding eq by (simp add: unat_sub_u64)
  qed
qed

lemma ptes_same_but_bitmap:
  assumes "same_but_bitmap s s'" and "pmm_wf s" and "bitmap_ok s" and "IS_PAGE_ALIGNED t"
    and "frame_of t < unat (total_frames s)" and "frame_of t \<notin> bitmap_frames s" and "i < 512"
  shows "ptes s' t i = ptes s t i"
proof -
  have "mem s' (t + g_hhdm_offset s + of_nat (8 * i) + of_nat k) = mem s (t + g_hhdm_offset s + of_nat (8 * i) + of_nat k)"
    if "k < 8" for k
    using page_off_bitmap [OF assms(2-6), of "8 * i + k"] that assms(1,7)
    by (simp add: same_but_bitmap_def add.assoc)
  then have "load_le 8 (mem s') (t + g_hhdm_offset s + of_nat (8 * i)) = (load_le 8 (mem s) (t + g_hhdm_offset s + of_nat (8 * i)) :: u64)"
    by (rule load_le_cong)
  with assms(1) show ?thesis
    by (simp add: ptes_def entry_get_def HHDM_PHYS_TO_VIRT_def load64_def same_but_bitmap_fields)
qed

lemma bitmap_byte_same_but_page:
  assumes "same_but_page t s s'" and "pmm_wf s" and "bitmap_ok s" and "IS_PAGE_ALIGNED t"
    and "frame_of t < unat (total_frames s)" and "frame_of t \<notin> bitmap_frames s"
    and "y < unat (bitmap_size s)"
  shows "bitmap_byte s' y = bitmap_byte s y"
proof -
  let ?a = "bitmap_start s + of_nat y"
  have "4096 \<le> unat (?a - (t + g_hhdm_offset s))"
  proof (rule ccontr)
    assume "\<not> ?thesis"
    then have n: "unat (?a - (t + g_hhdm_offset s)) < 4096" by simp
    let ?n = "unat (?a - (t + g_hhdm_offset s))"
    have "t + g_hhdm_offset s + of_nat ?n - bitmap_start s = of_nat y" by simp
    with page_off_bitmap [OF assms(2-6) n] have "unat (bitmap_size s) \<le> unat (of_nat y :: u64)" by simp
    moreover have "unat (of_nat y :: u64) = y"
      by (rule unat_of_nat_u64) (use assms(7) unat_u64_less in \<open>blast intro: order_less_trans\<close>)
    ultimately show False using assms(7) by simp
  qed
  with assms(1) show ?thesis by (simp add: bitmap_byte_def same_but_page_def)
qed

lemma pmm_same_but_page:
  assumes "same_but_page t s s'" and "pmm_wf s" and "bitmap_ok s" and "IS_PAGE_ALIGNED t"
    and "frame_of t < unat (total_frames s)" and "frame_of t \<notin> bitmap_frames s"
  shows "pmm_wf s'" and "free_frames s' = free_frames s" and "bitmap_frames s' = bitmap_frames s"
    and "bitmap_ok s'" and "total_frames s' = total_frames s"
proof -
  have fields: "bitmap_size s' = bitmap_size s" "total_frames s' = total_frames s"
    "bitmap_start s' = bitmap_start s" "g_hhdm_offset s' = g_hhdm_offset s"
    using assms(1) by (auto simp: same_but_page_def)
  have alloc: "frame_allocated s' f = frame_allocated s f" if "f < 8 * unat (bitmap_size s)" for f
    using bitmap_byte_same_but_page [OF assms, of "f div 8"] that by (simp add: frame_allocated_def)
  then show "pmm_wf s'" using assms(2) pmm_wf_cong [OF fields(1,2)] by blast
  have "f < 8 * unat (bitmap_size s)" if "f < unat (total_frames s)" for f
    using pmm_wf_frame_byte [OF assms(2) that] by linarith
  with alloc fields show free: "free_frames s' = free_frames s" by (auto simp: free_frames_iff)
  show frames: "bitmap_frames s' = bitmap_frames s"
    by (simp add: bitmap_frames_def HHDM_VIRT_TO_PHYS_def fields)
  show "bitmap_ok s'" using assms(3) free frames by (simp add: bitmap_ok_def HHDM_VIRT_TO_PHYS_def fields)
  show "total_frames s' = total_frames s" by (rule fields)
qed

end
