(* ===== verification/Paging_Inv.thy ===== *)
theory Paging_Inv
  imports Paging_Mem
begin

text \<open>
  The invariant of the paging code and one level of \<open>paging_map\<close>: going to the next table,
  allocating it where needed, keeps the invariant, loses no mapping and adds none.
\<close>

section \<open>Entries\<close>

lemma PHYS_ADDR_MASK_bit: "bit PHYS_ADDR_MASK k \<longleftrightarrow> 12 \<le> k \<and> k < 52"
proof -
  have "PHYS_ADDR_MASK = push_bit 12 (mask 40)"
    by (simp add: PHYS_ADDR_MASK_def mask_eq_exp_minus_1)
  then have "bit PHYS_ADDR_MASK k \<longleftrightarrow> bit (push_bit 12 (mask 40) :: u64) k" by (simp only:)
  also have "\<dots> \<longleftrightarrow> 12 \<le> k \<and> k < 52"
    by (simp only: bit_push_bit_iff bit_mask_iff) auto
  finally show ?thesis .
qed

lemma bit_pte_addr: "bit (pte_addr e) k \<longleftrightarrow> 12 \<le> k \<and> k < 52 \<and> bit e k"
  by (auto simp: pte_addr_def bit_and_iff PHYS_ADDR_MASK_bit)

lemma pte_present_bit: "pte_present e \<longleftrightarrow> bit e 0"
  by (simp add: pte_present_def PAGE_PRESENT_def and_exp_eq_0_iff_not_bit [of e 0, simplified] bit_0)

lemma aligned_bits: "IS_PAGE_ALIGNED a \<longleftrightarrow> (\<forall>k<12. \<not> bit a k)"
proof -
  have "IS_PAGE_ALIGNED a \<longleftrightarrow> take_bit 12 a = 0"
    by (simp only: IS_PAGE_ALIGNED_def PAGE_MASK_eq take_bit_eq_mask)
  also have "\<dots> \<longleftrightarrow> (\<forall>k<12. \<not> bit a k)"
    by (auto simp: bit_eq_iff bit_take_bit_iff)
  finally show ?thesis .
qed

lemma pte_addr_aligned [simp]: "IS_PAGE_ALIGNED (pte_addr e)"
  by (simp add: aligned_bits bit_pte_addr)

lemma unat_pte_addr: "unat (pte_addr e) < 4503599627370496"
proof -
  have "take_bit 52 (pte_addr e) = pte_addr e"
    by (rule bit_word_eqI) (auto simp: bit_take_bit_iff bit_pte_addr)
  then have "unat (pte_addr e) = take_bit 52 (unat (pte_addr e))"
    by (metis unsigned_take_bit_eq)
  also have "\<dots> < 2 ^ 52" by (rule take_bit_nat_less_exp)
  finally show ?thesis by simp
qed

lemma pte_addr_frame:
  assumes "IS_PAGE_ALIGNED a" and "unat a < 4503599627370496"
  shows "pte_addr a = a"
proof (rule bit_word_eqI)
  fix k
  have "take_bit 52 a = a"
    using assms(2) by (simp add: word_unat_eq_iff unsigned_take_bit_eq take_bit_nat_eq_self)
  then have "bit a k \<Longrightarrow> k < 52" by (metis bit_take_bit_iff)
  moreover have "bit a k \<Longrightarrow> 12 \<le> k" using assms(1) by (auto simp: aligned_bits not_less [symmetric])
  ultimately show "bit (pte_addr a) k = bit a k" by (auto simp: bit_pte_addr)
qed

text \<open>The flags of upper entries: present, and no address bits.\<close>

definition upper_flags :: "u64 \<Rightarrow> bool" where
  "upper_flags fl \<longleftrightarrow> pte_present fl \<and> fl AND PHYS_ADDR_MASK = 0"

lemma pte_or_flags:
  assumes "upper_flags fl"
  shows "pte_present (e OR fl)" and "pte_addr (e OR fl) = pte_addr e"
proof -
  show "pte_present (e OR fl)" using assms by (simp add: upper_flags_def pte_present_bit bit_or_iff)
  show "pte_addr (e OR fl) = pte_addr e"
    using assms unfolding upper_flags_def pte_addr_def by (metis bit.disj_zero_right word_ao_dist)
qed

lemma intermediate_flags_ok:
  "upper_flags (PAGE_PRESENT OR PAGE_WRITABLE OR (if b then PAGE_USER else 0))"
  by (simp add: upper_flags_def pte_present_def PAGE_PRESENT_def PAGE_WRITABLE_def PAGE_USER_def
      PHYS_ADDR_MASK_def)

section \<open>The invariant\<close>

definition paging_inv :: "'a mm_state_scheme \<Rightarrow> phys_addr_t set \<Rightarrow> bool" where
  "paging_inv s R \<longleftrightarrow> pmm_wf s \<and> bitmap_ok s \<and> forest (ptes s) R
     \<and> (\<forall>t\<in>used_tables (ptes s) R. table_ok s t)"

text \<open>The globals that stay as they are.\<close>

definition same_env :: "'a mm_state_scheme \<Rightarrow> 'a mm_state_scheme \<Rightarrow> bool" where
  "same_env s s' \<longleftrightarrow> g_hhdm_offset s' = g_hhdm_offset s \<and> bitmap_start s' = bitmap_start s
     \<and> bitmap_size s' = bitmap_size s \<and> total_frames s' = total_frames s
     \<and> mm_state.more s' = mm_state.more s"

lemma same_env_refl [simp]: "same_env s s"
  by (simp add: same_env_def)

lemma same_env_trans: "same_env s s' \<Longrightarrow> same_env s' s'' \<Longrightarrow> same_env s s''"
  by (simp add: same_env_def)

lemma same_env_page: "same_but_page t s s' \<Longrightarrow> same_env s s'"
  by (simp add: same_env_def same_but_page_def)

lemma same_env_bitmap: "same_but_bitmap s s' \<Longrightarrow> same_env s s'"
  by (simp add: same_env_def same_but_bitmap_def)

lemma paging_invD:
  assumes "paging_inv s R"
  shows "pmm_wf s" and "bitmap_ok s" and "forest (ptes s) R"
    and "t \<in> used_tables (ptes s) R \<Longrightarrow> table_ok s t"
    and "is_node (ptes s) R r p t \<Longrightarrow> table_ok s t"
  using assms by (auto simp: paging_inv_def dest: used_tablesI)

lemma table_okD:
  assumes "table_ok s t"
  shows "IS_PAGE_ALIGNED t" and "frame_of t < unat (total_frames s)" and "frame_of t \<notin> free_frames s"
    and "frame_of t \<notin> bitmap_frames s"
  using assms by (auto simp: table_ok_def)

lemma bitmap_disjoint: "bitmap_ok s \<Longrightarrow> f \<in> free_frames s \<Longrightarrow> f \<notin> bitmap_frames s"
  by (auto simp: bitmap_ok_def Let_def)

text \<open>Writing to a table page touches the manager's state in no way.\<close>

lemma page_write_keeps:
  assumes "same_but_page t s s'" and "pmm_wf s" and "bitmap_ok s" and "table_ok s t"
  shows "pmm_wf s' \<and> bitmap_ok s' \<and> free_frames s' = free_frames s \<and> same_env s s'
    \<and> (\<forall>u. table_ok s' u = table_ok s u)"
  using pmm_same_but_page [OF assms(1-3)] table_okD [OF assms(4)] same_env_page [OF assms(1)]
  by (simp add: table_ok_def)

lemma bitmap_frames_env: "same_env s s' \<Longrightarrow> bitmap_frames s' = bitmap_frames s"
  by (simp add: same_env_def bitmap_frames_def HHDM_VIRT_TO_PHYS_def)

text \<open>Taking a frame keeps the used tables and makes the frame usable as a table.\<close>

lemma alloc_keeps:
  assumes "pmm_wf s" and "bitmap_ok s" and "pmm_alloc_frame s = Inr (n, s')"
  shows "pmm_wf s'" and "bitmap_ok s'" and "same_env s s'" and "table_ok s' n"
    and "free_frames s' = free_frames s - {frame_of n}" and "frame_of n \<in> free_frames s"
    and "IS_PAGE_ALIGNED n" and "unat n < 4503599627370496"
    and "table_ok s t \<Longrightarrow> table_ok s' t \<and> t \<noteq> n \<and> (\<forall>i<512. ptes s' t i = ptes s t i)"
proof -
  note alloc = pmm_alloc_frame_Inr [OF assms(1,3)]
  show env: "same_env s s'" by (rule same_env_bitmap [OF alloc(2)])
  show "pmm_wf s'" "free_frames s' = free_frames s - {frame_of n}" "frame_of n \<in> free_frames s"
    by (fact alloc)+
  note frames = bitmap_frames_env [OF env]
  have n: "frame_of n < unat (total_frames s)" using alloc(5) by (simp add: free_frames_iff)
  have small: "frame_of n < 2 ^ 40" "frame_of n < 2 ^ 52"
    using n pmm_wf_bound [OF assms(1)] by simp_all
  show al: "IS_PAGE_ALIGNED n" using frame_addr_aligned [OF small(2)] alloc(3) by simp
  show "unat n < 4503599627370496" using unat_frame_addr [OF small(2)] alloc(3) small(1) by simp
  show "bitmap_ok s'"
    using assms(2) alloc(6) frames env by (auto simp: bitmap_ok_def Let_def same_env_def HHDM_VIRT_TO_PHYS_def)
  show "table_ok s' n"
    using al n alloc(5,6) frames env bitmap_disjoint [OF assms(2) alloc(5)]
    by (auto simp: table_ok_def same_env_def)
  show "table_ok s' t \<and> t \<noteq> n \<and> (\<forall>i<512. ptes s' t i = ptes s t i)" if "table_ok s t"
    using that alloc(5,6) frames env ptes_same_but_bitmap [OF alloc(2) assms(1,2)]
    by (auto simp: table_ok_def same_env_def)
qed

section \<open>Growing the trees\<close>

text \<open>The trees may have more tables than before; every table and every mapping is still there.\<close>

definition grows :: "phys_addr_t set \<Rightarrow> 'a mm_state_scheme \<Rightarrow> 'a mm_state_scheme \<Rightarrow> bool" where
  "grows R s s' \<longleftrightarrow> paging_inv s' R \<and> same_env s s' \<and> free_frames s' \<subseteq> free_frames s
     \<and> klog_calls s' = klog_calls s
     \<and> (\<forall>r p t. is_node (ptes s) R r p t \<longrightarrow> is_node (ptes s') R r p t)
     \<and> (\<forall>r\<in>R. \<forall>q j. path_ok q \<and> length q = 3 \<and> j < 512 \<longrightarrow> leaf (ptes s') r q j = leaf (ptes s) r q j)
     \<and> (kernel_half_shared (ptes s) R \<longrightarrow> kernel_half_shared (ptes s') R)"

lemma growsD:
  assumes "grows R s s'"
  shows "paging_inv s' R" and "same_env s s'" and "free_frames s' \<subseteq> free_frames s"
    and "klog_calls s' = klog_calls s"
    and "is_node (ptes s) R r p t \<Longrightarrow> is_node (ptes s') R r p t"
    and "r \<in> R \<Longrightarrow> path_ok q \<Longrightarrow> length q = 3 \<Longrightarrow> j < 512 \<Longrightarrow> leaf (ptes s') r q j = leaf (ptes s) r q j"
    and "kernel_half_shared (ptes s) R \<Longrightarrow> kernel_half_shared (ptes s') R"
  using assms unfolding grows_def by blast+

lemma grows_trans:
  assumes "grows R s s'" and "grows R s' s''"
  shows "grows R s s''"
  using growsD [OF assms(1)] growsD [OF assms(2)] same_env_trans [of s s' s'']
  unfolding grows_def by (simp add: subset_trans)

lemma grows_refl: "paging_inv s R \<Longrightarrow> grows R s s"
  by (simp add: grows_def)

lemma shared_cong:
  assumes "kernel_half_shared P R"
    and "\<And>r j. r \<in> R \<Longrightarrow> j \<in> {256..<512} \<Longrightarrow>
      pte_present (P' r j) = pte_present (P r j) \<and> pte_addr (P' r j) = pte_addr (P r j)"
  shows "kernel_half_shared P' R"
  unfolding kernel_half_shared_def
proof (intro ballI)
  fix r r' and i :: nat assume r: "r \<in> R" "r' \<in> R" "i \<in> {256..<512}"
  with assms(1) have "pte_present (P r i)" "pte_addr (P r' i) = pte_addr (P r i)"
    unfolding kernel_half_shared_def by blast+
  with assms(2) r show "pte_present (P' r i) \<and> pte_addr (P' r' i) = pte_addr (P' r i)" by simp
qed

lemma shared_flag_change:
  assumes "kernel_half_shared P R" and "only_entry P P' R t i"
    and "pte_present (P' t i) = pte_present (P t i)" and "pte_addr (P' t i) = pte_addr (P t i)"
  shows "kernel_half_shared P' R"
proof (rule shared_cong [OF assms(1)])
  show "pte_present (P' r j) = pte_present (P r j) \<and> pte_addr (P' r j) = pte_addr (P r j)"
    if "r \<in> R" "j \<in> {256..<512}" for r j
    using only_entryD [OF assms(2) roots_used [OF that(1)], of j] that(2) assms(3,4)
    by (cases "r = t \<and> j = i") auto
qed

lemma shared_fresh:
  assumes "kernel_half_shared P R" and "fresh_table P P' R t i n"
  shows "kernel_half_shared P' R"
proof (rule shared_cong [OF assms(1)])
  fix r and j :: nat assume that: "r \<in> R" "j \<in> {256..<512}"
  have "P' r j = P r j"
  proof -
    from assms(1) that have "pte_present (P r j)" unfolding kernel_half_shared_def by blast
    with assms(2) have "\<not> (r = t \<and> j = i)" by (auto simp: fresh_table_def)
    moreover have "only_entry P P' R t i" using assms(2) by (simp add: fresh_table_def)
    ultimately show ?thesis using only_entryD roots_used that by fastforce
  qed
  then show "pte_present (P' r j) = pte_present (P r j) \<and> pte_addr (P' r j) = pte_addr (P r j)" by simp
qed

lemma present_entry_grows:
  assumes inv: "paging_inv s R" and t: "is_node (ptes s) R r p t" "length p \<le> 2" and i: "i < 512"
    and pres: "pte_present (ptes s t i)" and fl: "upper_flags fl"
  defines "s' \<equiv> entry_set t (of_nat i) (ptes s t i OR fl) s"
  shows "grows R s s'" and "ptes s' t i = ptes s t i OR fl" and "free_frames s' = free_frames s"
proof -
  note ok = paging_invD [OF inv]
  have al: "IS_PAGE_ALIGNED t" using ok(5) [OF t(1)] by (rule table_okD)
  have set_eq: "ptes s' u j = (if u = t \<and> j = i then ptes s t i OR fl else ptes s u j)"
    if "IS_PAGE_ALIGNED u" "j < 512" for u j
    unfolding s'_def by (rule ptes_entry_set [OF al that(1) i that(2)])
  show entry: "ptes s' t i = ptes s t i OR fl" using set_eq al i by simp
  have only: "only_entry (ptes s) (ptes s') R t i"
    using set_eq table_okD(1) [OF ok(4)] by (simp add: only_entry_def)
  have addr: "pte_present (ptes s' t i) = pte_present (ptes s t i)" "pte_addr (ptes s' t i) = pte_addr (ptes s t i)"
    using entry pres pte_or_flags [OF fl] by simp_all
  note walk = flag_change_walk [OF only addr]
  have nodes: "is_node (ptes s') R = is_node (ptes s) R" "used_tables (ptes s') R = used_tables (ptes s) R"
    "forest (ptes s') R = forest (ptes s) R"
    by (rule same_nodes; rule walk; assumption)+
  have page: "same_but_page t s s'" unfolding s'_def by (rule same_but_page_entry [OF i])
  note keeps = page_write_keeps [OF page ok(1,2) ok(5) [OF t(1)]]
  then show "free_frames s' = free_frames s" by blast
  have "paging_inv s' R" using keeps ok(3,4) unfolding paging_inv_def nodes by blast
  moreover have "klog_calls s' = klog_calls s" using page by (simp add: same_but_page_def)
  ultimately show "grows R s s'"
    using keeps flag_change_leaf [OF ok(3) t only addr] shared_flag_change [OF _ only addr]
    unfolding grows_def nodes by auto
qed

lemma absent_entry_grows:
  assumes inv: "paging_inv s R" and t: "is_node (ptes s) R r p t" "length p \<le> 2" and i: "i < 512"
    and abs: "\<not> pte_present (ptes s t i)" and fl: "upper_flags fl"
    and alloc: "pmm_alloc_frame s = Inr (n, s1)"
  defines "s3 \<equiv> entry_set t (of_nat i) n (zero_frame n s1)"
  defines "s' \<equiv> entry_set t (of_nat i) (ptes s3 t i OR fl) s3"
  shows "grows R s s'" and "ptes s' t i = n OR fl" and "pte_addr (n OR fl) = n"
    and "free_frames s' = free_frames s - {frame_of n}"
proof -
  note ok = paging_invD [OF inv]
  note al = alloc_keeps [OF ok(1,2) alloc]
  have tok: "table_ok s1 t" "t \<noteq> n" using al(9) ok(5) [OF t(1)] by auto
  note ta = table_okD(1) [OF tok(1)]
  have e3: "ptes s3 u j = (if u = t \<and> j = i then n else if u = n then 0 else ptes s1 u j)"
    if "IS_PAGE_ALIGNED u" "j < 512" for u j
    using that ta i al(7) by (simp add: s3_def ptes_entry_set ptes_zero_frame)
  have e': "ptes s' u j = (if u = t \<and> j = i then n OR fl else if u = n then 0 else ptes s1 u j)"
    if "IS_PAGE_ALIGNED u" "j < 512" for u j
    unfolding s'_def ptes_entry_set [OF ta that(1) i that(2)] e3 [OF that] e3 [OF ta i] by simp
  show entry: "ptes s' t i = n OR fl" using e' ta i by simp
  show addr: "pte_addr (n OR fl) = n" using pte_or_flags(2) [OF fl, of n] pte_addr_frame [OF al(7,8)] by simp
  have used: "u \<noteq> n \<and> (\<forall>j<512. ptes s1 u j = ptes s u j) \<and> table_ok s1 u \<and> IS_PAGE_ALIGNED u"
    if "u \<in> used_tables (ptes s) R" for u
    using al(9) [OF ok(4) [OF that]] table_okD(1) by blast
  have ft: "fresh_table (ptes s) (ptes s') R t i n"
    using i abs entry addr pte_or_flags(1) [OF fl] e' used al(7) tok(2)
    by (auto simp: fresh_table_def only_entry_def pte_present_def)
  have p1: "same_but_page n s1 (zero_frame n s1)" by (rule same_but_page_zero)
  note k1 = page_write_keeps [OF p1 al(1,2,4)]
  have p2: "same_but_page t (zero_frame n s1) s'"
    unfolding s'_def s3_def using same_but_page_entry [OF i] same_but_page_trans by blast
  have k2: "pmm_wf s' \<and> bitmap_ok s' \<and> free_frames s' = free_frames (zero_frame n s1)
      \<and> same_env (zero_frame n s1) s' \<and> (\<forall>u. table_ok s' u = table_ok (zero_frame n s1) u)"
    by (rule page_write_keeps [OF p2]) (use k1 tok in auto)
  show free: "free_frames s' = free_frames s - {frame_of n}" using k1 k2 al(5) by simp
  have "paging_inv s' R"
    using k1 k2 al(4) used fresh_table_forest [OF ft ok(3)]
    by (auto simp: paging_inv_def fresh_table_used [OF ft t])
  moreover have "klog_calls s' = klog_calls s"
    using p1 p2 pmm_alloc_frame_klog [OF ok(1) alloc] by (simp add: same_but_page_def)
  moreover have "same_env s s'" using al(3) k1 k2 same_env_trans by blast
  ultimately show "grows R s s'"
    using free fresh_table_leaf [OF ft ok(3) t] shared_fresh [OF _ ft]
    unfolding grows_def fresh_table_is_node [OF ft] by auto
qed

text \<open>
  One level of \<open>paging_map\<close>: it takes at most one frame, adds at most one table, and ends in the
  table the entry points to.
\<close>

lemma next_table:
  fixes s :: "'a vm_state_scheme"
  assumes inv: "paging_inv s R" and t: "is_node (ptes s) R r p t" "length p \<le> 2" and i: "i < 512"
    and fl: "upper_flags fl" and res: "paging_next_table t (of_nat i) fl s = Inr (c, s')"
  shows "grows R s s'" and "is_node (ptes s') R r (p @ [i]) c"
    and "card (free_frames s) \<le> Suc (card (free_frames s'))"
proof -
  have step: "grows R s s' \<and> pte_present (ptes s' t i) \<and> c = pte_addr (ptes s' t i)
      \<and> card (free_frames s) \<le> Suc (card (free_frames s'))"
  proof (cases "pte_present (ptes s t i)")
    case True
    let ?s' = "entry_set t (of_nat i) (ptes s t i OR fl) s"
    note grow = present_entry_grows [OF inv t i True fl]
    from True res have "s' = ?s'" "c = pte_addr (ptes ?s' t i)"
      by (auto simp: paging_next_table_def Let_def ptes_def pte_present_def pte_addr_def)
    with grow pte_or_flags [OF fl, of "ptes s t i"] show ?thesis by simp
  next
    case False
    with res obtain n s1 where alloc: "pmm_alloc_frame s = Inr (n, s1)"
      by (auto simp: paging_next_table_def ptes_def pte_present_def kbind_eq_Inr_iff)
    let ?s3 = "entry_set t (of_nat i) n (zero_frame n s1)"
    let ?s' = "entry_set t (of_nat i) (ptes ?s3 t i OR fl) ?s3"
    note grow = absent_entry_grows [OF inv t i False fl alloc]
    from False res alloc have "s' = ?s'" "c = pte_addr (ptes ?s' t i)"
      by (auto simp: paging_next_table_def Let_def ptes_def pte_present_def pte_addr_def)
    moreover have "card (free_frames s) \<le> Suc (card (free_frames s - {frame_of n}))"
      by (cases "frame_of n \<in> free_frames s") (simp_all add: card_Suc_Diff1)
    ultimately show ?thesis using grow pte_or_flags(1) [OF fl, of n] by simp
  qed
  then show grow: "grows R s s'" and "card (free_frames s) \<le> Suc (card (free_frames s'))" by simp_all
  from step growsD(5) [OF grow t(1)] i t(2) show "is_node (ptes s') R r (p @ [i]) c"
    by (simp add: is_node_def node_snoc)
qed

lemma next_table_ok:
  fixes s :: "'a vm_state_scheme"
  assumes "pmm_wf s" and "free_frames s \<noteq> {}"
  shows "\<exists>c s'. paging_next_table t i fl s = Inr (c, s')"
proof -
  from pmm.alloc_ok_iff [OF assms(1)] assms(2) obtain n s1 where "pmm_alloc_frame s = Inr (n, s1)" by blast
  then show ?thesis by (simp add: paging_next_table_def Let_def)
qed

lemma next_table_panic:
  fixes s :: "'a vm_state_scheme"
  assumes "pmm_wf s" and "paging_next_table t i fl s = Inl e"
  shows "free_frames s = {}"
  using next_table_ok [OF assms(1)] assms(2) by (metis sum.distinct(1))

end
