(* ===== verification/Paging_Ops.thy ===== *)
theory Paging_Ops
  imports Paging_Inv
begin

text \<open>
  What the operations of \<open>src/src/memory/paging.c\<close> do to the mappings of the address spaces:
  \<open>paging_map\<close>, \<open>paging_unmap\<close> and their range versions change the entry of the pages they are
  given and of no other page, the queries read that entry, and the translation cache stays
  coherent.
\<close>

section \<open>The entry of an address\<close>

definition vpath :: "u64 \<Rightarrow> nat list" where
  "vpath v = [unat (PML4_INDEX v), unat (PDPT_INDEX v), unat (PD_INDEX v)]"

definition vslot :: "u64 \<Rightarrow> nat" where
  "vslot v = unat (PT_INDEX v)"

text \<open>The number of the page of an address: the bits the hardware walk reads.\<close>

definition page_of :: "u64 \<Rightarrow> u64" where
  "page_of v = take_bit 36 (drop_bit 12 v)"

text \<open>The present leaf entry that an address space has for an address.\<close>

definition page_entry :: "'a mm_state_scheme \<Rightarrow> phys_addr_t \<Rightarrow> u64 \<Rightarrow> u64 option" where
  "page_entry s r v = leaf (ptes s) r (vpath v) (vslot v)"

definition kernel_half :: "u64 \<Rightarrow> bool" where
  "kernel_half v \<longleftrightarrow> bit v 47"

lemma index_take_bit: "drop_bit n v AND 0x1FF = take_bit 9 (drop_bit n v)" for v :: u64
proof -
  have "(0x1FF :: u64) = mask 9" by (simp add: mask_eq_exp_minus_1)
  then show ?thesis by (simp only: take_bit_eq_mask)
qed

lemma unat_take_bit_9: "unat (take_bit 9 (w :: u64)) < 512"
  using take_bit_nat_less_exp [of 9 "unat w"] by (simp add: unsigned_take_bit_eq)

lemma vpath_ok [simp]: "path_ok (vpath v)" "length (vpath v) = 3" "vslot v < 512"
  by (simp_all add: vpath_def vslot_def PML4_INDEX_def PDPT_INDEX_def PD_INDEX_def PT_INDEX_def
      index_take_bit unat_take_bit_9)

lemma vpath_nonempty [simp]: "vpath v \<noteq> []"
  by (simp add: vpath_def)

text \<open>Two words agree on a field of bits.\<close>

lemma field_eq_iff:
  fixes v w :: u64
  assumes "m \<le> 64"
  shows "take_bit m (drop_bit n v) = take_bit m (drop_bit n w) \<longleftrightarrow>
    (\<forall>k. n \<le> k \<longrightarrow> k < n + m \<longrightarrow> bit v k = bit w k)"
proof
  assume eq: "take_bit m (drop_bit n v) = take_bit m (drop_bit n w)"
  show "\<forall>k. n \<le> k \<longrightarrow> k < n + m \<longrightarrow> bit v k = bit w k"
  proof (intro allI impI)
    fix k assume k: "n \<le> k" "k < n + m"
    from eq have "bit (take_bit m (drop_bit n v)) (k - n) = bit (take_bit m (drop_bit n w)) (k - n)" by simp
    moreover have "k - n < m" using k by linarith
    ultimately show "bit v k = bit w k" using k by (simp add: bit_take_bit_iff bit_drop_bit_eq)
  qed
qed (auto intro!: bit_word_eqI simp: bit_take_bit_iff bit_drop_bit_eq)

lemma page_of_eq_iff: "page_of v = page_of w \<longleftrightarrow> (\<forall>k. 12 \<le> k \<longrightarrow> k < 48 \<longrightarrow> bit v k = bit w k)"
  by (simp add: page_of_def field_eq_iff)

lemma vpath_eq_iff: "vpath w = vpath v \<and> vslot w = vslot v \<longleftrightarrow> page_of w = page_of v"
proof -
  have split: "(\<forall>k. 12 \<le> k \<longrightarrow> k < 48 \<longrightarrow> Q k) \<longleftrightarrow>
      ((\<forall>k. 39 \<le> k \<longrightarrow> k < 48 \<longrightarrow> Q k) \<and> (\<forall>k. 30 \<le> k \<longrightarrow> k < 39 \<longrightarrow> Q k) \<and> (\<forall>k. 21 \<le> k \<longrightarrow> k < 30 \<longrightarrow> Q k))
      \<and> (\<forall>k. 12 \<le> k \<longrightarrow> k < 21 \<longrightarrow> Q k)" (is "?all \<longleftrightarrow> ?parts") for Q :: "nat \<Rightarrow> bool"
  proof
    assume ?parts
    then show ?all by (metis linorder_not_le)
  qed auto
  show ?thesis
    by (simp add: vpath_def vslot_def PML4_INDEX_def PDPT_INDEX_def PD_INDEX_def PT_INDEX_def
        index_take_bit field_eq_iff page_of_eq_iff split [of "\<lambda>k. bit w k = bit v k"]
        flip: word_unat_eq_iff)
qed

lemma kernel_half_iff: "256 \<le> hd (vpath v) \<longleftrightarrow> kernel_half v"
proof -
  let ?i = "take_bit 9 (drop_bit 39 v)"
  have "bit ?i 8 \<longleftrightarrow> kernel_half v" by (simp add: kernel_half_def bit_take_bit_iff bit_drop_bit_eq)
  moreover have "unat ?i < 512" by (rule unat_take_bit_9)
  moreover have "bit ?i 8 \<longleftrightarrow> odd (unat ?i div 256)" 
  proof -
    have "bit ?i 8 \<longleftrightarrow> bit (unat ?i) 8" by (simp only: bit_unsigned_iff) simp
    also have "\<dots> \<longleftrightarrow> odd (unat ?i div 2 ^ 8)" by (rule bit_iff_odd)
    finally show ?thesis by simp
  qed
  moreover have "n < 512 \<Longrightarrow> odd (n div 256) \<longleftrightarrow> 256 \<le> n" for n :: nat
  proof (cases "256 \<le> n")
    case True
    moreover assume "n < 512"
    ultimately have "n div 256 = 1" by (intro div_nat_eqI) simp_all
    with True show ?thesis by simp
  qed simp
  ultimately show ?thesis by (simp add: vpath_def PML4_INDEX_def index_take_bit)
qed

lemma page_entry_same: "page_of w = page_of v \<Longrightarrow> page_entry s r w = page_entry s r v"
  using vpath_eq_iff [of w v] by (simp add: page_entry_def)

section \<open>The queries\<close>

lemma entry_get_ptes: "entry_get s t i = ptes s t (unat i)"
  by (simp add: ptes_def)

lemma paging_walk_node: "paging_walk s r v = node (ptes s) r (vpath v)"
  by (simp add: paging_walk_def paging_step_def vpath_def entry_get_ptes
      pte_present_def pte_addr_def)

lemma paging_get_physical_eq:
  "IS_PAGE_ALIGNED r \<Longrightarrow> paging_get_physical r v s =
    ((case page_entry s r v of None \<Rightarrow> PMM_INVALID_ADDRESS | Some e \<Rightarrow> pte_addr e OR PAGE_OFFSET v), s)"
  by (simp add: paging_get_physical_def paging_walk_node page_entry_def leaf_def vslot_def
      entry_get_ptes pte_present_def pte_addr_def Let_def split: option.split)

lemma paging_is_mapped_eq:
  "IS_PAGE_ALIGNED r \<Longrightarrow> paging_is_mapped r v s = (page_entry s r v \<noteq> None, s)"
  by (simp add: paging_is_mapped_def paging_walk_node page_entry_def leaf_def vslot_def
      entry_get_ptes pte_present_def split: option.split)

section \<open>Changes outside the tables\<close>

text \<open>The same memory and the same globals of the physical memory manager.\<close>

definition same_mm :: "'a mm_state_scheme \<Rightarrow> 'b mm_state_scheme \<Rightarrow> bool" where
  "same_mm s s' \<longleftrightarrow> mem s' = mem s \<and> g_hhdm_offset s' = g_hhdm_offset s \<and> bitmap_start s' = bitmap_start s
     \<and> bitmap_size s' = bitmap_size s \<and> total_frames s' = total_frames s"

lemma same_mm_klog [simp]: "same_mm s (klog l f a s)"
  by (simp add: same_mm_def)

lemma same_mm_cpu [simp]:
  "same_mm s (paging_invalidate_page v s)" "same_mm s (paging_switch_dir r s)" "same_mm s (paging_enable_nxe s)"
  "same_mm s (s\<lparr>kernel_pml4_entries := es\<rparr>)"
  by (simp_all add: same_mm_def paging_invalidate_page_def paging_switch_dir_def paging_enable_nxe_def)

lemma same_mm_eq:
  assumes "same_mm s s'"
  shows "ptes s' = ptes s" and "free_frames s' = free_frames s" and "paging_inv s' R = paging_inv s R"
    and "page_entry s' = page_entry s" and "pmm_wf s' = pmm_wf s"
proof -
  from assms show p: "ptes s' = ptes s"
    by (intro ext) (simp add: same_mm_def ptes_def entry_get_def HHDM_PHYS_TO_VIRT_def)
  from assms have a: "frame_allocated s' = frame_allocated s"
    by (intro ext) (simp add: same_mm_def frame_allocated_def bitmap_byte_def)
  with assms show f: "free_frames s' = free_frames s"
    by (auto simp: same_mm_def free_frames_iff)
  from p show "page_entry s' = page_entry s" by (intro ext) (simp add: page_entry_def)
  from a assms show w: "pmm_wf s' = pmm_wf s" by (simp add: same_mm_def pmm_wf_def)
  have b: "bitmap_frames s' = bitmap_frames s" "total_frames s' = total_frames s"
    "bitmap_start s' = bitmap_start s" "g_hhdm_offset s' = g_hhdm_offset s"
    using assms by (simp_all add: same_mm_def bitmap_frames_def HHDM_VIRT_TO_PHYS_def)
  then have "table_ok s' = table_ok s" "bitmap_ok s' = bitmap_ok s"
    by (simp_all add: fun_eq_iff table_ok_def bitmap_ok_def HHDM_VIRT_TO_PHYS_def f)
  with p w show "paging_inv s' R = paging_inv s R" by (simp add: paging_inv_def)
qed

lemmas same_mm_simps = same_mm_eq [OF same_mm_klog] same_mm_eq [OF same_mm_cpu(1)]
  same_mm_eq [OF same_mm_cpu(2)] same_mm_eq [OF same_mm_cpu(3)] same_mm_eq [OF same_mm_cpu(4)]

section \<open>Writing a leaf entry\<close>

definition leaf_value :: "u64 \<Rightarrow> u64 option" where
  "leaf_value e = (if pte_present e then Some e else None)"

text \<open>All address spaces have the same kernel half, or there is just one.\<close>

abbreviation spaces_ok :: "'a mm_state_scheme \<Rightarrow> phys_addr_t set \<Rightarrow> phys_addr_t \<Rightarrow> bool" where
  "spaces_ok s R r \<equiv> kernel_half_shared (ptes s) R \<or> R = {r}"

definition sees :: "phys_addr_t \<Rightarrow> u64 \<Rightarrow> phys_addr_t \<Rightarrow> u64 \<Rightarrow> bool" where
  "sees r v r' w \<longleftrightarrow> page_of w = page_of v \<and> (r' = r \<or> kernel_half v)"

lemma leaf_write:
  fixes e :: u64
  assumes inv: "paging_inv s R" and t: "node (ptes s) r (vpath v) = Some t" "r \<in> R"
    and shared: "spaces_ok s R r"
  defines "s' \<equiv> entry_set t (PT_INDEX v) e s"
  shows "paging_inv s' R" and "free_frames s' = free_frames s" and "same_env s s'"
    and "klog_calls s' = klog_calls s"
    and "kernel_half_shared (ptes s) R \<Longrightarrow> kernel_half_shared (ptes s') R"
    and "r' \<in> R \<Longrightarrow> page_entry s' r' w = (if sees r v r' w then leaf_value e else page_entry s r' w)"
    and "r' \<in> R \<Longrightarrow> j < 512 \<Longrightarrow> ptes s' r' j = ptes s r' j"
proof -
  note ok = paging_invD [OF inv]
  have node: "is_node (ptes s) R r (vpath v) t" using t by (simp add: is_node_def)
  have al: "IS_PAGE_ALIGNED t" using ok(5) [OF node] by (rule table_okD)
  have s': "s' = entry_set t (of_nat (vslot v)) e s" by (simp add: s'_def vslot_def)
  have set_eq: "ptes s' u j = (if u = t \<and> j = vslot v then e else ptes s u j)"
    if "IS_PAGE_ALIGNED u" "j < 512" for u j
    unfolding s' by (rule ptes_entry_set [OF al that(1) _ that(2)]) simp
  have only: "only_entry (ptes s) (ptes s') R t (vslot v)"
    using set_eq table_okD(1) [OF ok(4)] by (simp add: only_entry_def)
  note walk = leaf_change_walk [OF ok(3) node _ only]
  have nodes: "used_tables (ptes s') R = used_tables (ptes s) R" "forest (ptes s') R = forest (ptes s) R"
    by (rule same_nodes; rule walk; simp)+
  have page: "same_but_page t s s'" unfolding s' by (rule same_but_page_entry) simp
  note keeps = page_write_keeps [OF page ok(1,2) ok(5) [OF node]]
  from keeps show "free_frames s' = free_frames s" "same_env s s'" by simp_all
  show "paging_inv s' R" using keeps ok(3,4) by (auto simp: paging_inv_def nodes)
  show "klog_calls s' = klog_calls s" using page by (simp add: same_but_page_def)
  show root: "ptes s' r' j = ptes s r' j" if r': "r' \<in> R" "j < 512" for r' j
  proof -
    have "is_node (ptes s) R r' [] r'" using r' by (simp add: is_node_def)
    then have "r' \<noteq> t" by (rule other_depth [OF ok(3) node]) simp
    with r' show ?thesis using only_entryD [OF only roots_used [OF r'(1)], of j] by simp
  qed
  show "kernel_half_shared (ptes s') R" if "kernel_half_shared (ptes s) R"
    by (rule shared_cong [OF that]) (simp add: root)
  show "page_entry s' r' w = (if sees r v r' w then leaf_value e else page_entry s r' w)" if "r' \<in> R"
  proof -
    have "node (ptes s) r' (vpath w) = Some t \<longleftrightarrow> vpath w = vpath v \<and> (r' = r \<or> kernel_half v)"
      using same_table_iff [OF ok(3) node _ shared that, of "vpath w"]
      by (simp add: kernel_half_iff vpath_nonempty)
    then have "node (ptes s) r' (vpath w) = Some t \<and> vslot w = vslot v \<longleftrightarrow> sees r v r' w"
      using vpath_eq_iff [of w v] by (auto simp: sees_def)
    moreover have "ptes s' t (vslot v) = e" using set_eq [OF al] by simp
    ultimately show ?thesis
      using leaf_change_leaf [OF ok(3) node _ only that, of "vpath w" "vslot w"]
      by (simp add: page_entry_def leaf_value_def)
  qed
qed

section \<open>Mapping a page\<close>

text \<open>The root tables still point to the tables they pointed to.\<close>

definition roots_kept :: "phys_addr_t set \<Rightarrow> 'a mm_state_scheme \<Rightarrow> 'a mm_state_scheme \<Rightarrow> bool" where
  "roots_kept R s s' \<longleftrightarrow> (\<forall>r\<in>R. \<forall>i<512. pte_present (ptes s r i) \<longrightarrow>
     pte_present (ptes s' r i) \<and> pte_addr (ptes s' r i) = pte_addr (ptes s r i))"

lemma roots_kept_trans: "roots_kept R s s' \<Longrightarrow> roots_kept R s' s'' \<Longrightarrow> roots_kept R s s''"
  unfolding roots_kept_def by metis

lemma grows_roots_kept:
  assumes "grows R s s'"
  shows "roots_kept R s s'"
  unfolding roots_kept_def
proof (intro ballI allI impI)
  fix r and i :: nat assume "r \<in> R" "i < 512" "pte_present (ptes s r i)"
  then have "is_node (ptes s) R r [i] (pte_addr (ptes s r i))" by (simp add: is_node_def)
  from growsD(5) [OF assms this]
  show "pte_present (ptes s' r i) \<and> pte_addr (ptes s' r i) = pte_addr (ptes s r i)"
    by (simp add: is_node_def split: if_splits)
qed

text \<open>
  The state after a change of the entry of page \<open>v\<close> of address space \<open>r\<close> to \<open>x\<close>: the invariant
  holds, all other entries of all address spaces are what they were, the kernel halves are still
  shared, and the registers and globals are untouched.
\<close>

definition remaps ::
    "phys_addr_t set \<Rightarrow> phys_addr_t \<Rightarrow> u64 \<Rightarrow> u64 option \<Rightarrow> 'a vm_state_scheme \<Rightarrow> 'a vm_state_scheme \<Rightarrow> bool" where
  "remaps R r v x s s' \<longleftrightarrow> paging_inv s' R
     \<and> (\<forall>r'\<in>R. \<forall>w. page_entry s' r' w = (if sees r v r' w then x else page_entry s r' w))
     \<and> roots_kept R s s'
     \<and> (kernel_half_shared (ptes s) R \<longrightarrow> kernel_half_shared (ptes s') R)
     \<and> kernel_pml4_entries s' = kernel_pml4_entries s \<and> cr3 s' = cr3 s \<and> efer s' = efer s
     \<and> g_hhdm_offset s' = g_hhdm_offset s \<and> bitmap_start s' = bitmap_start s
     \<and> bitmap_size s' = bitmap_size s \<and> total_frames s' = total_frames s
     \<and> free_frames s' \<subseteq> free_frames s"

lemma remapsD:
  assumes "remaps R r v x s s'"
  shows "paging_inv s' R"
    and "r' \<in> R \<Longrightarrow> page_entry s' r' w = (if sees r v r' w then x else page_entry s r' w)"
    and "kernel_half_shared (ptes s) R \<Longrightarrow> kernel_half_shared (ptes s') R"
    and "kernel_pml4_entries s' = kernel_pml4_entries s" and "cr3 s' = cr3 s" and "efer s' = efer s"
    and "total_frames s' = total_frames s" and "g_hhdm_offset s' = g_hhdm_offset s"
    and "free_frames s' \<subseteq> free_frames s" and "roots_kept R s s'"
    and "bitmap_start s' = bitmap_start s" and "bitmap_size s' = bitmap_size s"
  using assms unfolding remaps_def by blast+

lemma same_env_vm:
  assumes "same_env s (s' :: 'a vm_state_scheme)"
  shows "kernel_pml4_entries s' = kernel_pml4_entries s" and "cr3 s' = cr3 s" and "efer s' = efer s"
    and "tlb s' = tlb s"
  using assms by (cases s, cases s', simp add: same_env_def)+

lemma invalidate_fields [simp]:
  "kernel_pml4_entries (paging_invalidate_page v s) = kernel_pml4_entries s"
  "cr3 (paging_invalidate_page v s) = cr3 s" "efer (paging_invalidate_page v s) = efer s"
  "tlb (paging_invalidate_page v s) = (tlb s)(PAGE_ALIGN_DOWN v := None)"
  "g_hhdm_offset (paging_invalidate_page v s) = g_hhdm_offset s"
  "bitmap_start (paging_invalidate_page v s) = bitmap_start s"
  "bitmap_size (paging_invalidate_page v s) = bitmap_size s"
  "total_frames (paging_invalidate_page v s) = total_frames s"
  "klog_calls (paging_invalidate_page v s) = klog_calls s"
  by (simp_all add: paging_invalidate_page_def)

lemma klog_vm_fields [simp]:
  "kernel_pml4_entries (klog l f a s) = kernel_pml4_entries s"
  "cr3 (klog l f a s) = cr3 s" "efer (klog l f a s) = efer s" "tlb (klog l f a s) = tlb s"
  by (simp_all add: klog_def)

text \<open>Going down three levels to the page table of an address.\<close>

definition map_tables :: "phys_addr_t \<Rightarrow> u64 \<Rightarrow> u64 \<Rightarrow> 'a vm_state_scheme \<Rightarrow> (phys_addr_t, 'a vm_state_scheme) kres" where
  "map_tables r v fl s =
     kbind (paging_next_table r (PML4_INDEX v) fl s) (\<lambda>pdpt s.
     kbind (paging_next_table pdpt (PDPT_INDEX v) fl s) (\<lambda>pd s. paging_next_table pd (PD_INDEX v) fl s))"

lemma next_table_index:
  fixes s :: "'a vm_state_scheme"
  assumes "paging_inv s R" and "is_node (ptes s) R r p t" and "length p \<le> 2" and "unat i < 512"
    and "upper_flags fl" and "paging_next_table t i fl s = Inr (c, s')"
  shows "grows R s s'" and "is_node (ptes s') R r (p @ [unat i]) c"
    and "card (free_frames s) \<le> Suc (card (free_frames s'))"
  using next_table [of s R r p t "unat i" fl c s'] assms by simp_all

lemma map_tables_effect:
  fixes s :: "'a vm_state_scheme"
  assumes inv: "paging_inv s R" and r: "r \<in> R" and fl: "upper_flags fl"
    and res: "map_tables r v fl s = Inr (t, s')"
  shows "grows R s s'" and "node (ptes s') r (vpath v) = Some t"
    and "card (free_frames s) \<le> card (free_frames s') + 3"
proof -
  from res obtain a s1 b s2 where
    1: "paging_next_table r (PML4_INDEX v) fl s = Inr (a, s1)" and
    2: "paging_next_table a (PDPT_INDEX v) fl s1 = Inr (b, s2)" and
    3: "paging_next_table b (PD_INDEX v) fl s2 = Inr (t, s')"
    by (auto simp: map_tables_def kbind_eq_Inr_iff)
  have idx: "unat (PML4_INDEX v) < 512" "unat (PDPT_INDEX v) < 512" "unat (PD_INDEX v) < 512"
    using vpath_ok(1) [of v] by (simp_all add: vpath_def)
  have "is_node (ptes s) R r [] r" using r by (simp add: is_node_def)
  note g1 = next_table_index [OF inv this _ idx(1) fl 1]
  note g2 = next_table_index [OF growsD(1) [OF g1(1)] g1(2) _ idx(2) fl 2]
  note g3 = next_table_index [OF growsD(1) [OF g2(1)] g2(2) _ idx(3) fl 3]
  show "grows R s s'" using g1(1) g2(1) g3(1) grows_trans by simp blast
  show "node (ptes s') r (vpath v) = Some t" using g3(2) by (simp add: is_node_def vpath_def)
  show "card (free_frames s) \<le> card (free_frames s') + 3" using g1(3) g2(3) g3(3) by simp
qed

lemma map_tables_ok:
  fixes s :: "'a vm_state_scheme"
  assumes inv: "paging_inv s R" and r: "r \<in> R" and fl: "upper_flags fl"
    and free: "3 \<le> card (free_frames s)"
  shows "\<exists>t s'. map_tables r v fl s = Inr (t, s')"
proof -
  have idx: "unat (PML4_INDEX v) < 512" "unat (PDPT_INDEX v) < 512" "unat (PD_INDEX v) < 512"
    using vpath_ok(1) [of v] by (simp_all add: vpath_def)
  have ok: "\<exists>c s'. paging_next_table t i fl s = Inr (c, s')"
    if "paging_inv s R" "0 < card (free_frames s)" for t i and s :: "'a vm_state_scheme"
    using next_table_ok [OF paging_invD(1) [OF that(1)]] that(2) by fastforce
  obtain a s1 where 1: "paging_next_table r (PML4_INDEX v) fl s = Inr (a, s1)"
    using ok [OF inv] free by fastforce
  have "is_node (ptes s) R r [] r" using r by (simp add: is_node_def)
  note g1 = next_table_index [OF inv this _ idx(1) fl 1]
  obtain b s2 where 2: "paging_next_table a (PDPT_INDEX v) fl s1 = Inr (b, s2)"
    using ok [OF growsD(1) [OF g1(1)]] free g1(3) by fastforce
  note g2 = next_table_index [OF growsD(1) [OF g1(1)] g1(2) _ idx(2) fl 2]
  obtain c s3 where 3: "paging_next_table b (PD_INDEX v) fl s2 = Inr (c, s3)"
    using ok [OF growsD(1) [OF g2(1)]] free g1(3) g2(3) by fastforce
  show ?thesis using 1 2 3 by (simp add: map_tables_def)
qed

definition map_flags :: "u64 \<Rightarrow> u64" where
  "map_flags flags = PAGE_PRESENT OR PAGE_WRITABLE OR (if flags AND PAGE_USER \<noteq> 0 then PAGE_USER else 0)"

lemma map_flags_ok: "upper_flags (map_flags flags)"
  unfolding map_flags_def by (rule intermediate_flags_ok)

text \<open>The last part of \<open>paging_map\<close>, on the page table of the address.\<close>

definition map_leaf :: "phys_addr_t \<Rightarrow> u64 \<Rightarrow> phys_addr_t \<Rightarrow> u64 \<Rightarrow> 'a vm_state_scheme \<Rightarrow> 'a vm_state_scheme" where
  "map_leaf pt v p flags s =
     (let old = ptes s pt (vslot v);
          s = (if pte_present old
               then klog_warn ''paging_map: remapping already mapped address 0x%p from 0x%p to 0x%p''
                      [v, pte_addr old, p] s
               else s)
      in paging_invalidate_page v (entry_set pt (PT_INDEX v) (p OR flags) s))"

lemma paging_map_eq:
  assumes "IS_PAGE_ALIGNED r" and "IS_PAGE_ALIGNED v" and "IS_PAGE_ALIGNED p"
  shows "paging_map r v p flags s =
    kbind (map_tables r v (map_flags flags) s) (\<lambda>pt s. Inr ((), map_leaf pt v p flags s))"
  using assms
  by (simp add: paging_map_def map_tables_def map_flags_def map_leaf_def kbind_assoc Let_def
      entry_get_ptes vslot_def pte_present_def pte_addr_def cong: if_cong)

lemma map_leaf_effect:
  fixes s :: "'a vm_state_scheme"
  assumes inv: "paging_inv s R" and t: "node (ptes s) r (vpath v) = Some t" "r \<in> R"
    and shared: "spaces_ok s R r"
  shows "remaps R r v (leaf_value (p OR flags)) s (map_leaf t v p flags s)"
    and "free_frames (map_leaf t v p flags s) = free_frames s"
    and "tlb (map_leaf t v p flags s) = (tlb s)(PAGE_ALIGN_DOWN v := None)"
    and "klog_calls (map_leaf t v p flags s) = klog_calls s @
      (case page_entry s r v of None \<Rightarrow> []
       | Some old \<Rightarrow> [(klog_level_warn, ''paging_map: remapping already mapped address 0x%p from 0x%p to 0x%p'',
           [v, pte_addr old, p])])"
proof -
  let ?old = "ptes s t (vslot v)"
  define u where "u = (if pte_present ?old
      then klog_warn ''paging_map: remapping already mapped address 0x%p from 0x%p to 0x%p'' [v, pte_addr ?old, p] s
      else s)"
  have mm: "same_mm s u" by (simp add: u_def same_mm_def)
  note u = same_mm_eq [OF mm]
  let ?w = "entry_set t (PT_INDEX v) (p OR flags) u"
  have ml: "map_leaf t v p flags s = paging_invalidate_page v ?w" by (simp add: map_leaf_def u_def Let_def)
  have lw: "paging_inv ?w R" "free_frames ?w = free_frames u" "same_env u ?w" "klog_calls ?w = klog_calls u"
    "kernel_half_shared (ptes u) R \<Longrightarrow> kernel_half_shared (ptes ?w) R"
    "\<And>r' x. r' \<in> R \<Longrightarrow> page_entry ?w r' x = (if sees r v r' x then leaf_value (p OR flags) else page_entry u r' x)"
    "\<And>r' j. r' \<in> R \<Longrightarrow> j < 512 \<Longrightarrow> ptes ?w r' j = ptes u r' j"
    using leaf_write [where s = u and e = "p OR flags" and r = r and v = v and t = t and R = R] inv t shared by (simp_all add: u)
  have fields: "kernel_pml4_entries u = kernel_pml4_entries s" "cr3 u = cr3 s" "efer u = efer s" "tlb u = tlb s"
    "g_hhdm_offset u = g_hhdm_offset s" "bitmap_start u = bitmap_start s" "bitmap_size u = bitmap_size s"
    "total_frames u = total_frames s" by (simp_all add: u_def)
  show "remaps R r v (leaf_value (p OR flags)) s (map_leaf t v p flags s)"
    using lw same_env_vm [OF lw(3)] fields unfolding ml
    by (simp add: remaps_def roots_kept_def same_mm_simps u same_env_def)
  show "free_frames (map_leaf t v p flags s) = free_frames s" by (simp add: ml same_mm_simps lw u)
  show "tlb (map_leaf t v p flags s) = (tlb s)(PAGE_ALIGN_DOWN v := None)"
    using same_env_vm [OF lw(3)] fields by (simp add: ml)
  have "page_entry s r v = (if pte_present ?old then Some ?old else None)"
    using t by (simp add: page_entry_def leaf_def)
  moreover have "klog_calls (map_leaf t v p flags s) = klog_calls u" by (simp add: ml lw)
  ultimately show "klog_calls (map_leaf t v p flags s) = klog_calls s @
      (case page_entry s r v of None \<Rightarrow> []
       | Some old \<Rightarrow> [(klog_level_warn, ''paging_map: remapping already mapped address 0x%p from 0x%p to 0x%p'',
           [v, pte_addr old, p])])"
    by (simp add: u_def)
qed

lemma root_aligned: "paging_inv s R \<Longrightarrow> r \<in> R \<Longrightarrow> IS_PAGE_ALIGNED r"
  using paging_invD(4) [of s R r] table_okD(1) roots_used by blast

lemma grows_page_entry: "grows R s s' \<Longrightarrow> r \<in> R \<Longrightarrow> page_entry s' r v = page_entry s r v"
  using growsD(6) [of R s s' r "vpath v" "vslot v"] by (simp add: page_entry_def)

lemma paging_map_effect:
  fixes s :: "'a vm_state_scheme"
  assumes inv: "paging_inv s R" and r: "r \<in> R" and shared: "spaces_ok s R r"
    and al: "IS_PAGE_ALIGNED v" "IS_PAGE_ALIGNED p" and res: "paging_map r v p flags s = Inr ((), s')"
  shows "remaps R r v (leaf_value (p OR flags)) s s'"
    and "tlb s' = (tlb s)(PAGE_ALIGN_DOWN v := None)"
    and "card (free_frames s) \<le> card (free_frames s') + 3"
    and "klog_calls s' = klog_calls s @
      (case page_entry s r v of None \<Rightarrow> []
       | Some old \<Rightarrow> [(klog_level_warn, ''paging_map: remapping already mapped address 0x%p from 0x%p to 0x%p'',
           [v, pte_addr old, p])])"
proof -
  from res obtain t u where t: "map_tables r v (map_flags flags) s = Inr (t, u)"
    and s': "s' = map_leaf t v p flags u"
    by (auto simp: paging_map_eq [OF root_aligned [OF inv r] al] kbind_eq_Inr_iff)
  note g = map_tables_effect [OF inv r map_flags_ok t]
  note gd = growsD [OF g(1)]
  have "spaces_ok u R r" using shared gd(7) by blast
  note m = map_leaf_effect [OF gd(1) g(2) r this, of p flags]
  note md = remapsD [OF m(1)]
  show "remaps R r v (leaf_value (p OR flags)) s s'"
    using m(1) gd(2,3,7) same_env_vm [OF gd(2)] grows_page_entry [OF g(1)]
      roots_kept_trans [OF grows_roots_kept [OF g(1)]] unfolding s'
    by (auto simp: remaps_def same_env_def)
  show "tlb s' = (tlb s)(PAGE_ALIGN_DOWN v := None)" using m(3) same_env_vm [OF gd(2)] by (simp add: s')
  show "card (free_frames s) \<le> card (free_frames s') + 3" using g(3) m(2) by (simp add: s')
  show "klog_calls s' = klog_calls s @
      (case page_entry s r v of None \<Rightarrow> []
       | Some old \<Rightarrow> [(klog_level_warn, ''paging_map: remapping already mapped address 0x%p from 0x%p to 0x%p'',
           [v, pte_addr old, p])])"
    using m(4) gd(4) grows_page_entry [OF g(1) r, of v] by (simp add: s')
qed

lemma paging_map_ok:
  fixes s :: "'a vm_state_scheme"
  assumes "paging_inv s R" and "r \<in> R" and "3 \<le> card (free_frames s)"
  shows "\<exists>s'. paging_map r v p flags s = Inr ((), s')"
proof (cases "IS_PAGE_ALIGNED v \<and> IS_PAGE_ALIGNED p")
  case True
  obtain t u where "map_tables r v (map_flags flags) s = Inr (t, u)"
    using map_tables_ok [OF assms(1,2) map_flags_ok assms(3)] by blast
  with True root_aligned [OF assms(1,2)] show ?thesis by (simp add: paging_map_eq)
next
  case False
  with root_aligned [OF assms(1,2)] show ?thesis by (auto simp: paging_map_def)
qed

text \<open>An address that is not page aligned changes nothing; the call is logged as an error.\<close>

lemma paging_map_unaligned:
  assumes "\<not> (IS_PAGE_ALIGNED r \<and> IS_PAGE_ALIGNED v \<and> IS_PAGE_ALIGNED p)"
  shows "\<exists>msg a. paging_map r v p flags s = Inr ((), klog_error msg [a] s)"
  using assms by (auto simp: paging_map_def)

section \<open>Unmapping a page\<close>

lemma sees_page_entry:
  assumes "r \<in> R" and "spaces_ok s R r" and "r' \<in> R" and "sees r v r' w"
  shows "page_entry s r' w = page_entry s r v"
proof -
  have "page_entry s r' w = page_entry s r' v" using assms(4) page_entry_same by (auto simp: sees_def)
  also have "\<dots> = page_entry s r v"
    using assms shared_walk [of "ptes s" R r r' "vpath v"] kernel_half_iff [of v]
    by (auto simp: sees_def page_entry_def leaf_def)
  finally show ?thesis .
qed

lemma paging_unmap_effect:
  fixes s :: "'a vm_state_scheme"
  assumes inv: "paging_inv s R" and r: "r \<in> R" and shared: "spaces_ok s R r" and al: "IS_PAGE_ALIGNED v"
  defines "s' \<equiv> paging_unmap r v s"
  shows "remaps R r v None s s'" and "free_frames s' = free_frames s"
    and "tlb s' = (if page_entry s r v = None then tlb s else (tlb s)(PAGE_ALIGN_DOWN v := None))"
    and "klog_calls s' = klog_calls s @ (if page_entry s r v = None
      then [(klog_level_warn, ''paging_unmap: address 0x%p is not mapped'', [v])] else [])"
proof -
  note ra = root_aligned [OF inv r]
  have "remaps R r v None s s' \<and> free_frames s' = free_frames s
    \<and> tlb s' = (if page_entry s r v = None then tlb s else (tlb s)(PAGE_ALIGN_DOWN v := None))
    \<and> klog_calls s' = klog_calls s @ (if page_entry s r v = None
      then [(klog_level_warn, ''paging_unmap: address 0x%p is not mapped'', [v])] else [])"
  proof (cases "page_entry s r v")
    case None
    then have s': "s' = klog_warn ''paging_unmap: address 0x%p is not mapped'' [v] s"
      using ra al by (auto simp: s'_def paging_unmap_def paging_walk_node page_entry_def leaf_def
          vslot_def entry_get_ptes pte_present_def split: option.splits)
    with inv None sees_page_entry [OF r shared] show ?thesis by (auto simp: s' remaps_def roots_kept_def same_mm_simps)
  next
    case (Some e)
    then obtain t where t: "node (ptes s) r (vpath v) = Some t" "ptes s t (vslot v) = e" "pte_present e"
      by (auto simp: page_entry_def leaf_def split: option.splits if_splits)
    let ?w = "entry_set t (PT_INDEX v) 0 s"
    have s': "s' = paging_invalidate_page v ?w"
      using t ra al by (simp add: s'_def paging_unmap_def paging_walk_node vslot_def entry_get_ptes pte_present_def)
    note lw = leaf_write [OF inv t(1) r shared, where e = 0]
    have "leaf_value 0 = None" by (simp add: leaf_value_def pte_present_def)
    with lw same_env_vm [OF lw(3)] Some show ?thesis unfolding s'
      by (simp add: remaps_def roots_kept_def same_mm_simps same_env_def)
  qed
  then show "remaps R r v None s s'" "free_frames s' = free_frames s"
    "tlb s' = (if page_entry s r v = None then tlb s else (tlb s)(PAGE_ALIGN_DOWN v := None))"
    "klog_calls s' = klog_calls s @ (if page_entry s r v = None
      then [(klog_level_warn, ''paging_unmap: address 0x%p is not mapped'', [v])] else [])" by blast+
qed

end
