(* ===== verification/Loops.thy ===== *)
theory Loops
  imports Prelude
begin

text \<open>
  Loops of the kernel that update keyed entries one after the other: the pages of a range, the
  pixels of a screen, the gates of a descriptor table. The locale \<open>keyed_updates\<close> states what one
  step does to the entries; what the whole loop does follows once for all of them.
\<close>

section \<open>Runs of a loop body\<close>

text \<open>The body as a relation on states, over the list of the loop indices still to come.\<close>

fun run :: "('i \<Rightarrow> 's \<Rightarrow> 's \<Rightarrow> bool) \<Rightarrow> 'i list \<Rightarrow> 's \<Rightarrow> 's \<Rightarrow> bool" where
  "run step [] s s' \<longleftrightarrow> s' = s"
| "run step (i # is) s s' \<longleftrightarrow> (\<exists>u. step i s u \<and> run step is u s')"

lemma run_snoc: "run step (is @ [i]) s s' \<longleftrightarrow> (\<exists>u. run step is s u \<and> step i u s')"
  by (induction "is" arbitrary: s) auto

lemma run_kfor: "kfor is body s = Inr ((), s') \<longleftrightarrow> run (\<lambda>i s s'. body i s = Inr ((), s')) is s s'"
  by (induction "is" arbitrary: s) (auto simp: kbind_eq_Inr_iff)

lemma run_fold: "run (\<lambda>i s s'. s' = f i s) is s s' \<longleftrightarrow> s' = fold f is s"
  by (induction "is" arbitrary: s) auto

lemma run_fold_guard:
  "(\<And>i. i \<in> set is \<Longrightarrow> P i) \<Longrightarrow> run (\<lambda>i s s'. P i \<and> s' = f i s) is s (fold f is s)"
  by (induction "is" arbitrary: s) auto

lemma fold_frame:
  "(\<And>i m. i \<in> set is \<Longrightarrow> f i m a = m a) \<Longrightarrow> fold f is m a = m a"
  by (induction "is" arbitrary: m) auto

text \<open>Two nested counted loops as one loop over the pairs of indices.\<close>

definition grid :: "nat \<Rightarrow> nat \<Rightarrow> (nat \<times> nat) list" where
  "grid h w = concat (map (\<lambda>y. map (Pair y) [0..<w]) [0..<h])"

lemma set_grid [simp]: "set (grid h w) = {0..<h} \<times> {0..<w}"
  by (auto simp: grid_def)

lemma fold_grid: "fold (\<lambda>y. fold (\<lambda>x. f y x) [0..<w]) [0..<h] = fold (\<lambda>(y, x). f y x) (grid h w)"
proof -
  have "fold (\<lambda>y. fold (\<lambda>x. f y x) [0..<w]) ys = fold (\<lambda>(y, x). f y x) (concat (map (\<lambda>y. map (Pair y) [0..<w]) ys))" for ys
    by (induction ys) (simp_all add: fold_map o_def)
  then show ?thesis by (simp add: grid_def)
qed

section \<open>Keyed updates\<close>

locale keyed_updates =
  fixes inv :: "'s \<Rightarrow> bool"
    and step :: "'i \<Rightarrow> 's \<Rightarrow> 's \<Rightarrow> bool"
    and entry :: "'s \<Rightarrow> 'k \<Rightarrow> 'e"
    and hits :: "'i \<Rightarrow> 'k \<Rightarrow> bool"
    and val :: "'i \<Rightarrow> 'e"
  assumes step_inv: "inv s \<Longrightarrow> step i s s' \<Longrightarrow> inv s'"
    and step_entry: "inv s \<Longrightarrow> step i s s' \<Longrightarrow> entry s' k = (if hits i k then val i else entry s k)"
begin

lemma run_inv: "inv s \<Longrightarrow> run step is s s' \<Longrightarrow> inv s'"
  by (induction "is" arbitrary: s) (auto dest: step_inv)

lemma run_miss: "inv s \<Longrightarrow> run step is s s' \<Longrightarrow> (\<And>i. i \<in> set is \<Longrightarrow> \<not> hits i k) \<Longrightarrow> entry s' k = entry s k"
proof (induction "is" arbitrary: s)
  case (Cons i "is")
  then obtain u where u: "step i s u" "run step is u s'" by auto
  have "entry s' k = entry u k" by (rule Cons.IH [OF step_inv [OF Cons.prems(1) u(1)] u(2)]) (use Cons.prems in auto)
  with Cons.prems u(1) show ?case by (simp add: step_entry)
qed simp

text \<open>A key that is updated has the value of the updates when they agree on it.\<close>

lemma run_hit:
  "inv s \<Longrightarrow> run step is s s' \<Longrightarrow> i \<in> set is \<Longrightarrow> hits i k \<Longrightarrow>
    (\<And>j. j \<in> set is \<Longrightarrow> hits j k \<Longrightarrow> val j = val i) \<Longrightarrow> entry s' k = val i"
proof (induction "is" arbitrary: s i)
  case Nil
  from Nil.prems(3) show ?case by simp
next
  case (Cons i' "is")
  from Cons.prems(2) obtain u where u: "step i' s u" "run step is u s'" by auto
  have inv: "inv u" by (rule step_inv [OF Cons.prems(1) u(1)])
  have vals: "val l = val i" if "l \<in> set is" "hits l k" for l
    using that by (intro Cons.prems(5)) simp_all
  show ?case
  proof (cases "\<exists>j\<in>set is. hits j k")
    case True
    then obtain j where j: "j \<in> set is" "hits j k" by blast
    have "entry s' k = val j"
      using vals j by (intro Cons.IH [OF inv u(2) j]) metis
    also have "\<dots> = val i" by (rule vals [OF j])
    finally show ?thesis .
  next
    case False
    with Cons.prems(3,4) have "i = i'" by auto
    moreover have "entry s' k = entry u k" by (rule run_miss [OF inv u(2)]) (use False in auto)
    ultimately show ?thesis using Cons.prems(1,4) u(1) by (simp add: step_entry)
  qed
qed

end

end
