(* ===== verification/Paging_Range.thy ===== *)
theory Paging_Range
  imports Paging_Ops Loops
begin

text \<open>
  The loops of \<open>paging_map_range\<close> and \<open>paging_unmap_range\<close> of \<open>src/src/memory/paging.c\<close> as keyed
  updates of page entries, and the translation cache.
\<close>

section \<open>Pages of a range\<close>

definition nth_page :: "u64 \<Rightarrow> nat \<Rightarrow> u64" where
  "nth_page v i = v + of_nat i * PAGE_SIZE"

lemma unat_page_of: "unat (page_of x) = unat x div 4096 mod 68719476736"
  by (simp only: page_of_def unsigned_take_bit_eq unsigned_drop_bit_eq take_bit_eq_mod drop_bit_eq_div)
     (simp add: unat_mod unat_div)

lemma unat_nth_page:
  assumes "IS_PAGE_ALIGNED v"
  shows "unat (nth_page v i) = 4096 * ((unat v div 4096 + i) mod 4503599627370496)"
proof -
  from assms obtain k where k: "unat v = 4096 * k" by (auto simp: page_aligned_iff elim!: dvdE)
  have "unat (nth_page v i) = (unat v + i * 4096) mod 18446744073709551616"
  proof -
    have "nth_page v i = of_nat (unat v + i * 4096)" by (simp add: nth_page_def PAGE_SIZE_def)
    then have "unat (nth_page v i) = unat (of_nat (unat v + i * 4096) :: u64)" by (simp only:)
    also have "\<dots> = (unat v + i * 4096) mod 2 ^ LENGTH(64)" by (rule unat_of_nat)
    also have "2 ^ LENGTH(64) = (18446744073709551616 :: nat)" by simp
    finally show ?thesis .
  qed
  also have "\<dots> = (4096 * (k + i)) mod (4096 * 4503599627370496)"
  proof -
    have "unat v + i * 4096 = 4096 * (k + i)" using k by simp
    moreover have "(18446744073709551616 :: nat) = 4096 * 4503599627370496" by simp
    ultimately show ?thesis by (simp only:)
  qed
  also have "\<dots> = 4096 * ((k + i) mod 4503599627370496)" by (rule mult_mod_right [symmetric])
  finally show ?thesis by (simp add: k)
qed

lemma nth_page_aligned: "IS_PAGE_ALIGNED v \<Longrightarrow> IS_PAGE_ALIGNED (nth_page v i)"
  by (simp add: page_aligned_iff unat_nth_page)

lemma mod_add_inj:
  fixes a i j m :: nat
  assumes "(a + i) mod m = (a + j) mod m" and "i < m" and "j < m"
  shows "i = j"
  using assms
proof (induction i j rule: linorder_wlog)
  case (le i j)
  then have "m dvd (a + j) - (a + i)" by (metis add_le_mono1 mod_eq_dvd_iff_nat nat_add_left_cancel_le)
  then have "m dvd j - i" by simp
  moreover have "j - i < m" using le by simp
  ultimately have "j - i = 0" using dvd_imp_le by (metis gr0I leD)
  with le show ?case by simp
qed auto

lemma page_of_nth_page:
  "IS_PAGE_ALIGNED v \<Longrightarrow> unat (page_of (nth_page v i)) = (unat v div 4096 + i) mod 68719476736"
proof -
  assume "IS_PAGE_ALIGNED v"
  moreover have "x mod 4503599627370496 mod 68719476736 = x mod 68719476736" for x :: nat
    by (rule mod_mod_cancel) simp
  ultimately show ?thesis by (simp add: unat_page_of unat_nth_page)
qed

lemma nth_page_inj:
  assumes "IS_PAGE_ALIGNED v" and "page_of (nth_page v i) = page_of (nth_page v j)"
    and "i < 68719476736" and "j < 68719476736"
  shows "i = j"
proof -
  from assms(2) have "unat (page_of (nth_page v i)) = unat (page_of (nth_page v j))" by simp
  then have "(unat v div 4096 + i) mod 68719476736 = (unat v div 4096 + j) mod 68719476736"
    using assms(1) by (simp add: page_of_nth_page)
  then show ?thesis by (rule mod_add_inj) (use assms in simp_all)
qed

section \<open>The two range operations\<close>

text \<open>
  What the loops are given: a good state, an address space \<open>r\<close> of the set \<open>R\<close> and page-aligned
  addresses. A key is an address space with an address.
\<close>

definition range_ok :: "phys_addr_t set \<Rightarrow> phys_addr_t \<Rightarrow> u64 \<Rightarrow> u64 \<Rightarrow> 'a vm_state_scheme \<Rightarrow> bool" where
  "range_ok R r v p s \<longleftrightarrow> paging_inv s R \<and> r \<in> R \<and> spaces_ok s R r \<and> IS_PAGE_ALIGNED v \<and> IS_PAGE_ALIGNED p"

definition space_entry :: "phys_addr_t set \<Rightarrow> 'a vm_state_scheme \<Rightarrow> phys_addr_t \<times> u64 \<Rightarrow> u64 option" where
  "space_entry R s k = (if fst k \<in> R then page_entry s (fst k) (snd k) else None)"

definition range_hits :: "phys_addr_t set \<Rightarrow> phys_addr_t \<Rightarrow> u64 \<Rightarrow> nat \<Rightarrow> phys_addr_t \<times> u64 \<Rightarrow> bool" where
  "range_hits R r v i k \<longleftrightarrow> fst k \<in> R \<and> sees r (nth_page v i) (fst k) (snd k)"

lemma remaps_entry:
  "remaps R r v x s s' \<Longrightarrow> fst k \<in> R \<Longrightarrow>
    space_entry R s' k = (if sees r v (fst k) (snd k) then x else space_entry R s k)"
  by (simp add: space_entry_def remapsD)

interpretation mapr: keyed_updates "range_ok R r v p"
  "\<lambda>i s s'. paging_map r (nth_page v i) (nth_page p i) flags s = Inr ((), s')"
  "space_entry R" "range_hits R r v" "\<lambda>i. leaf_value (nth_page p i OR flags)"
  for R r v p flags
proof
  fix s s' :: "'a vm_state_scheme" and i k
  assume ok: "range_ok R r v p s" and m: "paging_map r (nth_page v i) (nth_page p i) flags s = Inr ((), s')"
  from ok have "paging_inv s R" "r \<in> R" "spaces_ok s R r" "IS_PAGE_ALIGNED (nth_page v i)" "IS_PAGE_ALIGNED (nth_page p i)"
    by (auto simp: range_ok_def nth_page_aligned)
  note rm = paging_map_effect(1) [OF this m]
  show "range_ok R r v p s'" using ok remapsD [OF rm] by (auto simp: range_ok_def)
  show "space_entry R s' k = (if range_hits R r v i k then leaf_value (nth_page p i OR flags) else space_entry R s k)"
    using remaps_entry [OF rm] by (cases "fst k \<in> R") (auto simp: range_hits_def space_entry_def)
qed

interpretation unmapr: keyed_updates "range_ok R r v 0"
  "\<lambda>i s s'. s' = paging_unmap r (nth_page v i) s"
  "space_entry R" "range_hits R r v" "\<lambda>i. None"
  for R r v
proof
  fix s s' :: "'a vm_state_scheme" and i k
  assume ok: "range_ok R r v 0 s" and m: "s' = paging_unmap r (nth_page v i) s"
  from ok have "paging_inv s R" "r \<in> R" "spaces_ok s R r" "IS_PAGE_ALIGNED (nth_page v i)"
    by (auto simp: range_ok_def nth_page_aligned)
  note rm = paging_unmap_effect(1) [OF this, folded m]
  show "range_ok R r v 0 s'" using ok remapsD [OF rm] by (auto simp: range_ok_def)
  show "space_entry R s' k = (if range_hits R r v i k then None else space_entry R s k)"
    using remaps_entry [OF rm] by (cases "fst k \<in> R") (auto simp: range_hits_def space_entry_def)
qed

lemma paging_map_range_run:
  assumes "IS_PAGE_ALIGNED r" and "IS_PAGE_ALIGNED v" and "IS_PAGE_ALIGNED p"
  shows "paging_map_range r v p sz flags s = Inr ((), s') \<longleftrightarrow>
    run (\<lambda>i s s'. paging_map r (nth_page v i) (nth_page p i) flags s = Inr ((), s')) [0..<unat (PAGE_COUNT sz)] s s'"
  using assms by (simp add: paging_map_range_def run_kfor nth_page_def)

lemma paging_unmap_range_run:
  assumes "IS_PAGE_ALIGNED r" and "IS_PAGE_ALIGNED v"
  shows "run (\<lambda>i s s'. s' = paging_unmap r (nth_page v i) s) [0..<unat (PAGE_COUNT sz)] s (paging_unmap_range r v sz s)"
  using assms by (simp add: paging_unmap_range_def run_fold nth_page_def)

lemma unat_PAGE_COUNT_less: "unat (PAGE_COUNT sz) < 4503599627370496"
  using unat_u64_less [of "PAGE_ALIGN_UP sz"] by (simp add: PAGE_COUNT_def unat_div div_less_iff_less_mult)

lemma map_range_effect:
  fixes s :: "'a vm_state_scheme"
  assumes ok: "range_ok R r v p s" and res: "paging_map_range r v p sz flags s = Inr ((), s')"
  shows "range_ok R r v p s'"
    and "i < unat (PAGE_COUNT sz) \<Longrightarrow> unat (PAGE_COUNT sz) \<le> 68719476736 \<Longrightarrow>
      page_entry s' r (nth_page v i) = leaf_value (nth_page p i OR flags)"
    and "r' \<in> R \<Longrightarrow> (\<And>i. i < unat (PAGE_COUNT sz) \<Longrightarrow> \<not> sees r (nth_page v i) r' w) \<Longrightarrow>
      page_entry s' r' w = page_entry s r' w"
proof -
  from ok have rv: "r \<in> R" "IS_PAGE_ALIGNED r" "IS_PAGE_ALIGNED v" "IS_PAGE_ALIGNED p"
    using root_aligned by (auto simp: range_ok_def)
  note run = res [unfolded paging_map_range_run [OF rv(2-4)]]
  show "range_ok R r v p s'" by (rule mapr.run_inv [OF ok run])
  show "page_entry s' r (nth_page v i) = leaf_value (nth_page p i OR flags)"
    if "i < unat (PAGE_COUNT sz)" "unat (PAGE_COUNT sz) \<le> 68719476736"
  proof -
    have "space_entry R s' (r, nth_page v i) = leaf_value (nth_page p i OR flags)"
    proof (rule mapr.run_hit [OF ok run])
      show "i \<in> set [0..<unat (PAGE_COUNT sz)]" using that(1) by simp
      show "range_hits R r v i (r, nth_page v i)" using rv by (simp add: range_hits_def sees_def)
      show "leaf_value (nth_page p j OR flags) = leaf_value (nth_page p i OR flags)"
        if "j \<in> set [0..<unat (PAGE_COUNT sz)]" "range_hits R r v j (r, nth_page v i)" for j
        using nth_page_inj [OF rv(3), of i j] that \<open>i < _\<close> \<open>_ \<le> 68719476736\<close>
        by (simp add: range_hits_def sees_def)
    qed
    with rv show ?thesis by (simp add: space_entry_def)
  qed
  show "page_entry s' r' w = page_entry s r' w"
    if "r' \<in> R" "\<And>i. i < unat (PAGE_COUNT sz) \<Longrightarrow> \<not> sees r (nth_page v i) r' w"
    using mapr.run_miss [OF ok run, of "(r', w)"] that by (simp add: space_entry_def range_hits_def)
qed

lemma unmap_range_effect:
  fixes s :: "'a vm_state_scheme" and sz :: u64
  assumes ok: "range_ok R r v 0 s"
  defines "s' \<equiv> paging_unmap_range r v sz s"
  shows "range_ok R r v 0 s'"
    and "r' \<in> R \<Longrightarrow> page_entry s' r' w =
      (if \<exists>i<unat (PAGE_COUNT sz). sees r (nth_page v i) r' w then None else page_entry s r' w)"
proof -
  from ok have rv: "r \<in> R" "IS_PAGE_ALIGNED r" "IS_PAGE_ALIGNED v"
    using root_aligned by (auto simp: range_ok_def)
  note run = paging_unmap_range_run [OF rv(2,3), of sz s, folded s'_def]
  show "range_ok R r v 0 s'" by (rule unmapr.run_inv [OF ok run])
  assume r': "r' \<in> R"
  show "page_entry s' r' w =
      (if \<exists>i<unat (PAGE_COUNT sz). sees r (nth_page v i) r' w then None else page_entry s r' w)"
  proof (cases "\<exists>i<unat (PAGE_COUNT sz). sees r (nth_page v i) r' w")
    case False
    then show ?thesis using unmapr.run_miss [OF ok run, of "(r', w)"] r'
      by (auto simp: space_entry_def range_hits_def)
  next
    case True
    then obtain i where "i < unat (PAGE_COUNT sz)" "sees r (nth_page v i) r' w" by blast
    with unmapr.run_hit [OF ok run, of i "(r', w)"] r' show ?thesis
      by (auto simp: space_entry_def range_hits_def)
  qed
qed

lemma map_run_ok:
  fixes s :: "'a vm_state_scheme"
  assumes "range_ok R r v p s" and "3 * n \<le> card (free_frames s)"
  shows "\<exists>s'. run (\<lambda>i s s'. paging_map r (nth_page v i) (nth_page p i) flags s = Inr ((), s')) [0..<n] s s'
    \<and> card (free_frames s) \<le> card (free_frames s') + 3 * n"
  using assms(2)
proof (induction n)
  case (Suc n)
  then obtain u where u: "run (\<lambda>i s s'. paging_map r (nth_page v i) (nth_page p i) flags s = Inr ((), s')) [0..<n] s u"
    "card (free_frames s) \<le> card (free_frames u) + 3 * n" by auto
  have ok: "range_ok R r v p u" by (rule mapr.run_inv [OF assms(1) u(1)])
  then have ok': "paging_inv u R" "r \<in> R" "spaces_ok u R r" "IS_PAGE_ALIGNED (nth_page v n)" "IS_PAGE_ALIGNED (nth_page p n)"
    by (auto simp: range_ok_def nth_page_aligned)
  obtain s' where s': "paging_map r (nth_page v n) (nth_page p n) flags u = Inr ((), s')"
    using paging_map_ok [OF ok'(1,2), of "nth_page v n" "nth_page p n" flags] u(2) Suc.prems by auto
  from paging_map_effect(3) [OF ok' s'] u(2) have "card (free_frames s) \<le> card (free_frames s') + 3 * Suc n" by simp
  with u(1) s' show ?case by (auto simp: run_snoc)
qed simp

lemma map_range_ok:
  fixes s :: "'a vm_state_scheme"
  assumes "range_ok R r v p s" and "3 * unat (PAGE_COUNT sz) \<le> card (free_frames s)"
  shows "\<exists>s'. paging_map_range r v p sz flags s = Inr ((), s')"
proof -
  from assms(1) have "IS_PAGE_ALIGNED r" "IS_PAGE_ALIGNED v" "IS_PAGE_ALIGNED p"
    using root_aligned by (auto simp: range_ok_def)
  with map_run_ok [OF assms, of flags] show ?thesis by (auto simp: paging_map_range_run)
qed

section \<open>The translation cache\<close>

text \<open>
  An address the processor can translate repeats bit 47 in all higher bits. The cache is coherent
  when it holds pages of such addresses only, with the entry of the current address space.
\<close>

definition canonical :: "u64 \<Rightarrow> bool" where
  "canonical v \<longleftrightarrow> list_all (\<lambda>k. bit v k = bit v 47) [48..<64]"

definition tlb_ok :: "'a vm_state_scheme \<Rightarrow> bool" where
  "tlb_ok s \<longleftrightarrow> (\<forall>a e. tlb s a = Some e \<longrightarrow>
     canonical a \<and> IS_PAGE_ALIGNED a \<and> page_entry s (cr3 s) a = Some e)"

lemma canonicalD: "canonical v \<Longrightarrow> 48 \<le> k \<Longrightarrow> k < 64 \<Longrightarrow> bit v k = bit v 47"
  unfolding canonical_def list_all_iff set_upt by (meson atLeastLessThan_iff)

lemma canonical_page_eq:
  assumes "canonical v" and "canonical a" and "IS_PAGE_ALIGNED v" and "IS_PAGE_ALIGNED a" and "page_of a = page_of v"
  shows "a = v"
proof (rule bit_word_eqI)
  fix k assume "k < LENGTH(64)"
  have low: "k < 12 \<Longrightarrow> bit a k = bit v k" using assms(3,4) by (simp add: aligned_bits)
  have mid: "12 \<le> j \<Longrightarrow> j < 48 \<Longrightarrow> bit a j = bit v j" for j using assms(5) by (simp add: page_of_eq_iff)
  have "48 \<le> k \<Longrightarrow> k < 64 \<Longrightarrow> bit a k = bit v k"
    using canonicalD [OF assms(1), of k] canonicalD [OF assms(2), of k] mid [of 47] by simp
  with low mid \<open>k < LENGTH(64)\<close> show "bit a k = bit v k"
    by (cases "k < 12"; cases "k < 48") auto
qed

lemma align_down_aligned: "IS_PAGE_ALIGNED v \<Longrightarrow> PAGE_ALIGN_DOWN v = v"
proof -
  assume "IS_PAGE_ALIGNED v"
  then obtain k where "unat v = 4096 * k" by (auto simp: page_aligned_iff elim!: dvdE)
  then have "unat (PAGE_ALIGN_DOWN v) = unat v" by (simp add: PAGE_ALIGN_DOWN_def unat_align_down)
  then show ?thesis by (simp only: word_unat_eq_iff)
qed

text \<open>A change of one page followed by \<open>invlpg\<close> for it keeps the cache coherent.\<close>

lemma remaps_tlb_ok:
  assumes ok: "tlb_ok s" and rm: "remaps R r v x s s'" and cr3: "cr3 s \<in> R" and v: "canonical v" "IS_PAGE_ALIGNED v"
    and spaces: "r \<in> R" "spaces_ok s R r"
    and tlb: "tlb s' = (tlb s)(PAGE_ALIGN_DOWN v := None) \<or> tlb s' = tlb s \<and> page_entry s r v = None"
  shows "tlb_ok s'"
  unfolding tlb_ok_def
proof (intro allI impI)
  fix a e assume e: "tlb s' a = Some e"
  with tlb have old: "tlb s a = Some e" by (auto split: if_splits)
  with ok have a: "canonical a" "IS_PAGE_ALIGNED a" "page_entry s (cr3 s) a = Some e" by (auto simp: tlb_ok_def)
  have "\<not> sees r v (cr3 s) a"
  proof
    assume sees: "sees r v (cr3 s) a"
    then have "a = v" using canonical_page_eq [OF v(1) a(1) v(2) a(2)] by (simp add: sees_def)
    with e tlb a(3) sees_page_entry [OF spaces cr3 sees] align_down_aligned [OF v(2)] show False by auto
  qed
  with a remapsD(2) [OF rm cr3, of a] remapsD(5) [OF rm]
  show "canonical a \<and> IS_PAGE_ALIGNED a \<and> page_entry s' (cr3 s') a = Some e" by simp
qed

lemma paging_map_tlb:
  fixes s :: "'a vm_state_scheme"
  assumes "paging_inv s R" and "r \<in> R" and "spaces_ok s R r" and "IS_PAGE_ALIGNED v" and "IS_PAGE_ALIGNED p"
    and "paging_map r v p flags s = Inr ((), s')" and "canonical v" and "cr3 s \<in> R" and "tlb_ok s"
  shows "tlb_ok s'"
  using remaps_tlb_ok [OF assms(9) paging_map_effect(1) [OF assms(1-6)] assms(8,7,4,2,3)]
    paging_map_effect(2) [OF assms(1-6)] by blast

lemma paging_unmap_tlb:
  fixes s :: "'a vm_state_scheme"
  assumes "paging_inv s R" and "r \<in> R" and "spaces_ok s R r" and "IS_PAGE_ALIGNED v"
    and "canonical v" and "cr3 s \<in> R" and "tlb_ok s"
  shows "tlb_ok (paging_unmap r v s)"
  using remaps_tlb_ok [OF assms(7) paging_unmap_effect(1) [OF assms(1-4)] assms(6,5,4,2,3)]
    paging_unmap_effect(3) [OF assms(1-4)] by (auto split: if_splits)

text \<open>
  A change of address space drops every cached page but the global ones; these stay valid where
  they belong to the shared kernel half.
\<close>

definition globals_in_kernel_half :: "'a vm_state_scheme \<Rightarrow> bool" where
  "globals_in_kernel_half s \<longleftrightarrow>
     (\<forall>a e. tlb s a = Some e \<longrightarrow> e AND PAGE_GLOBAL \<noteq> 0 \<longrightarrow> kernel_half a)"

lemma paging_switch_tlb:
  fixes s :: "'a vm_state_scheme"
  assumes inv: "paging_inv s R" and r: "r \<in> R" "cr3 s \<in> R" and shared: "kernel_half_shared (ptes s) R"
    and ok: "tlb_ok s" and glob: "globals_in_kernel_half s"
  shows "tlb_ok (paging_switch_pml4 r s)"
  unfolding tlb_ok_def
proof (intro allI impI)
  fix a e
  have sw: "paging_switch_pml4 r s = paging_switch_dir r s"
    using root_aligned [OF inv r(1)] by (simp add: paging_switch_pml4_def)
  assume "tlb (paging_switch_pml4 r s) a = Some e"
  then have e: "tlb s a = Some e" "e AND PAGE_GLOBAL \<noteq> 0"
    unfolding sw by (auto simp: paging_switch_dir_def split: option.splits if_splits)
  with ok glob have a: "canonical a" "IS_PAGE_ALIGNED a" "page_entry s (cr3 s) a = Some e" "kernel_half a"
    by (auto simp: tlb_ok_def globals_in_kernel_half_def)
  have "sees (cr3 s) a r a" using a(4) by (simp add: sees_def)
  with sees_page_entry [OF r(2) disjI1 [OF shared] r(1)] a
  have "page_entry s r a = Some e" by simp
  with a show "canonical a \<and> IS_PAGE_ALIGNED a \<and> page_entry (paging_switch_pml4 r s) (cr3 (paging_switch_pml4 r s)) a = Some e"
    unfolding sw by (simp add: same_mm_simps) (simp add: paging_switch_dir_def)
qed

end
