(* ===== verification/Paging_Spaces.thy ===== *)
theory Paging_Spaces
  imports Paging_Range
begin

text \<open>
  Address spaces of \<open>src/src/memory/paging.c\<close>: \<open>paging_create_pml4\<close> makes an address space with
  an empty user half and the shared kernel half, and \<open>paging_destroy_pml4\<close> gives back exactly the
  tables of the user half and the root, each of them once.
\<close>

section \<open>A new root over the shared kernel half\<close>

definition new_root :: "ptab \<Rightarrow> ptab \<Rightarrow> phys_addr_t set \<Rightarrow> phys_addr_t \<Rightarrow> phys_addr_t \<Rightarrow> bool" where
  "new_root P P' R r n \<longleftrightarrow> r \<in> R \<and> n \<notin> used_tables P R \<and> kernel_half_shared P R
     \<and> (\<forall>u\<in>used_tables P R. \<forall>j<512. P' u j = P u j)
     \<and> (\<forall>i<256. \<not> pte_present (P' n i))
     \<and> (\<forall>i\<in>{256..<512}. pte_present (P' n i) \<and> pte_addr (P' n i) = pte_addr (P r i))"

lemma new_root_old:
  assumes "new_root P P' R r n" and "r' \<in> R" and "path_ok q" and "length q \<le> 3"
  shows "node P' r' q = node P r' q"
  using assms(2-4)
proof (rule node_cong [where R = R])
  fix p u and j :: nat assume "is_node P R r' p u" "length p \<le> 2" "j < 512"
  then have "P' u j = P u j" using assms(1) used_tablesI unfolding new_root_def by blast
  then show "pte_present (P' u j) = pte_present (P u j)
      \<and> (pte_present (P u j) \<longrightarrow> pte_addr (P' u j) = pte_addr (P u j))" by simp
qed

lemma new_root_walk:
  assumes nr: "new_root P P' R r n" and "path_ok q" and "length q \<le> 3"
  shows "node P' n q = (if q = [] then Some n else if 256 \<le> hd q then node P r q else None)"
proof (cases q)
  case (Cons i p)
  show ?thesis
  proof (cases "256 \<le> i")
    case True
    then have i: "i \<in> {256..<512}" using assms(2) Cons by simp
    with nr have "pte_present (P' n i)" "pte_addr (P' n i) = pte_addr (P r i)" "r \<in> R" "r \<in> used_tables P R"
      unfolding new_root_def using roots_used by blast+
    moreover from nr i this(4) have "P' r i = P r i" by (simp add: new_root_def)
    moreover from nr i have "pte_present (P r i)" unfolding new_root_def kernel_half_shared_def by blast
    ultimately have "node P' n q = node P' r q" using Cons by simp
    also have "\<dots> = node P r q" by (rule new_root_old [OF nr]) (use assms nr in \<open>auto simp: new_root_def\<close>)
    finally show ?thesis using True Cons by simp
  next
    case False
    with nr have "\<not> pte_present (P' n i)" by (simp add: new_root_def)
    with Cons False show ?thesis by simp
  qed
qed simp

lemma new_root_is_node:
  assumes nr: "new_root P P' R r n"
  shows "is_node P' (insert n R) r' p t \<longleftrightarrow> is_node P R r' p t
    \<or> r' = n \<and> (p = [] \<and> t = n \<or> p \<noteq> [] \<and> 256 \<le> hd p \<and> is_node P R r p t)"
proof -
  have n: "n \<notin> R" "r \<in> R" using nr roots_used by (auto simp: new_root_def)
  show ?thesis
  proof (cases "r' = n")
    case True
    with n show ?thesis by (auto simp: is_node_def new_root_walk [OF nr] split: if_splits)
  next
    case False
    with new_root_old [OF nr] show ?thesis by (auto simp: is_node_def)
  qed
qed

lemma new_root_forest:
  assumes nr: "new_root P P' R r n" and "forest P R"
  shows "forest P' (insert n R)" and "used_tables P' (insert n R) = insert n (used_tables P R)"
proof -
  note node = new_root_is_node [OF nr]
  have n: "n \<notin> used_tables P R" using nr by (simp add: new_root_def)
  show "forest P' (insert n R)"
    unfolding forest_def
  proof (intro allI impI, elim conjE)
    fix r1 p1 r2 p2 u assume "is_node P' (insert n R) r1 p1 u" "is_node P' (insert n R) r2 p2 u"
    then show "p2 = p1 \<and> (r2 = r1 \<or> p1 \<noteq> [] \<and> 256 \<le> hd p1)"
      using n forestD [OF assms(2), of _ p1 u _ p2] unfolding node by (auto dest: used_tablesI)
  qed
  show "used_tables P' (insert n R) = insert n (used_tables P R)"
    unfolding used_tables_def node by auto
qed

lemma new_root_leaf:
  assumes nr: "new_root P P' R r n" and "path_ok q" and "length q = 3" and "j < 512"
  shows "r' \<in> R \<Longrightarrow> leaf P' r' q j = leaf P r' q j"
    and "leaf P' n q j = (if 256 \<le> hd q then leaf P r q j else None)"
proof -
  have same: "P' u j = P u j" if "node P r' q = Some u" "r' \<in> R" for r' u
    using nr that assms used_tablesI [of P R r' q u] by (simp add: new_root_def is_node_def)
  show "r' \<in> R \<Longrightarrow> leaf P' r' q j = leaf P r' q j"
    using same assms by (auto simp: leaf_def new_root_old [OF nr] split: option.split)
  show "leaf P' n q j = (if 256 \<le> hd q then leaf P r q j else None)"
    using same [of r] assms by (auto simp: leaf_def new_root_walk [OF nr] new_root_def split: option.split)
qed

section \<open>Filling a table\<close>

lemma fill_table:
  fixes val :: "nat \<Rightarrow> u64" and s :: "'a mm_state_scheme"
  assumes "IS_PAGE_ALIGNED t" and "lo + m \<le> 512"
  defines "s' \<equiv> fold (\<lambda>i. entry_set t (of_nat (i + lo)) (val i)) [0..<m] s"
  shows "same_but_page t s s' \<and> (\<forall>u j. IS_PAGE_ALIGNED u \<longrightarrow> j < 512 \<longrightarrow>
    ptes s' u j = (if u = t \<and> lo \<le> j \<and> j < lo + m then val (j - lo) else ptes s u j))"
  using assms(2) unfolding s'_def
proof (induction m)
  case 0
  show ?case by (auto simp: same_but_page_def)
next
  case (Suc m)
  let ?u = "fold (\<lambda>i. entry_set t (of_nat (i + lo)) (val i)) [0..<m] s"
  from Suc have IH: "same_but_page t s ?u" "\<And>u j. IS_PAGE_ALIGNED u \<Longrightarrow> j < 512 \<Longrightarrow>
    ptes ?u u j = (if u = t \<and> lo \<le> j \<and> j < lo + m then val (j - lo) else ptes s u j)" by auto
  have idx: "m + lo < 512" using Suc.prems by simp
  have "same_but_page t s (entry_set t (of_nat (m + lo)) (val m) ?u)"
    using IH(1) same_but_page_entry [OF idx] by (blast intro: same_but_page_trans)
  moreover have "ptes (entry_set t (of_nat (m + lo)) (val m) ?u) u j =
      (if u = t \<and> lo \<le> j \<and> j < lo + Suc m then val (j - lo) else ptes s u j)"
    if "IS_PAGE_ALIGNED u" "j < 512" for u j
    unfolding ptes_entry_set [OF assms(1) that(1) idx that(2)] IH(2) [OF that] by auto
  ultimately show ?case by simp
qed

section \<open>Creating an address space\<close>

text \<open>The saved kernel half is the one all address spaces have.\<close>

definition kernel_entries_ok :: "'a vm_state_scheme \<Rightarrow> phys_addr_t set \<Rightarrow> bool" where
  "kernel_entries_ok s R \<longleftrightarrow> (\<forall>r\<in>R. \<forall>i<256. pte_present (kernel_pml4_entries s ! i)
     \<and> pte_addr (kernel_pml4_entries s ! i) = pte_addr (ptes s r (i + 256)))"

lemma entry_set_vm [simp]:
  "kernel_pml4_entries (entry_set t i v s) = kernel_pml4_entries s"
  by (simp add: entry_set_def)

lemma fill_kernel_half:
  fixes s :: "'a vm_state_scheme"
  shows "fold (\<lambda>i s. entry_set n (of_nat (i + 256)) (kernel_pml4_entries s ! i) s) [0..<m] s =
      fold (\<lambda>i. entry_set n (of_nat (i + 256)) (kernel_pml4_entries s ! i)) [0..<m] s
    \<and> kernel_pml4_entries (fold (\<lambda>i. entry_set n (of_nat (i + 256)) (kernel_pml4_entries s ! i)) [0..<m] s)
      = kernel_pml4_entries s"
  by (induction m) auto

lemma paging_create_pml4_effect:
  fixes s :: "'a vm_state_scheme"
  assumes inv: "paging_inv s R" and shared: "kernel_half_shared (ptes s) R" and r: "r \<in> R"
    and saved: "kernel_entries_ok s R" and res: "paging_create_pml4 s = Inr (n, s')"
  shows "new_root (ptes s) (ptes s') R r n" and "paging_inv s' (insert n R)" and "same_env s s'"
    and "free_frames s' = free_frames s - {frame_of n}" and "frame_of n \<in> free_frames s"
    and "klog_calls s' = klog_calls s" and "ptes s' n i = (if i < 256 then 0 else kernel_pml4_entries s ! (i - 256)) \<or> 512 \<le> i"
proof -
  note ok = paging_invD [OF inv]
  from res obtain s1 where alloc: "pmm_alloc_frame s = Inr (n, s1)"
    by (auto simp: paging_create_pml4_def Let_def kbind_eq_Inr_iff)
  note al = alloc_keeps [OF ok(1,2) alloc]
  define s2 where "s2 = fold (\<lambda>i. entry_set n (of_nat (i + 0)) 0) [0..<256] s1"
  define s3 where "s3 = fold (\<lambda>i. entry_set n (of_nat (i + 256)) (kernel_pml4_entries s2 ! i)) [0..<256] s2"
  from res alloc have s': "s' = s3"
    using fill_kernel_half [of n 256 s2] by (simp add: paging_create_pml4_def Let_def s2_def s3_def)
  have f2: "same_but_page n s1 s2" "\<And>u j. IS_PAGE_ALIGNED u \<Longrightarrow> j < 512 \<Longrightarrow>
      ptes s2 u j = (if u = n \<and> 0 \<le> j \<and> j < 0 + 256 then 0 else ptes s1 u j)"
    using fill_table [OF al(7), where lo = 0 and m = 256 and val = "\<lambda>_. 0" and s = s1] by (simp_all add: s2_def)
  have k: "kernel_pml4_entries s2 = kernel_pml4_entries s"
    using same_env_vm(1) [OF same_env_trans [OF al(3) same_env_page [OF f2(1)]]] .
  have f3: "same_but_page n s2 s3" "\<And>u j. IS_PAGE_ALIGNED u \<Longrightarrow> j < 512 \<Longrightarrow>
      ptes s3 u j = (if u = n \<and> 256 \<le> j \<and> j < 256 + 256 then kernel_pml4_entries s2 ! (j - 256) else ptes s2 u j)"
    using fill_table [OF al(7), where lo = 256 and m = 256 and val = "\<lambda>i. kernel_pml4_entries s2 ! i" and s = s2] by (simp_all add: s3_def)
  have page: "same_but_page n s1 s'" using f2(1) f3(1) same_but_page_trans s' by blast
  have pn: "ptes s' n j = (if j < 256 then 0 else kernel_pml4_entries s ! (j - 256))" if "j < 512" for j
    using f3(2) [OF al(7) that] f2(2) [OF al(7) that] that by (auto simp: s' k)
  then show "ptes s' n i = (if i < 256 then 0 else kernel_pml4_entries s ! (i - 256)) \<or> 512 \<le> i"
    by (cases "i < 512") auto
  note keeps = page_write_keeps [OF page al(1,2,4)]
  show "same_env s s'" using al(3) keeps same_env_trans by blast
  show "free_frames s' = free_frames s - {frame_of n}" "frame_of n \<in> free_frames s"
    using keeps al(5,6) by simp_all
  show "klog_calls s' = klog_calls s"
    using page pmm_alloc_frame_klog [OF ok(1) alloc] by (simp add: same_but_page_def)
  have used: "u \<noteq> n \<and> (\<forall>j<512. ptes s' u j = ptes s u j) \<and> table_ok s' u" if "u \<in> used_tables (ptes s) R" for u
    using al(9) [OF ok(4) [OF that]] f2(2) f3(2) table_okD(1) [OF ok(4) [OF that]] keeps by (simp add: s')
  show nr: "new_root (ptes s) (ptes s') R r n"
    unfolding new_root_def
  proof (intro conjI)
    show "\<forall>i<256. \<not> pte_present (ptes s' n i)" by (simp add: pn pte_present_def)
    show "\<forall>i\<in>{256..<512}. pte_present (ptes s' n i) \<and> pte_addr (ptes s' n i) = pte_addr (ptes s r i)"
    proof
      fix i :: nat assume i: "i \<in> {256..<512}"
      then have "i - 256 < 256" "i - 256 + 256 = i" by auto
      with saved r have "pte_present (kernel_pml4_entries s ! (i - 256))"
        "pte_addr (kernel_pml4_entries s ! (i - 256)) = pte_addr (ptes s r i)"
        unfolding kernel_entries_ok_def by metis+
      with i show "pte_present (ptes s' n i) \<and> pte_addr (ptes s' n i) = pte_addr (ptes s r i)" by (simp add: pn)
    qed
  qed (use r shared used in auto)
  show "paging_inv s' (insert n R)"
    using keeps al(4) used new_root_forest [OF nr ok(3)] by (auto simp: paging_inv_def)
qed

lemma create_entries:
  assumes "new_root (ptes s) (ptes s') R r n"
  shows "r' \<in> R \<Longrightarrow> page_entry s' r' v = page_entry s r' v"
    and "page_entry s' n v = (if kernel_half v then page_entry s r v else None)"
  using new_root_leaf [OF assms, of "vpath v" "vslot v"] kernel_half_iff [of v]
  by (simp_all add: page_entry_def)

lemma create_shared:
  assumes nr: "new_root (ptes s) (ptes s') R r n" and saved: "kernel_entries_ok s R"
    and env: "kernel_pml4_entries s' = kernel_pml4_entries s"
  shows "kernel_half_shared (ptes s') (insert n R)" and "kernel_entries_ok s' (insert n R)"
proof -
  have old: "ptes s' q i = ptes s q i" if "q \<in> R" "i < 512" for q i
    using nr that roots_used unfolding new_root_def by blast
  have shared: "pte_present (ptes s q i) \<and> pte_addr (ptes s q i) = pte_addr (ptes s r i)"
    if "q \<in> R" "i \<in> {256..<512}" for q i
    using nr that unfolding new_root_def kernel_half_shared_def by blast
  have eq: "pte_present (ptes s' q i) \<and> pte_addr (ptes s' q i) = pte_addr (ptes s r i)"
    if "q \<in> insert n R" "i \<in> {256..<512}" for q i
  proof (cases "q = n")
    case True
    with nr that(2) show ?thesis unfolding new_root_def by blast
  next
    case False
    with that have "q \<in> R" "i < 512" by auto
    with old [of q i] shared [of q i] that(2) show ?thesis by simp
  qed
  then show "kernel_half_shared (ptes s') (insert n R)" by (simp add: kernel_half_shared_def)
  show "kernel_entries_ok s' (insert n R)"
    unfolding kernel_entries_ok_def env
  proof (intro ballI allI impI)
    fix q and i :: nat assume q: "q \<in> insert n R" and i: "i < 256"
    from nr have "r \<in> R" by (simp add: new_root_def)
    with saved i have "pte_present (kernel_pml4_entries s ! i)"
      "pte_addr (kernel_pml4_entries s ! i) = pte_addr (ptes s r (i + 256))"
      by (auto simp: kernel_entries_ok_def)
    with eq [OF q, of "i + 256"] i
    show "pte_present (kernel_pml4_entries s ! i)
        \<and> pte_addr (kernel_pml4_entries s ! i) = pte_addr (ptes s' q (i + 256))" by simp
  qed
qed

section \<open>The tables below a table\<close>

text \<open>
  The tables reached from table \<open>t\<close> through the first \<open>w\<close> entries of each level, children before
  their parent: the order in which \<open>paging_destroy_pml4\<close> frees them.
\<close>

fun below :: "ptab \<Rightarrow> nat list \<Rightarrow> phys_addr_t \<Rightarrow> phys_addr_t list" where
  "below P [] t = []"
| "below P (w # ws) t = concat (map (\<lambda>i. if pte_present (P t i)
     then below P ws (pte_addr (P t i)) @ [pte_addr (P t i)] else []) [0..<w])"

fun within :: "nat list \<Rightarrow> nat list \<Rightarrow> bool" where
  "within [] ws \<longleftrightarrow> True"
| "within (i # q) [] \<longleftrightarrow> False"
| "within (i # q) (w # ws) \<longleftrightarrow> i < w \<and> within q ws"

lemma set_below: "set (below P ws t) = {u. \<exists>i q. within (i # q) ws \<and> node P t (i # q) = Some u}"
proof (induction ws arbitrary: t)
  case (Cons w ws)
  have "(\<exists>q. within q ws \<and> node P c q = Some u) \<longleftrightarrow> u = c \<or> u \<in> set (below P ws c)" for c u
  proof
    assume "\<exists>q. within q ws \<and> node P c q = Some u"
    then obtain q where "within q ws" "node P c q = Some u" by blast
    then show "u = c \<or> u \<in> set (below P ws c)" unfolding Cons.IH by (cases q) (auto split: if_splits)
  next
    assume "u = c \<or> u \<in> set (below P ws c)"
    then show "\<exists>q. within q ws \<and> node P c q = Some u"
    proof
      assume "u = c"
      then show ?thesis by (intro exI [of _ "[]"]) simp
    qed (auto simp: Cons.IH)
  qed
  then show ?case by (auto split: if_splits)
qed simp

lemma set_concat_map: "x \<in> set xs \<Longrightarrow> set (f x) \<subseteq> set (concat (map f xs))"
  by auto

lemma distinct_concat_map:
  assumes "distinct xs" and "\<And>x. x \<in> set xs \<Longrightarrow> distinct (f x)"
    and "\<And>x y. x \<in> set xs \<Longrightarrow> y \<in> set xs \<Longrightarrow> x \<noteq> y \<Longrightarrow> set (f x) \<inter> set (f y) = {}"
  shows "distinct (concat (map f xs))"
  using assms
proof (induction xs)
  case (Cons x xs)
  then have "set (f x) \<inter> set (concat (map f xs)) = {}" by fastforce
  moreover have "distinct (concat (map f xs))" by (rule Cons.IH) (use Cons.prems in auto)
  ultimately show ?case using Cons.prems(2) [of x] by simp
qed simp

lemma within_path_ok: "within q ws \<Longrightarrow> list_all (\<lambda>w. w \<le> 512) ws \<Longrightarrow> path_ok q \<and> length q \<le> length ws"
  by (induction q ws rule: within.induct) auto

lemma below_is_node:
  assumes "is_node P R r p t" and "length p + length ws \<le> 3" and "list_all (\<lambda>w. w \<le> 512) ws"
    and "within q ws" and "node P t q = Some u"
  shows "is_node P R r (p @ q) u"
  using assms within_path_ok [OF assms(4,3)] by (auto simp: is_node_def node_append)

lemma distinct_below:
  assumes "forest P R"
  shows "is_node P R r p t \<Longrightarrow> length p + length ws \<le> 3 \<Longrightarrow> list_all (\<lambda>w. w \<le> 512) ws \<Longrightarrow> distinct (below P ws t)"
proof (induction ws arbitrary: p t)
  case (Cons w ws)
  let ?f = "\<lambda>i. if pte_present (P t i) then below P ws (pte_addr (P t i)) @ [pte_addr (P t i)] else []"
  have path: "\<exists>q. is_node P R r (p @ i # q) u \<and> (u \<in> set (below P ws (pte_addr (P t i))) \<longrightarrow> q \<noteq> [])"
    if "i < w" "u \<in> set (?f i)" for i u
  proof -
    from that(2) have pres: "pte_present (P t i)" by (auto split: if_splits)
    have "\<exists>q. within q ws \<and> node P (pte_addr (P t i)) q = Some u \<and> (u \<in> set (below P ws (pte_addr (P t i))) \<longrightarrow> q \<noteq> [])"
    proof (cases "u \<in> set (below P ws (pte_addr (P t i)))")
      case True
      then obtain j q where "within (j # q) ws" "node P (pte_addr (P t i)) (j # q) = Some u" by (auto simp: set_below)
      then show ?thesis by blast
    next
      case False
      with that(2) pres show ?thesis by (intro exI [of _ "[]"]) simp
    qed
    then obtain q where q: "within q ws" "node P (pte_addr (P t i)) q = Some u"
      "u \<in> set (below P ws (pte_addr (P t i))) \<longrightarrow> q \<noteq> []" by blast
    with that pres have "within (i # q) (w # ws)" "node P t (i # q) = Some u" by simp_all
    with below_is_node [OF Cons.prems this] q(3) show ?thesis by blast
  qed
  have "distinct (?f i)" if i: "i < w" for i
  proof (cases "pte_present (P t i)")
    case True
    let ?c = "pte_addr (P t i)"
    have c: "is_node P R r (p @ [i]) ?c"
      using below_is_node [OF Cons.prems, of "[i]" ?c] i True by simp
    have "distinct (below P ws ?c)" by (rule Cons.IH [OF c]) (use Cons.prems in auto)
    moreover have "?c \<notin> set (below P ws ?c)"
    proof
      assume "?c \<in> set (below P ws ?c)"
      with path [OF i, of ?c] True obtain q where "is_node P R r (p @ i # q) ?c" "q \<noteq> []" by auto
      with forestD(1) [OF assms c] show False by auto
    qed
    ultimately show ?thesis using True by simp
  qed simp
  moreover have "set (?f i) \<inter> set (?f j) = {}" if "i < w" "j < w" "i \<noteq> j" for i j
  proof (rule ccontr)
    assume "set (?f i) \<inter> set (?f j) \<noteq> {}"
    then obtain u where "u \<in> set (?f i)" "u \<in> set (?f j)" by blast
    with path that obtain q q' where "is_node P R r (p @ i # q) u" "is_node P R r (p @ j # q') u" by meson
    with forestD(1) [OF assms this] that show False by simp
  qed
  ultimately show ?case unfolding below.simps by (intro distinct_concat_map) auto
qed simp

section \<open>Freeing a list of tables\<close>

text \<open>Pages whose entries the bitmap updates leave alone.\<close>

definition page_ok :: "'a mm_state_scheme \<Rightarrow> phys_addr_t \<Rightarrow> bool" where
  "page_ok s t \<longleftrightarrow> IS_PAGE_ALIGNED t \<and> frame_of t < unat (total_frames s) \<and> frame_of t \<notin> bitmap_frames s"

definition frees_ok :: "ptab \<Rightarrow> phys_addr_t set \<Rightarrow> 'a mm_state_scheme \<Rightarrow> bool" where
  "frees_ok P U s \<longleftrightarrow> pmm_wf s \<and> bitmap_ok s \<and> (\<forall>u\<in>U. page_ok s u \<and> (\<forall>j<512. ptes s u j = P u j))"

lemma frees_okD:
  assumes "frees_ok P U s"
  shows "pmm_wf s" and "bitmap_ok s" and "u \<in> U \<Longrightarrow> page_ok s u" and "u \<in> U \<Longrightarrow> j < 512 \<Longrightarrow> ptes s u j = P u j"
  using assms by (auto simp: frees_ok_def)

lemma free_one:
  assumes ok: "frees_ok P U s" and t: "t \<in> U"
  shows "frees_ok P U (pmm_free_frame t s)" and "same_env s (pmm_free_frame t s)"
    and "free_frames (pmm_free_frame t s) = insert (frame_of t) (free_frames s)"
    and "frame_of t \<notin> free_frames s \<Longrightarrow> klog_calls (pmm_free_frame t s) = klog_calls s"
proof -
  note d = frees_okD [OF ok]
  have tp: "IS_PAGE_ALIGNED t" "frame_of t < unat (total_frames s)" "frame_of t \<notin> bitmap_frames s"
    using d(3) [OF t] by (auto simp: page_ok_def)
  let ?s = "pmm_free_frame t s"
  note e = pmm_free_frame_effect [OF d(1), of t]
  show env: "same_env s ?s" by (rule same_env_bitmap [OF e(2)])
  show free: "free_frames ?s = insert (frame_of t) (free_frames s)" using e(3) tp by simp
  have frames: "bitmap_frames ?s = bitmap_frames s" by (rule bitmap_frames_env [OF env])
  have "bitmap_ok ?s" using d(2) env frames free tp
    by (auto simp: bitmap_ok_def Let_def same_env_def HHDM_VIRT_TO_PHYS_def)
  moreover have "page_ok ?s u \<and> (\<forall>j<512. ptes ?s u j = P u j)" if "u \<in> U" for u
    using d(3,4) [OF that] ptes_same_but_bitmap [OF e(2) d(1,2)] env frames
    by (auto simp: page_ok_def same_env_def)
  ultimately show "frees_ok P U ?s" using e(1) by (simp add: frees_ok_def)
  show "klog_calls ?s = klog_calls s" if "frame_of t \<notin> free_frames s"
    using tp that by (simp add: pmm_free_frame_def Let_def free_frames_iff flip: frame_of_def frame_allocated_def)
qed

lemma free_list:
  assumes "frees_ok P U s" and "set ts \<subseteq> U"
  defines "s' \<equiv> fold pmm_free_frame ts s"
  shows "frees_ok P U s'" and "same_env s s'" and "free_frames s' = free_frames s \<union> frame_of ` set ts"
    and "distinct (map frame_of ts) \<Longrightarrow> frame_of ` set ts \<inter> free_frames s = {} \<Longrightarrow> klog_calls s' = klog_calls s"
proof -
  have "frees_ok P U s' \<and> same_env s s' \<and> free_frames s' = free_frames s \<union> frame_of ` set ts
    \<and> (distinct (map frame_of ts) \<longrightarrow> frame_of ` set ts \<inter> free_frames s = {} \<longrightarrow> klog_calls s' = klog_calls s)"
    using assms(1,2) unfolding s'_def
  proof (induction ts arbitrary: s)
    case (Cons t ts)
    note one = free_one [OF Cons.prems(1), of t]
    from Cons.IH [OF one(1)] Cons.prems one show ?case
      by (auto intro: same_env_trans)
  qed auto
  then show "frees_ok P U s'" "same_env s s'" "free_frames s' = free_frames s \<union> frame_of ` set ts"
    "distinct (map frame_of ts) \<Longrightarrow> frame_of ` set ts \<inter> free_frames s = {} \<Longrightarrow> klog_calls s' = klog_calls s"
    by blast+
qed

text \<open>
  A loop whose body frees the tables the entry leads to, in any state reached by freeing, frees
  the concatenation of the lists.
\<close>

lemma free_loop:
  assumes "\<And>i s. i \<in> set is \<Longrightarrow> frees_ok P U s \<Longrightarrow> body i s = fold pmm_free_frame (L i) s"
    and "\<And>i. i \<in> set is \<Longrightarrow> set (L i) \<subseteq> U" and "frees_ok P U s"
  shows "fold body is s = fold pmm_free_frame (concat (map L is)) s"
  using assms
proof (induction "is" arbitrary: s)
  case (Cons i "is")
  have step: "body i s = fold pmm_free_frame (L i) s" using Cons.prems by simp
  have "frees_ok P U (fold pmm_free_frame (L i) s)"
    by (rule free_list(1) [OF Cons.prems(3)]) (use Cons.prems(2) in simp)
  from Cons.IH [OF _ _ this] Cons.prems(1,2) step show ?case by simp
qed simp

section \<open>Destroying an address space\<close>

definition destroy_level ::
    "nat \<Rightarrow> (phys_addr_t \<Rightarrow> 'a mm_state_scheme \<Rightarrow> 'a mm_state_scheme) \<Rightarrow> phys_addr_t \<Rightarrow> 'a mm_state_scheme \<Rightarrow> 'a mm_state_scheme" where
  "destroy_level w inner t = fold (\<lambda>i s. if \<not> pte_present (ptes s t i) then s
     else pmm_free_frame (pte_addr (ptes s t i)) (inner (pte_addr (ptes s t i)) s)) [0..<w]"

lemma destroy_levels:
  "destroy_pd = destroy_level 512 (\<lambda>_ s. s)"
  "destroy_pdpt = destroy_level 512 destroy_pd"
  "IS_PAGE_ALIGNED r \<Longrightarrow> paging_destroy_pml4 r s = pmm_free_frame r (destroy_level 256 destroy_pdpt r s)"
  by (simp_all add: fun_eq_iff destroy_level_def destroy_pd_def destroy_pdpt_def paging_destroy_pml4_def
      ptes_def pte_present_def pte_addr_def Let_def cong: if_cong)

lemma below_used:
  assumes "is_node P R r p t" and "length p + length ws \<le> 3" and "list_all (\<lambda>w. w \<le> 512) ws"
  shows "set (below P ws t) \<subseteq> used_tables P R"
  unfolding set_below using below_is_node [OF assms] used_tablesI by blast

lemma destroy_level_below:
  fixes s :: "'a mm_state_scheme"
  assumes t: "is_node P R r p t" "length p + length (w # ws) \<le> 3" "list_all (\<lambda>w. w \<le> 512) (w # ws)"
    and inner: "\<And>c i s. i < 512 \<Longrightarrow> is_node P R r (p @ [i]) c \<Longrightarrow> frees_ok P (used_tables P R) s \<Longrightarrow>
      inner c (s :: 'a mm_state_scheme) = fold pmm_free_frame (below P ws c) s"
    and ok: "frees_ok P (used_tables P R) s"
  shows "destroy_level w inner t s = fold pmm_free_frame (below P (w # ws) t) s"
proof -
  let ?U = "used_tables P R"
  note sub = below_used [OF t]
  let ?L = "\<lambda>i. if pte_present (P t i) then below P ws (pte_addr (P t i)) @ [pte_addr (P t i)] else []"
  show "destroy_level w inner t s = fold pmm_free_frame (below P (w # ws) t) s"
    unfolding destroy_level_def below.simps
  proof (rule free_loop [OF _ _ ok])
    show "set (?L i) \<subseteq> ?U" if "i \<in> set [0..<w]" for i
      using set_concat_map [OF that, of ?L] sub by simp
    fix i and s :: "'a mm_state_scheme" assume i: "i \<in> set [0..<w]" and s: "frees_ok P ?U s"
    then have lt: "i < 512" using t(3) by simp
    then have eq: "ptes s t i = P t i" using frees_okD(4) [OF s used_tablesI [OF t(1)]] by simp
    have "inner (pte_addr (P t i)) s = fold pmm_free_frame (below P ws (pte_addr (P t i))) s" if "pte_present (P t i)"
      by (rule inner [OF lt _ s]) (use below_is_node [OF t, of "[i]"] i that in simp)
    then show "(if \<not> pte_present (ptes s t i) then s
        else pmm_free_frame (pte_addr (ptes s t i)) (inner (pte_addr (ptes s t i)) s))
      = fold pmm_free_frame (?L i) s"
      by (simp add: eq)
  qed
qed

lemma destroy_eq_free:
  assumes inv: "paging_inv s R" and r: "r \<in> R"
  shows "paging_destroy_pml4 r s = fold pmm_free_frame (below (ptes s) [256, 512, 512] r @ [r]) s"
    and "set (below (ptes s) [256, 512, 512] r) \<subseteq> used_tables (ptes s) R"
    and "frees_ok (ptes s) (used_tables (ptes s) R) s"
proof -
  let ?P = "ptes s" and ?U = "used_tables (ptes s) R"
  show ok: "frees_ok ?P ?U s"
    using paging_invD [OF inv] by (auto simp: frees_ok_def page_ok_def dest: table_okD)
  have pd: "destroy_pd c u = fold pmm_free_frame (below ?P [512] c) u"
    if "is_node ?P R r p c" "length p = 2" "frees_ok ?P ?U u" for c p u
    unfolding destroy_levels
    by (rule destroy_level_below [where R = R and r = r and p = p]) (use that in auto)
  have pdpt: "destroy_pdpt c u = fold pmm_free_frame (below ?P [512, 512] c) u"
    if "is_node ?P R r p c" "length p = 1" "frees_ok ?P ?U u" for c p u
    unfolding destroy_levels(2)
  proof (rule destroy_level_below [OF that(1) _ _ _ that(3)])
    show "destroy_pd c' u' = fold pmm_free_frame (below ?P [512] c') u'"
      if "is_node ?P R r (p @ [i]) c'" "frees_ok ?P ?U u'" for i c' u'
      using pd [OF that(1) _ that(2)] \<open>length p = 1\<close> by simp
  qed (use that(2) in auto)
  have root: "is_node ?P R r [] r" using r by (simp add: is_node_def)
  have "destroy_level 256 destroy_pdpt r s = fold pmm_free_frame (below ?P [256, 512, 512] r) s"
  proof (rule destroy_level_below [OF root _ _ _ ok])
    show "destroy_pdpt c u = fold pmm_free_frame (below ?P [512, 512] c) u"
      if "is_node ?P R r ([] @ [i]) c" "frees_ok ?P ?U u" for i c u
      using pdpt [OF that(1) _ that(2)] by simp
  qed auto
  with destroy_levels(3) [OF root_aligned [OF inv r], of s]
  show "paging_destroy_pml4 r s = fold pmm_free_frame (below ?P [256, 512, 512] r @ [r]) s"
    by (simp del: below.simps)
  show "set (below ?P [256, 512, 512] r) \<subseteq> ?U" by (rule below_used [OF root]) auto
qed

text \<open>The root and the tables of the user half of an address space.\<close>

definition own_tables :: "ptab \<Rightarrow> phys_addr_t \<Rightarrow> phys_addr_t set" where
  "own_tables P r = {u. \<exists>q. path_ok q \<and> length q \<le> 3 \<and> (q = [] \<or> hd q < 256) \<and> node P r q = Some u}"

lemma within_user: "within (i # q) [256, 512, 512] \<longleftrightarrow> i < 256 \<and> path_ok q \<and> length q \<le> 2"
  by (cases q; cases "tl q"; cases "tl (tl q)") auto

lemma own_tables_eq: "own_tables P r = set (below P [256, 512, 512] r @ [r])"
proof -
  have "u \<in> own_tables P r \<longleftrightarrow> u = r \<or> u \<in> set (below P [256, 512, 512] r)" for u
  proof
    assume "u \<in> own_tables P r"
    then obtain q where q: "path_ok q" "length q \<le> 3" "q = [] \<or> hd q < 256" "node P r q = Some u"
      by (auto simp: own_tables_def)
    show "u = r \<or> u \<in> set (below P [256, 512, 512] r)"
    proof (cases q)
      case (Cons i p)
      with q have "within (i # p) [256, 512, 512]" "node P r (i # p) = Some u"
        unfolding within_user by simp_all
      then show ?thesis unfolding set_below by blast
    qed (use q in simp)
  next
    assume "u = r \<or> u \<in> set (below P [256, 512, 512] r)"
    then show "u \<in> own_tables P r"
    proof
      assume "u = r"
      then show ?thesis unfolding own_tables_def by (intro CollectI exI [of _ "[]"]) simp
    next
      assume "u \<in> set (below P [256, 512, 512] r)"
      then obtain i p where "within (i # p) [256, 512, 512]" "node P r (i # p) = Some u"
        unfolding set_below by blast
      then show ?thesis unfolding own_tables_def within_user by (intro CollectI exI [of _ "i # p"]) simp
    qed
  qed
  then show ?thesis by auto
qed

lemma own_tables_private:
  assumes "forest P R" and "r \<in> R" and "u \<in> own_tables P r" and "is_node P R r' p u"
  shows "r' = r"
proof -
  from assms(2,3) obtain q where "is_node P R r q u" "q = [] \<or> hd q < 256"
    by (auto simp: own_tables_def is_node_def)
  with forestD [OF assms(1) this(1) assms(4)] show ?thesis by auto
qed

lemma used_frames_inj:
  assumes "paging_inv s R" and "u \<in> used_tables (ptes s) R" and "w \<in> used_tables (ptes s) R"
    and "frame_of u = frame_of w"
  shows "u = w"
  using frame_addr_frame_of table_okD(1) [OF paging_invD(4) [OF assms(1)]] assms(2-4) by metis

lemma own_tables_once:
  assumes inv: "paging_inv s R" and r: "r \<in> R"
  shows "distinct (map frame_of (below (ptes s) [256, 512, 512] r @ [r]))"
proof -
  let ?ts = "below (ptes s) [256, 512, 512] r"
  note ok = paging_invD [OF inv]
  have root: "is_node (ptes s) R r [] r" using r by (simp add: is_node_def)
  have "r \<notin> set ?ts"
  proof
    assume "r \<in> set ?ts"
    then obtain i q where q: "within (i # q) [256, 512, 512]" "node (ptes s) r (i # q) = Some r"
      unfolding set_below by blast
    from below_is_node [OF root _ _ q] have "is_node (ptes s) R r (i # q) r" by simp
    from forestD(1) [OF ok(3) root this] show False by simp
  qed
  moreover have "distinct ?ts" by (rule distinct_below [OF ok(3) root]) auto
  ultimately have "distinct (?ts @ [r])" by (simp del: below.simps)
  moreover have "set (?ts @ [r]) \<subseteq> used_tables (ptes s) R"
    using destroy_eq_free(2) [OF inv r] roots_used [OF r] by (simp del: below.simps)
  ultimately show ?thesis
    unfolding distinct_map using used_frames_inj [OF inv] by (meson inj_onI subsetD)
qed

lemma paging_destroy_effect:
  assumes inv: "paging_inv s R" and r: "r \<in> R"
  defines "s' \<equiv> paging_destroy_pml4 r s"
  shows "free_frames s' = free_frames s \<union> frame_of ` own_tables (ptes s) r"
    and "frame_of ` own_tables (ptes s) r \<inter> free_frames s = {}"
    and "klog_calls s' = klog_calls s" and "same_env s s'"
    and "paging_inv s' (R - {r})"
    and "r' \<in> R - {r} \<Longrightarrow> path_ok q \<Longrightarrow> length q \<le> 3 \<Longrightarrow> node (ptes s') r' q = node (ptes s) r' q"
    and "r' \<in> R - {r} \<Longrightarrow> page_entry s' r' v = page_entry s r' v"
    and "r' \<in> R \<Longrightarrow> i < 512 \<Longrightarrow> ptes s' r' i = ptes s r' i"
proof -
  let ?P = "ptes s" and ?U = "used_tables (ptes s) R" and ?ts = "below (ptes s) [256, 512, 512] r @ [r]"
  note ok = paging_invD [OF inv]
  note eq = destroy_eq_free [OF inv r]
  have sub: "set ?ts \<subseteq> ?U" using eq(2) roots_used [OF r] by (simp del: below.simps)
  note fl = free_list [OF eq(3) sub, folded eq(1), folded s'_def]
  show free: "free_frames s' = free_frames s \<union> frame_of ` own_tables ?P r"
    using fl(3) by (simp only: own_tables_eq)
  show env: "same_env s s'" by (rule fl(2))
  have own: "u \<in> own_tables ?P r \<Longrightarrow> table_ok s u" for u using sub ok(4) own_tables_eq by blast
  then show disj: "frame_of ` own_tables ?P r \<inter> free_frames s = {}" using table_okD(3) by blast
  from own_tables_once [OF inv r] fl(4) disj show "klog_calls s' = klog_calls s" by (simp only: own_tables_eq)
  have same: "ptes s' u j = ?P u j" if "u \<in> ?U" "j < 512" for u j
    by (rule frees_okD(4) [OF fl(1) that])
  show walk: "node (ptes s') r' q = node ?P r' q" if "r' \<in> R - {r}" "path_ok q" "length q \<le> 3" for r' q
    by (rule node_cong [where R = R]) (use that same used_tablesI in auto)
  then have nodes: "is_node (ptes s') (R - {r}) r' p u \<longleftrightarrow> is_node ?P R r' p u \<and> r' \<noteq> r" for r' p u
    by (auto simp: is_node_def)
  have "forest (ptes s') (R - {r})" using ok(3) unfolding forest_def nodes by blast
  moreover have "table_ok s' u" if "u \<in> used_tables (ptes s') (R - {r})" for u
  proof -
    from that obtain r' p where u: "is_node ?P R r' p u" "r' \<noteq> r" by (auto simp: used_tables_def nodes)
    then have "u \<notin> own_tables ?P r" using own_tables_private [OF ok(3) r] by blast
    with sub own_tables_eq used_frames_inj [OF inv] used_tablesI [OF u(1)] have "frame_of u \<notin> frame_of ` own_tables ?P r" by blast
    with ok(5) [OF u(1)] free env bitmap_frames_env [OF env] show ?thesis by (auto simp: table_ok_def same_env_def)
  qed
  ultimately show "paging_inv s' (R - {r})" using frees_okD(1,2) [OF fl(1)] by (simp add: paging_inv_def)
  show "page_entry s' r' v = page_entry s r' v" if "r' \<in> R - {r}"
  proof (cases "node ?P r' (vpath v)")
    case None
    with walk [OF that, of "vpath v"] show ?thesis by (simp add: page_entry_def leaf_def)
  next
    case (Some u)
    with that have "u \<in> ?U" by (intro used_tablesI [of _ _ r' "vpath v"]) (simp add: is_node_def)
    with walk [OF that, of "vpath v"] same Some show ?thesis by (simp add: page_entry_def leaf_def)
  qed
  show "ptes s' r' i = ptes s r' i" if "r' \<in> R" "i < 512" using same roots_used that by blast
qed

end
