(* ===== verification/Example_State.thy ===== *)
theory Example_State
  imports Paging_Spaces
begin

text \<open>
  A small machine for the witnesses: 1024 frames behind a direct map at \<open>0xFFFF800000000000\<close>, the
  bitmap in frame 0, the root table of an address space in frame 1 and its 256 kernel-half tables
  in frames 256 to 511. All other frames are free and all memory not mentioned is zero.
\<close>

definition ex_hhdm :: u64 where
  "ex_hhdm = 0xFFFF800000000000"

definition ex_pml4 :: phys_addr_t where
  "ex_pml4 = 0x1000"

definition ex_entry :: "nat \<Rightarrow> u64" where
  "ex_entry i = (if 256 \<le> i \<and> i < 512 then of_nat i * PAGE_SIZE OR PAGE_PRESENT OR PAGE_WRITABLE else 0)"

definition ex_bitmap :: "nat \<Rightarrow> u8" where
  "ex_bitmap y = (if y = 0 then 3 else if 32 \<le> y \<and> y < 64 then 0xFF else 0)"

text \<open>Memory by physical address: the bitmap, the entries of the root table, zeros.\<close>

definition ex_byte :: "nat \<Rightarrow> u8" where
  "ex_byte n = (if n < 128 then ex_bitmap n
     else if 4096 \<le> n \<and> n < 8192 then ucast (drop_bit (8 * (n mod 8)) (ex_entry ((n - 4096) div 8)))
     else 0)"

definition ex_state :: vm_state where
  "ex_state = \<lparr>mem = (\<lambda>a. ex_byte (unat (a - ex_hhdm))), g_hhdm_offset = ex_hhdm,
     bitmap_start = ex_hhdm, bitmap_size = 128, total_frames = 1024, klog_calls = [],
     kernel_pml4_entries = map (\<lambda>i. ex_entry (i + 256)) [0..<256], cr3 = ex_pml4, efer = 0, tlb = Map.empty\<rparr>"

lemma ex_fields [simp]:
  "g_hhdm_offset ex_state = ex_hhdm" "bitmap_start ex_state = ex_hhdm" "bitmap_size ex_state = 128"
  "total_frames ex_state = 1024" "cr3 ex_state = ex_pml4" "klog_calls ex_state = []" "tlb ex_state = Map.empty"
  "kernel_pml4_entries ex_state = map (\<lambda>i. ex_entry (i + 256)) [0..<256]"
  "mem ex_state = (\<lambda>a. ex_byte (unat (a - ex_hhdm)))"
  by (simp_all add: ex_state_def)

section \<open>The bitmap\<close>

lemma ex_bitmap_byte: "y < 128 \<Longrightarrow> bitmap_byte ex_state y = ex_bitmap y"
  by (simp add: bitmap_byte_def ex_byte_def unat_of_nat_u64)

lemma ex_allocated: "f < 1024 \<Longrightarrow> frame_allocated ex_state f \<longleftrightarrow> f < 2 \<or> 256 \<le> f \<and> f < 512"
proof -
  assume f: "f < 1024"
  then have byte: "bitmap_byte ex_state (f div 8) = ex_bitmap (f div 8)"
    by (intro ex_bitmap_byte) simp
  have three: "bit (3 :: u8) k \<longleftrightarrow> k < 2" for k
  proof -
    have "(3 :: u8) = mask 2" by (simp add: mask_eq_exp_minus_1)
    then show ?thesis by (simp only: bit_mask_iff) auto
  qed
  have ones: "bit (0xFF :: u8) (f mod 8)" using byte_all_ones_iff [of "0xFF :: u8"] by simp
  consider "f div 8 = 0" | "32 \<le> f div 8 \<and> f div 8 < 64" | "0 < f div 8" "\<not> (32 \<le> f div 8 \<and> f div 8 < 64)" by linarith
  then show ?thesis
  proof cases
    case 1
    then have "f < 8" by simp
    with byte three [of f] show ?thesis by (auto simp: frame_allocated_def ex_bitmap_def)
  next
    case 2
    then have "256 \<le> f \<and> f < 512" by linarith
    with byte 2 ones show ?thesis by (simp add: frame_allocated_def ex_bitmap_def)
  next
    case 3
    then have "\<not> f < 2" "\<not> (256 \<le> f \<and> f < 512)" by linarith+
    with byte 3 show ?thesis by (simp add: frame_allocated_def ex_bitmap_def)
  qed
qed

lemma ex_free_frames: "free_frames ex_state = {2..<256} \<union> {512..<1024}"
  by (auto simp: free_frames_iff ex_allocated)

lemma ex_pmm_wf: "pmm_wf ex_state"
  by (simp add: pmm_wf_def)

lemma ex_card_free: "card (free_frames ex_state) = 766"
  unfolding ex_free_frames by (subst card_Un_disjoint) auto

lemma ex_bitmap_frames: "bitmap_frames ex_state = {0}"
  by (auto simp: bitmap_frames_def HHDM_VIRT_TO_PHYS_def frame_of_eq Let_def)

lemma ex_bitmap_ok: "bitmap_ok ex_state"
  by (simp add: bitmap_ok_def Let_def HHDM_VIRT_TO_PHYS_def ex_bitmap_frames ex_free_frames page_aligned_iff)

section \<open>The tables\<close>

lemma ex_ptes:
  assumes "IS_PAGE_ALIGNED t" and "t \<noteq> 0" and "i < 512"
  shows "ptes ex_state t i = (if t = ex_pml4 then ex_entry i else 0)"
proof (rule bit_word_eqI)
  fix k assume k: "k < LENGTH(64)"
  from assms(1) obtain j where j: "unat t = 4096 * j" by (auto simp: page_aligned_iff elim!: dvdE)
  have "j \<noteq> 0" using assms(2) j by (metis mult_0_right unat_eq_zero)
  have off: "8 * i + k div 8 < 4096" using assms(3) k by simp
  have "t + ex_hhdm + 8 * of_nat i + of_nat (k div 8) - ex_hhdm = t + of_nat (8 * i + k div 8)" by simp
  then have un: "unat (t + ex_hhdm + 8 * of_nat i + of_nat (k div 8) - ex_hhdm) = 4096 * j + (8 * i + k div 8)"
    using page_offset_unat [OF assms(1) off] j by simp
  have t1: "t = ex_pml4 \<longleftrightarrow> j = 1"
    using j by (simp add: word_unat_eq_iff ex_pml4_def)
  have "bit (ptes ex_state t i) k \<longleftrightarrow> bit (ex_byte (4096 * j + (8 * i + k div 8))) (k mod 8)"
    using k un by (simp add: ptes_def entry_get_def HHDM_PHYS_TO_VIRT_def load64_def bit_load_le)
  also have "\<dots> \<longleftrightarrow> bit (if t = ex_pml4 then ex_entry i else 0) k"
  proof (cases "j = 1")
    case True
    have "4096 * j + (8 * i + k div 8) = k div 8 + 8 * (512 + i)" "k div 8 < 8" using True k by simp_all
    then have m: "(4096 * j + (8 * i + k div 8)) mod 8 = k div 8" by (metis mod_less mod_mult_self2)
    have d: "(4096 * j + (8 * i + k div 8) - 4096) div 8 = i" using True k by simp
    have "ex_byte (4096 * j + (8 * i + k div 8)) = ucast (drop_bit (8 * (k div 8)) (ex_entry i))"
      unfolding ex_byte_def m d using True off by simp
    then show ?thesis using True t1 k by (simp add: bit_ucast_iff bit_drop_bit_eq)
  next
    case False
    with \<open>j \<noteq> 0\<close> have "2 \<le> j" by simp
    then have "8192 \<le> 4096 * j + (8 * i + k div 8)" by simp
    with False t1 show ?thesis by (simp add: ex_byte_def)
  qed
  finally show "bit (ptes ex_state t i) k = bit (if t = ex_pml4 then ex_entry i else 0) k" .
qed

lemma ex_pml4_aligned: "IS_PAGE_ALIGNED ex_pml4" "ex_pml4 \<noteq> 0" "frame_of ex_pml4 = 1"
  by (simp_all add: page_aligned_iff ex_pml4_def frame_of_eq)

lemma ex_entry_kernel:
  assumes "256 \<le> i" and "i < 512"
  shows "pte_present (ex_entry i)" and "pte_addr (ex_entry i) = frame_addr i"
proof -
  have fl: "upper_flags (PAGE_PRESENT OR PAGE_WRITABLE)" using intermediate_flags_ok [of False] by simp
  have i: "i < 2 ^ 52" "unat (frame_addr i) < 4503599627370496"
    using assms unat_frame_addr [of i] by simp_all
  have e: "ex_entry i = frame_addr i OR (PAGE_PRESENT OR PAGE_WRITABLE)"
    using assms by (simp add: ex_entry_def frame_addr_def)
  show "pte_present (ex_entry i)" unfolding e by (rule pte_or_flags [OF fl])
  show "pte_addr (ex_entry i) = frame_addr i"
    unfolding e pte_or_flags(2) [OF fl] by (rule pte_addr_frame [OF frame_addr_aligned [OF i(1)] i(2)])
qed

lemma ex_entry_user: "i < 256 \<Longrightarrow> \<not> pte_present (ex_entry i)"
  by (simp add: ex_entry_def pte_present_def)

lemma ex_root: "i < 512 \<Longrightarrow> ptes ex_state ex_pml4 i = ex_entry i"
  by (simp add: ex_ptes ex_pml4_aligned)

lemma ex_kernel_table: "256 \<le> i \<Longrightarrow> i < 512 \<Longrightarrow> j < 512 \<Longrightarrow> ptes ex_state (frame_addr i) j = 0"
proof -
  assume i: "256 \<le> i" "i < 512" "j < 512"
  then have "unat (frame_addr i) = i * 4096" by (simp add: unat_frame_addr)
  with i have "frame_addr i \<noteq> 0" "frame_addr i \<noteq> ex_pml4" by (auto simp: word_unat_eq_iff ex_pml4_def)
  with i show ?thesis by (simp add: ex_ptes)
qed

lemma ex_node:
  "path_ok q \<Longrightarrow> node (ptes ex_state) ex_pml4 q = (case q of [] \<Rightarrow> Some ex_pml4
     | [i] \<Rightarrow> if 256 \<le> i then Some (frame_addr i) else None | _ \<Rightarrow> None)"
proof -
  assume q: "path_ok q"
  show ?thesis
  proof (cases q)
    case (Cons i p)
    with q have i: "i < 512" by simp
    show ?thesis
    proof (cases "256 \<le> i")
      case True
      have "\<not> pte_present (ptes ex_state (frame_addr i) j)" if "j < 512" for j
        using ex_kernel_table [OF True i that] by (simp add: pte_present_def)
      then show ?thesis using Cons q i True by (auto simp: ex_root ex_entry_kernel split: list.split)
    next
      case False
      then show ?thesis using Cons i ex_entry_user [of i] by (auto simp: ex_root split: list.split)
    qed
  qed simp
qed

lemma ex_is_node:
  "is_node (ptes ex_state) {ex_pml4} r p t \<longleftrightarrow> r = ex_pml4 \<and>
    (p = [] \<and> t = ex_pml4 \<or> (\<exists>i. p = [i] \<and> 256 \<le> i \<and> i < 512 \<and> t = frame_addr i))"
proof (cases "path_ok p")
  case True
  then show ?thesis by (auto simp: is_node_def ex_node simp del: node.simps split: list.splits if_splits)
qed (auto simp: is_node_def)

lemma ex_table_frames:
  assumes "256 \<le> i" and "i < 512"
  shows "frame_of (frame_addr i) = i" and "frame_addr i \<noteq> ex_pml4"
proof -
  show "frame_of (frame_addr i) = i" using assms by simp
  then show "frame_addr i \<noteq> ex_pml4" using assms(1) ex_pml4_aligned(3) by auto
qed

lemma ex_forest: "forest (ptes ex_state) {ex_pml4}"
  unfolding forest_def ex_is_node
  using ex_table_frames by (auto dest: arg_cong [of _ _ frame_of] not_sym)

lemma ex_paging_inv: "paging_inv ex_state {ex_pml4}"
proof -
  have "table_ok ex_state t" if "is_node (ptes ex_state) {ex_pml4} r p t" for r p t
    using that ex_pml4_aligned
    by (auto simp: ex_is_node table_ok_def ex_free_frames ex_bitmap_frames ex_table_frames)
  then show ?thesis
    using ex_pmm_wf ex_bitmap_ok ex_forest by (auto simp: paging_inv_def used_tables_def)
qed

lemma ex_shared: "kernel_half_shared (ptes ex_state) {ex_pml4}"
  by (simp add: kernel_half_shared_def ex_root ex_entry_kernel)

lemma ex_kernel_entries: "kernel_entries_ok ex_state {ex_pml4}"
  by (simp add: kernel_entries_ok_def ex_root ex_entry_kernel)

lemma ex_unmapped: "page_entry ex_state ex_pml4 v = None"
proof -
  have "node (ptes ex_state) ex_pml4 (vpath v) = None"
    unfolding ex_node [OF vpath_ok(1)] by (simp add: vpath_def)
  then show ?thesis by (simp add: page_entry_def leaf_def)
qed

lemma ex_tlb_ok: "tlb_ok ex_state"
  by (simp add: tlb_ok_def)

end
