(* ===== verification/Pmm_Properties.thy ===== *)
theory Pmm_Properties
  imports Example_State
begin

text \<open>
  The properties of the physical memory manager (\<open>src/src/memory/pmm.c\<close>), each with an instance
  on a concrete machine, and the ownership of frames over whole runs of the manager.
\<close>

section \<open>Allocation\<close>

text \<open>C25: on a well-formed bitmap \<open>pmm_alloc_frame\<close> panics without touching the state exactly when
  no frame is free; otherwise it returns the address of the lowest free frame, marks that frame and
  changes nothing else.\<close>

theorem alloc_frame_lowest:
  assumes "pmm_wf s"
  shows "if free_frames s = {} then pmm_alloc_frame s = kpanic ''pmm_alloc_frame: out of memory'' [] s
    else \<exists>t. pmm_alloc_frame s = Inr (frame_addr (Min (free_frames s)), t) \<and> pmm_wf t
      \<and> free_frames t = free_frames s - {Min (free_frames s)} \<and> same_but_bitmap s t
      \<and> klog_calls t = klog_calls s"
proof (cases "free_frames s = {}")
  case True
  with assms show ?thesis by (simp add: pmm_alloc_frame_out_of_memory)
next
  case False
  with assms obtain p t where pt: "pmm_alloc_frame s = Inr (p, t)"
    using pmm.alloc_ok_iff by blast
  note e = pmm_alloc_frame_Inr [OF assms pt]
  from e(3,4) have "p = frame_addr (Min (free_frames s))" by simp
  with False pt e(1,2,4,6) pmm_alloc_frame_klog [OF assms pt] show ?thesis by simp
qed

theorem alloc_frame_lowest_witness:
  "\<exists>t. pmm_alloc_frame ex_state = Inr (0x2000, t) \<and> free_frames t = {3..<256} \<union> {512..<1024}"
proof -
  have "Min ({2..<256} \<union> {512..<1024 :: nat}) = 2" by (rule Min_eqI) auto
  moreover have "frame_addr 2 = 0x2000" by (simp add: frame_addr_def PAGE_SIZE_def)
  moreover have "{2..<256} \<union> {512..<1024} - {2 :: nat} = {3..<256} \<union> {512..<1024}" by auto
  ultimately show ?thesis
    using alloc_frame_lowest [OF ex_pmm_wf] by (auto simp: ex_free_frames)
qed

text \<open>C26: \<open>pmm_alloc_frames\<close> returns the lowest run of \<open>count\<close> free frames and marks exactly this
  run, and panics without touching the state when there is no such run.\<close>

theorem alloc_frames_lowest_run:
  assumes "pmm_wf s" and "count \<noteq> 0"
  shows "(\<exists>r t. pmm_alloc_frames count s = Inr (frame_addr r, t) \<and> {r..<r + unat count} \<subseteq> free_frames s
        \<and> (\<forall>a. {a..<a + unat count} \<subseteq> free_frames s \<longrightarrow> r \<le> a)
        \<and> free_frames t = free_frames s - {r..<r + unat count} \<and> pmm_wf t \<and> same_but_bitmap s t)
    \<or> (\<forall>a. \<not> {a..<a + unat count} \<subseteq> free_frames s) \<and> (\<exists>msg. pmm_alloc_frames count s = kpanic msg [] s)"
proof -
  have "0 < unat count" using assms(2) by (simp add: unat_gt_0)
  from pmm_alloc_frames_cases [OF assms(1) this] show ?thesis by (simp only: free_run_iff)
qed

theorem alloc_frames_lowest_run_witness:
  "\<exists>t. pmm_alloc_frames 300 ex_state = Inr (frame_addr 512, t) \<and> free_frames t = {2..<256} \<union> {812..<1024}"
proof -
  have run: "{a..<a + 300} \<subseteq> free_frames ex_state \<longleftrightarrow> 512 \<le> a \<and> a + 300 \<le> 1024" for a
  proof
    assume sub: "{a..<a + 300} \<subseteq> free_frames ex_state"
    have "a + 299 \<in> {a..<a + 300}" "a \<in> {a..<a + 300}" by auto
    with sub have "a + 299 \<in> free_frames ex_state" "a \<in> free_frames ex_state" by blast+
    then have "a + 299 < 1024" "a \<notin> {256..<512}" "2 \<le> a" by (auto simp: ex_free_frames)
    moreover have "\<not> a < 256"
    proof
      assume "a < 256"
      then have "256 \<in> {a..<a + 300}" using \<open>2 \<le> a\<close> by (cases "a + 300 \<le> 256") auto
      with sub have "256 \<in> free_frames ex_state" by blast
      then show False by (simp add: ex_free_frames)
    qed
    ultimately show "512 \<le> a \<and> a + 300 \<le> 1024" by auto
  qed (auto simp: ex_free_frames)
  have c: "unat (300 :: u64) = 300" "(300 :: u64) \<noteq> 0" by simp_all
  have some: "{512..<512 + 300} \<subseteq> free_frames ex_state" unfolding run by simp
  show ?thesis
    using alloc_frames_lowest_run [OF ex_pmm_wf c(2), unfolded c(1)]
  proof (elim disjE exE conjE)
    fix r t assume r: "pmm_alloc_frames 300 ex_state = Inr (frame_addr r, t)"
      "{r..<r + 300} \<subseteq> free_frames ex_state" "free_frames t = free_frames ex_state - {r..<r + 300}"
      and least: "\<forall>a. {a..<a + 300} \<subseteq> free_frames ex_state \<longrightarrow> r \<le> a"
    from r(2) least [rule_format, OF some] have "r = 512" unfolding run by simp
    moreover have "{2..<256} \<union> {512..<1024} - {512..<812 :: nat} = {2..<256} \<union> {812..<1024}" by auto
    ultimately show ?thesis using r(1,3) by (simp add: ex_free_frames)
  next
    assume none: "\<forall>a. \<not> {a..<a + 300} \<subseteq> free_frames ex_state"
    show ?thesis using none [THEN spec, of 512] some by (rule notE)
  qed
qed

section \<open>Freeing\<close>

text \<open>Freeing the frame that was just allocated gives back the bitmap's set of free frames and
  keeps the manager well formed.\<close>

theorem alloc_then_free:
  assumes "pmm_wf s" and "pmm_alloc_frame s = Inr (p, t)"
  shows "free_frames (pmm_free_frame p t) = free_frames s \<and> pmm_wf (pmm_free_frame p t)"
  by (rule pmm.alloc_release [OF assms])

theorem alloc_then_free_witness:
  "\<exists>p t. pmm_alloc_frame ex_state = Inr (p, t) \<and> free_frames (pmm_free_frame p t) = free_frames ex_state"
proof -
  have "free_frames ex_state \<noteq> {}" by (auto simp: ex_free_frames)
  then obtain p t where "pmm_alloc_frame ex_state = Inr (p, t)" using pmm.alloc_ok_iff [OF ex_pmm_wf] by blast
  with alloc_then_free [OF ex_pmm_wf this] show ?thesis by blast
qed

text \<open>C27: \<open>pmm_free_frame\<close> refuses an address that is not page aligned, a frame past the managed
  memory and a frame that is free already: it logs one message and changes nothing else.\<close>

theorem free_frame_refuses:
  assumes "\<not> IS_PAGE_ALIGNED p \<or> unat (total_frames s) \<le> frame_of p \<or> frame_of p \<in> free_frames s"
  shows "\<exists>lvl msg args. pmm_free_frame p s = s\<lparr>klog_calls := klog_calls s @ [(lvl, msg, args)]\<rparr>"
proof -
  have "\<not> (IS_PAGE_ALIGNED p \<and> frame_of p < unat (total_frames s)) \<or> frame_of p \<in> free_frames s"
    using assms by auto
  from pmm_free_frame_rejects [OF this] show ?thesis by (auto simp: klog_def)
qed

theorem free_frame_refuses_witness:
  "\<exists>lvl msg args. pmm_free_frame 0x5000 ex_state = ex_state\<lparr>klog_calls := [(lvl, msg, args)]\<rparr>"
  using free_frame_refuses [of "0x5000" ex_state] by (simp add: frame_of_eq ex_free_frames)

section \<open>Ownership\<close>

text \<open>
  A run of the manager by clients that free only frames they own: the state and the set of frames
  handed out and not yet given back.
\<close>

inductive pmm_step :: "'a mm_state_scheme \<times> nat set \<Rightarrow> 'a mm_state_scheme \<times> nat set \<Rightarrow> bool" where
  alloc: "pmm_alloc_frame s = Inr (p, t) \<Longrightarrow> pmm_step (s, own) (t, insert (frame_of p) own)"
| allocs: "count \<noteq> 0 \<Longrightarrow> pmm_alloc_frames count s = Inr (p, t) \<Longrightarrow>
    pmm_step (s, own) (t, own \<union> {frame_of p..<frame_of p + unat count})"
| free: "f \<in> own \<Longrightarrow> pmm_step (s, own) (pmm_free_frame (frame_addr f) s, own - {f})"
| frees: "{f..<f + unat count} \<subseteq> own \<Longrightarrow> f < 2 ^ 52 \<Longrightarrow>
    pmm_step (s, own) (pmm_free_frames (frame_addr f) count s, own - {f..<f + unat count})"

inductive pmm_reach :: "'a mm_state_scheme \<times> nat set \<Rightarrow> 'a mm_state_scheme \<times> nat set \<Rightarrow> bool" where
  start: "pmm_reach c c"
| step: "pmm_reach c c' \<Longrightarrow> pmm_step c' c'' \<Longrightarrow> pmm_reach c c''"

text \<open>What is handed out is disjoint from what is free, and nothing is lost.\<close>

definition owned_ok :: "nat set \<Rightarrow> 'a mm_state_scheme \<times> nat set \<Rightarrow> bool" where
  "owned_ok F c \<longleftrightarrow> (case c of (s, own) \<Rightarrow> pmm_wf s \<and> own \<subseteq> F \<and> free_frames s = F - own
     \<and> (\<forall>f\<in>F. f < unat (total_frames s)))"

lemma owned_okD:
  assumes "owned_ok F (s, own)"
  shows "pmm_wf s" and "own \<subseteq> F" and "free_frames s = F - own" and "f \<in> F \<Longrightarrow> f < unat (total_frames s)"
    and "f \<in> F \<Longrightarrow> f < 2 ^ 52"
  using assms pmm_wf_bound [of s] by (auto simp: owned_ok_def)

lemma allocs_owned_ok:
  assumes ok: "owned_ok F (s, own)" and c: "count \<noteq> 0" and res: "pmm_alloc_frames count s = Inr (p, t)"
  shows "owned_ok F (t, own \<union> {frame_of p..<frame_of p + unat count})"
proof -
  note d = owned_okD [OF ok]
  have pos: "0 < unat count" using c by (simp add: unat_gt_0)
  from pmm_alloc_frames_cases [OF d(1) pos] res obtain r where
    r: "p = frame_addr r" "{r..<r + unat count} \<subseteq> free_frames s" "pmm_wf t"
      "free_frames t = free_frames s - {r..<r + unat count}" "same_but_bitmap s t"
    by (auto simp: free_run_iff)
  have "r \<in> {r..<r + unat count}" using pos by simp
  with r(2) d(3,5) have "r < 2 ^ 52" by blast
  then have "frame_of p = r" using r(1) by simp
  with r d show ?thesis by (auto simp: owned_ok_def same_but_bitmap_fields)
qed

lemma frees_owned_ok:
  assumes ok: "owned_ok F (s, own)" and f: "{f..<f + unat count} \<subseteq> own" "f < 2 ^ 52"
  shows "owned_ok F (pmm_free_frames (frame_addr f) count s, own - {f..<f + unat count})"
proof (cases "unat count = 0")
  case True
  then show ?thesis using ok by (simp add: pmm_free_frames_def)
next
  case False
  note d = owned_okD [OF ok]
  have "f + unat count - 1 \<in> {f..<f + unat count}" using False by simp
  with f d(2) have "f + unat count - 1 \<in> F" by blast
  then have "f + unat count \<le> unat (total_frames s)" using d(4) False by fastforce
  with f(2) pmm_free_frames_effect [OF d(1), of "frame_addr f" "unat count"]
  have "pmm_wf (pmm_free_frames (frame_addr f) count s)"
    "same_but_bitmap s (pmm_free_frames (frame_addr f) count s)"
    "free_frames (pmm_free_frames (frame_addr f) count s) = free_frames s \<union> {f..<f + unat count}"
    by (simp_all add: pmm_free_frames_def)
  with d f show ?thesis by (auto simp: owned_ok_def same_but_bitmap_fields)
qed

lemma pmm_step_owned_ok: "owned_ok F c \<Longrightarrow> pmm_step c c' \<Longrightarrow> owned_ok F c'"
proof (cases c)
  fix s own assume ok: "owned_ok F c" and st: "pmm_step c c'" and c: "c = (s, own)"
  note d = owned_okD [OF ok [unfolded c]]
  from st [unfolded c] show ?thesis
  proof (cases rule: pmm_step.cases)
    case (alloc p t)
    from pmm_alloc_frame_Inr [OF d(1) alloc(2)] d alloc(1) show ?thesis
      by (auto simp: owned_ok_def same_but_bitmap_fields)
  next
    case (free f)
    with d have "f \<in> {f. f < unat (total_frames s)}" by auto
    from pmm.release [OF d(1) this] free d show ?thesis by (auto simp: owned_ok_def)
  next
    case (allocs count p t)
    with allocs_owned_ok ok c show ?thesis by blast
  next
    case (frees f count)
    with frees_owned_ok ok c show ?thesis by blast
  qed
qed

lemma pmm_reach_owned_ok: "pmm_reach c c' \<Longrightarrow> owned_ok F c \<Longrightarrow> owned_ok F c'"
  by (induction rule: pmm_reach.induct) (auto intro: pmm_step_owned_ok)

text \<open>C4: over every run from a well-formed manager in which clients give back only what they own,
  the owned frames and the free frames always partition the frames that were free at the start: a
  frame is never handed out twice and none is lost.\<close>

theorem pmm_ownership:
  assumes "pmm_wf s0" and "pmm_reach (s0, {}) (s, own)"
  shows "pmm_wf s \<and> own \<inter> free_frames s = {} \<and> own \<union> free_frames s = free_frames s0"
proof -
  have "owned_ok (free_frames s0) (s0, {})" using assms(1) by (auto simp: owned_ok_def free_frames_iff)
  from pmm_reach_owned_ok [OF assms(2) this] show ?thesis by (auto simp: owned_ok_def)
qed

theorem pmm_ownership_witness:
  "\<exists>p t. pmm_reach (ex_state, {}) (t, {frame_of p}) \<and> {frame_of p} \<inter> free_frames t = {}"
proof -
  have "free_frames ex_state \<noteq> {}" by (auto simp: ex_free_frames)
  then obtain p t where "pmm_alloc_frame ex_state = Inr (p, t)" using pmm.alloc_ok_iff [OF ex_pmm_wf] by blast
  from pmm_reach.step [OF pmm_reach.start pmm_step.alloc [OF this]]
  have "pmm_reach (ex_state, {}) (t, {frame_of p})" .
  with pmm_ownership [OF ex_pmm_wf this] show ?thesis by blast
qed

section \<open>Sizes and initialisation\<close>

text \<open>\<open>pmm_get_free_size\<close>, which counts bits byte by byte with shortcuts for full and empty
  bytes, is the number of free frames times the page size, without wrap-around.\<close>

theorem free_size_counts_frames:
  assumes "pmm_wf s"
  shows "unat (pmm_get_free_size s) = card (free_frames s) * 4096"
  by (rule pmm_get_free_size_eq [OF assms])

theorem free_size_counts_frames_witness: "unat (pmm_get_free_size ex_state) = 766 * 4096"
  using free_size_counts_frames [OF ex_pmm_wf] by (simp only: ex_card_free)

text \<open>C5: from a memory map as the boot protocol promises it, with a usable region that can hold the
  bitmap, \<open>pmm_init\<close> ends, and the manager is well formed with exactly the usable frames free,
  less those of the bitmap; no memory outside the bitmap is written.\<close>

theorem pmm_init_establishes:
  assumes "memmap_ok memmap" and "bitmap_region_exists memmap"
  shows "\<exists>t. pmm_init memmap hhdm s0 = Some (Inr ((), t)) \<and> pmm_wf t
    \<and> g_hhdm_offset t = hhdm \<and> total_frames t = init_total_frames memmap
    \<and> free_frames t = usable_frames memmap - bitmap_frames t
    \<and> (\<forall>a. unat (bitmap_size t) \<le> unat (a - bitmap_start t) \<longrightarrow> mem t a = mem s0 a)"
  using pmm_init_effect [OF assms, of hhdm s0] by blast

definition ex_memmap :: "limine_memmap_entry list" where
  "ex_memmap =
     [\<lparr>entry_base = 0, entry_length = 0x1000, entry_type = LIMINE_MEMMAP_RESERVED\<rparr>,
      \<lparr>entry_base = 0x1000, entry_length = 0x8000, entry_type = LIMINE_MEMMAP_USABLE\<rparr>]"

lemma ex_memmap_ok: "memmap_ok ex_memmap" "bitmap_region_exists ex_memmap"
  by (simp_all add: ex_memmap_def memmap_ok_def bitmap_region_exists_def is_counted_def is_usable_def
      init_bitmap_size_def init_total_frames_def bitmap_size_from_frames_def PAGE_COUNT_def PAGE_ALIGN_UP_def
      PAGE_MASK_def PAGE_SIZE_def page_aligned_iff LIMINE_MEMMAP_RESERVED_def LIMINE_MEMMAP_USABLE_def
      LIMINE_MEMMAP_FRAMEBUFFER_def LIMINE_MEMMAP_BAD_MEMORY_def)

theorem pmm_init_establishes_witness:
  "\<exists>t. pmm_init ex_memmap ex_hhdm ex_state = Some (Inr ((), t)) \<and> pmm_wf t
    \<and> free_frames t = usable_frames ex_memmap - bitmap_frames t"
  using pmm_init_establishes [OF ex_memmap_ok, of ex_hhdm ex_state] by blast

text \<open>When no usable region of the memory map can hold the bitmap, \<open>pmm_init\<close> panics.\<close>

theorem pmm_init_panics:
  assumes "\<not> bitmap_region_exists memmap"
  shows "\<exists>t. pmm_init memmap hhdm s0 = Some (kpanic ''pmm_init: No usable region found for bitmap'' [] t)"
  by (rule pmm_init_no_region [OF assms])

theorem pmm_init_panics_witness:
  "\<exists>t. pmm_init [] ex_hhdm ex_state = Some (kpanic ''pmm_init: No usable region found for bitmap'' [] t)"
  by (rule pmm_init_panics) (simp add: bitmap_region_exists_def)

end
