(* ===== verification/Vm_Machine.thy ===== *)
theory Vm_Machine
  imports Paging_Spaces
begin

text \<open>
  The operations of \<open>src/src/memory/paging.c\<close> and the processor's translation cache as one state
  machine: the kernel maps, unmaps, switches, creates and destroys address spaces in any order,
  and in between the processor caches and drops translations. The invariant of the machine holds
  in every state it reaches.
\<close>

section \<open>Steps\<close>

type_synonym 'a vm_config = "'a vm_state_scheme \<times> phys_addr_t set"

definition tlb_fill :: "u64 \<Rightarrow> u64 \<Rightarrow> 'a vm_state_scheme \<Rightarrow> 'a vm_state_scheme" where
  "tlb_fill a e s = s\<lparr>tlb := (tlb s)(a \<mapsto> e)\<rparr>"

definition tlb_evict :: "u64 \<Rightarrow> 'a vm_state_scheme \<Rightarrow> 'a vm_state_scheme" where
  "tlb_evict a s = s\<lparr>tlb := (tlb s)(a := None)\<rparr>"

inductive vm_step :: "'a vm_config \<Rightarrow> 'a vm_config \<Rightarrow> bool" where
  map: "r \<in> R \<Longrightarrow> canonical v \<Longrightarrow> IS_PAGE_ALIGNED v \<Longrightarrow> IS_PAGE_ALIGNED p \<Longrightarrow>
    (flags AND PAGE_GLOBAL \<noteq> 0 \<longrightarrow> kernel_half v) \<Longrightarrow>
    paging_map r v p flags s = Inr ((), s') \<Longrightarrow> vm_step (s, R) (s', R)"
| unmap: "r \<in> R \<Longrightarrow> canonical v \<Longrightarrow> IS_PAGE_ALIGNED v \<Longrightarrow> vm_step (s, R) (paging_unmap r v s, R)"
| switch: "r \<in> R \<Longrightarrow> vm_step (s, R) (paging_switch_pml4 r s, R)"
| create: "paging_create_pml4 s = Inr (n, s') \<Longrightarrow> vm_step (s, R) (s', insert n R)"
| destroy: "r \<in> R \<Longrightarrow> r \<noteq> cr3 s \<Longrightarrow> vm_step (s, R) (paging_destroy_pml4 r s, R - {r})"
| fill: "canonical a \<Longrightarrow> IS_PAGE_ALIGNED a \<Longrightarrow> page_entry s (cr3 s) a = Some e \<Longrightarrow>
    vm_step (s, R) (tlb_fill a e s, R)"
| evict: "vm_step (s, R) (tlb_evict a s, R)"

inductive vm_reach :: "'a vm_config \<Rightarrow> 'a vm_config \<Rightarrow> bool" where
  start: "vm_reach c c"
| step: "vm_reach c c' \<Longrightarrow> vm_step c' c'' \<Longrightarrow> vm_reach c c''"

inductive_cases vm_stepE: "vm_step (s, R) c"

section \<open>The invariant\<close>

text \<open>Pages mapped as global belong to the kernel half.\<close>

definition global_ok :: "'a vm_state_scheme \<Rightarrow> phys_addr_t set \<Rightarrow> bool" where
  "global_ok s R \<longleftrightarrow> (\<forall>r\<in>R. \<forall>v e. page_entry s r v = Some e \<longrightarrow> e AND PAGE_GLOBAL \<noteq> 0 \<longrightarrow> kernel_half v)"

definition vm_ok :: "'a vm_config \<Rightarrow> bool" where
  "vm_ok c \<longleftrightarrow> (case c of (s, R) \<Rightarrow> paging_inv s R \<and> kernel_half_shared (ptes s) R
     \<and> kernel_entries_ok s R \<and> cr3 s \<in> R \<and> tlb_ok s \<and> global_ok s R)"

lemma vm_okD:
  assumes "vm_ok (s, R)"
  shows "paging_inv s R" and "kernel_half_shared (ptes s) R" and "kernel_entries_ok s R"
    and "cr3 s \<in> R" and "tlb_ok s" and "global_ok s R"
  using assms by (auto simp: vm_ok_def)

lemma globals_cached: "vm_ok (s, R) \<Longrightarrow> globals_in_kernel_half s"
  using vm_okD [of s R] by (auto simp: globals_in_kernel_half_def global_ok_def tlb_ok_def)

lemma remaps_kernel_entries:
  assumes rm: "remaps R r v x s s'" and ok: "kernel_entries_ok s R" and shared: "kernel_half_shared (ptes s) R"
  shows "kernel_entries_ok s' R"
  unfolding kernel_entries_ok_def remapsD(4) [OF rm]
proof (intro ballI allI impI)
  fix q and i :: nat assume q: "q \<in> R" "i < 256"
  then have "i + 256 \<in> {256..<512}" by simp
  with q shared have "pte_present (ptes s q (i + 256))" unfolding kernel_half_shared_def by blast
  then have "pte_addr (ptes s' q (i + 256)) = pte_addr (ptes s q (i + 256))"
    using remapsD(10) [OF rm] q unfolding roots_kept_def by simp
  with ok q show "pte_present (kernel_pml4_entries s ! i)
      \<and> pte_addr (kernel_pml4_entries s ! i) = pte_addr (ptes s' q (i + 256))"
    by (simp add: kernel_entries_ok_def)
qed

lemma remaps_vm_ok:
  assumes ok: "vm_ok (s, R)" and rm: "remaps R r v x s s'" and tlb: "tlb_ok s'"
    and glob: "\<And>e. x = Some e \<Longrightarrow> e AND PAGE_GLOBAL \<noteq> 0 \<Longrightarrow> kernel_half v"
  shows "vm_ok (s', R)"
proof -
  note d = vm_okD [OF ok]
  have "kernel_half w" if "q \<in> R" "page_entry s' q w = Some e" "e AND PAGE_GLOBAL \<noteq> 0" for q w e
  proof (cases "sees r v q w")
    case True
    with that remapsD(2) [OF rm that(1), of w] have "kernel_half v" using glob by simp
    moreover have "bit w 47 = bit v 47" using True by (simp add: sees_def page_of_eq_iff)
    ultimately show ?thesis by (simp add: kernel_half_def)
  next
    case False
    with that remapsD(2) [OF rm that(1), of w] d(6) show ?thesis by (simp add: global_ok_def)
  qed
  then show ?thesis
    using remapsD [OF rm] d remaps_kernel_entries [OF rm d(3,2)] tlb by (auto simp: vm_ok_def global_ok_def)
qed

lemma global_flag: "IS_PAGE_ALIGNED p \<Longrightarrow> (p OR flags) AND PAGE_GLOBAL = 0 \<longleftrightarrow> flags AND PAGE_GLOBAL = 0"
proof -
  assume "IS_PAGE_ALIGNED p"
  then have "\<not> bit p 8" by (simp add: aligned_bits)
  moreover have "x AND PAGE_GLOBAL = 0 \<longleftrightarrow> \<not> bit x 8" for x :: u64
    unfolding PAGE_GLOBAL_def push_bit_eq_mult mult_1 by (rule and_exp_eq_0_iff_not_bit)
  ultimately show ?thesis by (simp add: bit_or_iff)
qed

lemma map_vm_ok:
  assumes ok: "vm_ok (s, R)" and r: "r \<in> R" and v: "canonical v" "IS_PAGE_ALIGNED v" "IS_PAGE_ALIGNED p"
    and glob: "flags AND PAGE_GLOBAL \<noteq> 0 \<longrightarrow> kernel_half v" and m: "paging_map r v p flags s = Inr ((), s')"
  shows "vm_ok (s', R)"
proof -
  note d = vm_okD [OF ok]
  have "spaces_ok s R r" using d(2) by simp
  note pre = d(1) r this v(2,3) m
  show ?thesis
    by (rule remaps_vm_ok [OF ok paging_map_effect(1) [OF pre] paging_map_tlb [OF pre v(1) d(4,5)]])
      (use glob global_flag [OF v(3)] in \<open>auto simp: leaf_value_def split: if_splits\<close>)
qed

lemma unmap_vm_ok:
  assumes ok: "vm_ok (s, R)" and r: "r \<in> R" and v: "canonical v" "IS_PAGE_ALIGNED v"
  shows "vm_ok (paging_unmap r v s, R)"
proof -
  note d = vm_okD [OF ok]
  have "spaces_ok s R r" using d(2) by simp
  note pre = d(1) r this v(2)
  show ?thesis
    by (rule remaps_vm_ok [OF ok paging_unmap_effect(1) [OF pre] paging_unmap_tlb [OF pre v(1) d(4,5)]]) simp
qed

text \<open>A change of the registers and the cache only.\<close>

lemma cpu_vm_ok:
  assumes "vm_ok (s, R)" and "same_mm s s'" and "kernel_pml4_entries s' = kernel_pml4_entries s"
    and "cr3 s' \<in> R" and "tlb_ok s'"
  shows "vm_ok (s', R)"
proof -
  note d = vm_okD [OF assms(1)] and eq = same_mm_eq [OF assms(2)]
  have "kernel_entries_ok s' R \<longleftrightarrow> kernel_entries_ok s R" "global_ok s' R \<longleftrightarrow> global_ok s R"
    unfolding kernel_entries_ok_def global_ok_def eq assms(3) by (rule refl)+
  with d assms show ?thesis by (simp add: vm_ok_def eq)
qed

lemma switch_vm_ok:
  assumes ok: "vm_ok (s, R)" and r: "r \<in> R"
  shows "vm_ok (paging_switch_pml4 r s, R)"
proof (rule cpu_vm_ok [OF ok])
  note d = vm_okD [OF ok]
  have sw: "paging_switch_pml4 r s = paging_switch_dir r s"
    using root_aligned [OF d(1) r] by (simp add: paging_switch_pml4_def)
  show "same_mm s (paging_switch_pml4 r s)" unfolding sw by simp
  show "kernel_pml4_entries (paging_switch_pml4 r s) = kernel_pml4_entries s" "cr3 (paging_switch_pml4 r s) \<in> R"
    unfolding sw using r by (simp_all add: paging_switch_dir_def)
  show "tlb_ok (paging_switch_pml4 r s)" by (rule paging_switch_tlb [OF d(1) r d(4,2,5) globals_cached [OF ok]])
qed

lemma create_vm_ok:
  assumes ok: "vm_ok (s, R)" and res: "paging_create_pml4 s = Inr (n, s')"
  shows "vm_ok (s', insert n R)"
proof -
  note d = vm_okD [OF ok]
  note c = paging_create_pml4_effect [OF d(1,2,4,3) res]
  note env = same_env_vm [OF c(3)]
  note e = create_entries [OF c(1)]
  have "tlb_ok s'" using d(4,5) e(1) [OF d(4)] by (simp add: tlb_ok_def env)
  moreover have "global_ok s' (insert n R)"
    using d(4,6) e by (auto simp: global_ok_def split: if_splits)
  ultimately show ?thesis
    using c(2) create_shared [OF c(1) d(3) env(1)] d(4) by (simp add: vm_ok_def env)
qed

lemma destroy_vm_ok:
  assumes ok: "vm_ok (s, R)" and r: "r \<in> R" "r \<noteq> cr3 s"
  shows "vm_ok (paging_destroy_pml4 r s, R - {r})"
proof -
  note d = vm_okD [OF ok]
  note e = paging_destroy_effect [OF d(1) r(1)]
  note env = same_env_vm [OF e(4)]
  have cr3: "cr3 s \<in> R - {r}" using d(4) r by auto
  have "kernel_half_shared (ptes (paging_destroy_pml4 r s)) (R - {r})"
    by (rule shared_cong [of "ptes s"])
      (use d(2) e(8) in \<open>auto simp: kernel_half_shared_def\<close>)
  moreover have "kernel_entries_ok (paging_destroy_pml4 r s) (R - {r})"
    unfolding kernel_entries_ok_def env
  proof (intro ballI allI impI)
    fix q and i :: nat assume "q \<in> R - {r}" "i < 256"
    then show "pte_present (kernel_pml4_entries s ! i) \<and> pte_addr (kernel_pml4_entries s ! i)
        = pte_addr (ptes (paging_destroy_pml4 r s) q (i + 256))"
      using d(3) e(8) [of q "i + 256"] by (auto simp: kernel_entries_ok_def)
  qed
  moreover have "tlb_ok (paging_destroy_pml4 r s)"
    using d(5) e(7) [OF cr3] by (simp add: tlb_ok_def env)
  moreover have "global_ok (paging_destroy_pml4 r s) (R - {r})"
    using d(6) e(7) by (auto simp: global_ok_def)
  ultimately show ?thesis using e(5) cr3 by (simp add: vm_ok_def env)
qed

lemma tlb_update_fields [simp]:
  "tlb (tlb_fill a e s) = (tlb s)(a \<mapsto> e)" "cr3 (tlb_fill a e s) = cr3 s"
  "kernel_pml4_entries (tlb_fill a e s) = kernel_pml4_entries s"
  "tlb (tlb_evict a s) = (tlb s)(a := None)" "cr3 (tlb_evict a s) = cr3 s"
  "kernel_pml4_entries (tlb_evict a s) = kernel_pml4_entries s"
  by (simp_all add: tlb_fill_def tlb_evict_def)

lemma tlb_update_vm_ok:
  assumes ok: "vm_ok (s, R)"
  shows "canonical a \<Longrightarrow> IS_PAGE_ALIGNED a \<Longrightarrow> page_entry s (cr3 s) a = Some e \<Longrightarrow> vm_ok (tlb_fill a e s, R)"
    and "vm_ok (tlb_evict a s, R)"
proof -
  have mm: "same_mm s (tlb_fill a e s)" "same_mm s (tlb_evict a s)"
    by (simp_all add: same_mm_def tlb_fill_def tlb_evict_def)
  note d = vm_okD [OF ok]
  show "vm_ok (tlb_fill a e s, R)" if "canonical a" "IS_PAGE_ALIGNED a" "page_entry s (cr3 s) a = Some e"
    by (rule cpu_vm_ok [OF ok mm(1)])
      (use d(4,5) that in \<open>auto simp: tlb_ok_def same_mm_eq [OF mm(1)]\<close>)
  show "vm_ok (tlb_evict a s, R)"
    by (rule cpu_vm_ok [OF ok mm(2)])
      (use d(4,5) in \<open>auto simp: tlb_ok_def same_mm_eq [OF mm(2)] split: if_splits\<close>)
qed

lemma vm_step_ok: "vm_ok c \<Longrightarrow> vm_step c c' \<Longrightarrow> vm_ok c'"
  by (cases c, cases c')
    (auto elim!: vm_stepE intro: map_vm_ok unmap_vm_ok switch_vm_ok create_vm_ok destroy_vm_ok tlb_update_vm_ok)

lemma vm_reach_ok: "vm_reach c c' \<Longrightarrow> vm_ok c \<Longrightarrow> vm_ok c'"
  by (induction rule: vm_reach.induct) (auto intro: vm_step_ok)

end
