(* ===== verification/Paging_Properties.thy ===== *)
theory Paging_Properties
  imports Vm_Machine Example_State
begin

text \<open>
  The properties of the paging code (\<open>src/src/memory/paging.c\<close>), each with an instance on a
  concrete machine.
\<close>

section \<open>Mapping and unmapping\<close>

text \<open>C1: with page-aligned addresses \<open>paging_map\<close> returns whenever three frames are free; it sets
  the entry of the page in the given address space, seen by all address spaces exactly for kernel
  addresses, leaves every other entry of every address space as it was, keeps the invariant, and
  warns exactly when it replaces a mapping.\<close>

theorem paging_map_correct:
  fixes s :: "'a vm_state_scheme"
  assumes "paging_inv s R" and "r \<in> R" and "kernel_half_shared (ptes s) R \<or> R = {r}"
    and "IS_PAGE_ALIGNED v" and "IS_PAGE_ALIGNED p" and "3 \<le> card (free_frames s)"
  shows "\<exists>s'. paging_map r v p flags s = Inr ((), s') \<and> paging_inv s' R
    \<and> (\<forall>r'\<in>R. \<forall>w. page_entry s' r' w =
         (if page_of w = page_of v \<and> (r' = r \<or> kernel_half v)
          then (if (p OR flags) AND PAGE_PRESENT \<noteq> 0 then Some (p OR flags) else None)
          else page_entry s r' w))
    \<and> (klog_calls s' = klog_calls s \<longleftrightarrow> page_entry s r v = None)"
proof -
  from paging_map_ok [OF assms(1,2,6)] obtain s' where s': "paging_map r v p flags s = Inr ((), s')" by blast
  note e = paging_map_effect [OF assms(1-5) s']
  from s' remapsD(1,2) [OF e(1)] e(4) show ?thesis
    by (intro exI [of _ s']) (auto simp: sees_def leaf_value_def pte_present_def split: option.split)
qed

definition ex_flags :: u64 where
  "ex_flags = PAGE_PRESENT OR PAGE_WRITABLE OR PAGE_USER"

lemma ex_map_args:
  "ex_pml4 \<in> {ex_pml4}" "kernel_half_shared (ptes ex_state) {ex_pml4} \<or> {ex_pml4} = {ex_pml4}"
  "IS_PAGE_ALIGNED (0x400000 :: u64)" "IS_PAGE_ALIGNED (0x5000 :: u64)" "3 \<le> card (free_frames ex_state)"
  by (simp_all add: page_aligned_iff ex_card_free)

lemma ex_leaf: "(0x5000 OR ex_flags) AND PAGE_PRESENT \<noteq> 0" "0x5000 OR ex_flags = 0x5007"
  by (simp_all add: ex_flags_def PAGE_PRESENT_def PAGE_WRITABLE_def PAGE_USER_def)

theorem paging_map_correct_witness:
  "\<exists>s'. paging_map ex_pml4 0x400000 0x5000 ex_flags ex_state = Inr ((), s')
    \<and> page_entry s' ex_pml4 0x400000 = Some 0x5007 \<and> page_entry s' ex_pml4 0x401000 = None"
proof -
  have "page_of 0x401000 \<noteq> page_of 0x400000" by (simp add: page_of_def)
  with paging_map_correct [OF ex_paging_inv ex_map_args, of ex_flags] ex_leaf show ?thesis
    by (auto simp: ex_unmapped)
qed

text \<open>C20: after a successful \<open>paging_map\<close> with the present flag and no address bits in the flags,
  \<open>paging_get_physical\<close> translates every address of the page to the frame plus the offset, and
  \<open>paging_is_mapped\<close> answers true.\<close>

theorem map_then_translate:
  fixes s :: "'a vm_state_scheme"
  assumes "paging_inv s R" and "r \<in> R" and "kernel_half_shared (ptes s) R \<or> R = {r}"
    and "IS_PAGE_ALIGNED v" and "IS_PAGE_ALIGNED p" and "unat p < 4503599627370496"
    and "flags AND PAGE_PRESENT \<noteq> 0" and "flags AND PHYS_ADDR_MASK = 0"
    and "paging_map r v p flags s = Inr ((), s')" and "page_of w = page_of v"
  shows "paging_get_physical r w s' = (p OR PAGE_OFFSET w, s') \<and> paging_is_mapped r w s' = (True, s')"
proof -
  note e = paging_map_effect [OF assms(1-5,9)]
  have fl: "upper_flags flags" using assms(7,8) by (simp add: upper_flags_def pte_present_def)
  have "page_entry s' r w = Some (p OR flags)"
    using remapsD(2) [OF e(1) assms(2), of w] assms(10) pte_or_flags(1) [OF fl, of p]
    by (simp add: sees_def leaf_value_def)
  with pte_or_flags(2) [OF fl, of p] pte_addr_frame [OF assms(5,6)] root_aligned [OF remapsD(1) [OF e(1)] assms(2)]
  show ?thesis by (simp add: paging_get_physical_eq paging_is_mapped_eq)
qed

theorem map_then_translate_witness:
  "\<exists>s'. paging_map ex_pml4 0x400000 0x5000 ex_flags ex_state = Inr ((), s')
    \<and> fst (paging_get_physical ex_pml4 0x400123 s') = 0x5123"
proof -
  obtain s' where s': "paging_map ex_pml4 0x400000 0x5000 ex_flags ex_state = Inr ((), s')"
    using paging_map_ok [OF ex_paging_inv ex_map_args(1,5)] by blast
  have "ex_flags AND PAGE_PRESENT \<noteq> 0" "ex_flags AND PHYS_ADDR_MASK = 0" "page_of 0x400123 = page_of 0x400000"
    "unat (0x5000 :: u64) < 4503599627370496" "0x5000 OR PAGE_OFFSET 0x400123 = (0x5123 :: u64)"
    by (simp_all add: ex_flags_def PAGE_PRESENT_def PAGE_WRITABLE_def PAGE_USER_def PHYS_ADDR_MASK_def
        page_of_def PAGE_OFFSET_def)
  with map_then_translate [OF ex_paging_inv ex_map_args(1-4) _ _ _ s'] s' show ?thesis by auto
qed

text \<open>C22: \<open>paging_unmap\<close> removes the entry of the page, for all address spaces where the page is a
  kernel page, changes no other entry and no frame's allocation, and warns exactly when there was
  nothing to remove.\<close>

theorem paging_unmap_correct:
  fixes s :: "'a vm_state_scheme"
  assumes "paging_inv s R" and "r \<in> R" and "kernel_half_shared (ptes s) R \<or> R = {r}" and "IS_PAGE_ALIGNED v"
  shows "paging_inv (paging_unmap r v s) R
    \<and> (\<forall>r'\<in>R. \<forall>w. page_entry (paging_unmap r v s) r' w =
         (if page_of w = page_of v \<and> (r' = r \<or> kernel_half v) then None else page_entry s r' w))
    \<and> free_frames (paging_unmap r v s) = free_frames s
    \<and> klog_calls (paging_unmap r v s) = klog_calls s @ (if page_entry s r v = None
        then [(klog_level_warn, ''paging_unmap: address 0x%p is not mapped'', [v])] else [])"
  using paging_unmap_effect [OF assms] remapsD(1,2) [OF paging_unmap_effect(1) [OF assms]]
  by (simp add: sees_def)

theorem paging_unmap_correct_witness:
  "klog_calls (paging_unmap ex_pml4 0x400000 ex_state) =
    [(klog_level_warn, ''paging_unmap: address 0x%p is not mapped'', [0x400000])]"
  using paging_unmap_correct [OF ex_paging_inv ex_map_args(1-3)] by (simp add: ex_unmapped)

text \<open>An address that is not page aligned makes \<open>paging_map\<close> log one error and change nothing.\<close>

theorem paging_map_rejects_unaligned:
  assumes "\<not> (IS_PAGE_ALIGNED r \<and> IS_PAGE_ALIGNED v \<and> IS_PAGE_ALIGNED p)"
  shows "\<exists>msg a. paging_map r v p flags s = Inr ((), s\<lparr>klog_calls := klog_calls s @ [(klog_level_error, msg, [a])]\<rparr>)"
  using paging_map_unaligned [OF assms, of flags s] by (simp add: klog_def)

theorem paging_map_rejects_unaligned_witness:
  "\<exists>msg a. paging_map ex_pml4 0x400001 0x5000 ex_flags ex_state =
    Inr ((), ex_state\<lparr>klog_calls := [(klog_level_error, msg, [a])]\<rparr>)"
  using paging_map_rejects_unaligned [of ex_pml4 "0x400001" "0x5000" ex_flags ex_state]
  by (simp add: page_aligned_iff)

section \<open>Ranges\<close>

text \<open>C21: \<open>paging_map_range\<close> returns whenever three frames are free per page; then page \<open>i\<close> of the
  range has the entry for frame \<open>i\<close> of the physical range, every entry outside the range is
  unchanged, and the invariant holds.\<close>

theorem paging_map_range_correct:
  fixes s :: "'a vm_state_scheme"
  assumes "paging_inv s R" and "r \<in> R" and "kernel_half_shared (ptes s) R \<or> R = {r}"
    and "IS_PAGE_ALIGNED v" and "IS_PAGE_ALIGNED p" and "3 * unat (PAGE_COUNT sz) \<le> card (free_frames s)"
    and "unat (PAGE_COUNT sz) \<le> 68719476736" and "flags AND PAGE_PRESENT \<noteq> 0"
  shows "\<exists>s'. paging_map_range r v p sz flags s = Inr ((), s') \<and> paging_inv s' R
    \<and> (\<forall>i<unat (PAGE_COUNT sz). page_entry s' r (v + of_nat i * PAGE_SIZE) = Some ((p + of_nat i * PAGE_SIZE) OR flags))
    \<and> (\<forall>r'\<in>R. \<forall>w. (\<forall>i<unat (PAGE_COUNT sz). page_of w \<noteq> page_of (v + of_nat i * PAGE_SIZE)) \<longrightarrow>
         page_entry s' r' w = page_entry s r' w)"
proof -
  have ok: "range_ok R r v p s" using assms(1-5) by (simp add: range_ok_def)
  from map_range_ok [OF ok assms(6)] obtain s' where s': "paging_map_range r v p sz flags s = Inr ((), s')" by blast
  note e = map_range_effect [OF ok s']
  have "leaf_value (x OR flags) = Some (x OR flags)" for x
    using assms(8) by (simp add: leaf_value_def pte_present_bit bit_or_iff flip: pte_present_def)
  with e(2) assms(7) have "page_entry s' r (v + of_nat i * PAGE_SIZE) = Some ((p + of_nat i * PAGE_SIZE) OR flags)"
    if "i < unat (PAGE_COUNT sz)" for i
    using that by (simp add: nth_page_def)
  moreover have "page_entry s' r' w = page_entry s r' w"
    if "r' \<in> R" "\<forall>i<unat (PAGE_COUNT sz). page_of w \<noteq> page_of (v + of_nat i * PAGE_SIZE)" for r' w
    by (rule e(3) [OF that(1)]) (use that(2) in \<open>simp add: sees_def nth_page_def\<close>)
  ultimately show ?thesis using s' e(1) by (auto simp: range_ok_def)
qed

theorem paging_map_range_correct_witness:
  "\<exists>s'. paging_map_range ex_pml4 0x400000 0x5000 0x1800 ex_flags ex_state = Inr ((), s')
    \<and> page_entry s' ex_pml4 0x401000 = Some 0x6007"
proof -
  have n: "unat (PAGE_COUNT 0x1800) = 2" by (simp add: PAGE_COUNT_def PAGE_ALIGN_UP_def PAGE_MASK_def PAGE_SIZE_def)
  have fl: "ex_flags AND PAGE_PRESENT \<noteq> 0"
    by (simp add: ex_flags_def PAGE_PRESENT_def PAGE_WRITABLE_def PAGE_USER_def)
  have eq: "(0x5000 + of_nat 1 * PAGE_SIZE) OR ex_flags = (0x6007 :: u64)" "0x400000 + of_nat 1 * PAGE_SIZE = (0x401000 :: u64)"
    by (simp_all add: ex_flags_def PAGE_PRESENT_def PAGE_WRITABLE_def PAGE_USER_def PAGE_SIZE_def)
  obtain s' where s': "paging_map_range ex_pml4 0x400000 0x5000 0x1800 ex_flags ex_state = Inr ((), s')"
    "\<forall>i<2. page_entry s' ex_pml4 (0x400000 + of_nat i * PAGE_SIZE) = Some ((0x5000 + of_nat i * PAGE_SIZE) OR ex_flags)"
    using paging_map_range_correct [OF ex_paging_inv ex_map_args(1-4), of "0x1800" ex_flags] fl
    unfolding n ex_card_free by auto
  from s'(2) [rule_format, of 1] have "page_entry s' ex_pml4 0x401000 = Some 0x6007" unfolding eq by simp
  with s'(1) show ?thesis by blast
qed

text \<open>\<open>paging_unmap_range\<close> removes exactly the entries of the pages of the range.\<close>

theorem paging_unmap_range_correct:
  fixes s :: "'a vm_state_scheme"
  assumes "paging_inv s R" and "r \<in> R" and "kernel_half_shared (ptes s) R \<or> R = {r}" and "IS_PAGE_ALIGNED v"
  shows "paging_inv (paging_unmap_range r v sz s) R
    \<and> (\<forall>r'\<in>R. \<forall>w. page_entry (paging_unmap_range r v sz s) r' w =
        (if \<exists>i<unat (PAGE_COUNT sz). page_of w = page_of (v + of_nat i * PAGE_SIZE)
            \<and> (r' = r \<or> kernel_half (v + of_nat i * PAGE_SIZE))
         then None else page_entry s r' w))"
proof -
  have ok: "range_ok R r v 0 s" using assms by (simp add: range_ok_def page_aligned_iff)
  show ?thesis
    using unmap_range_effect [OF ok, where sz = sz] by (simp add: range_ok_def sees_def nth_page_def)
qed

theorem paging_unmap_range_correct_witness:
  "page_entry (paging_unmap_range ex_pml4 0x400000 0x1800 ex_state) ex_pml4 0x400000 = None"
  using paging_unmap_range_correct [OF ex_paging_inv ex_map_args(1-3)] by (auto simp: ex_unmapped)

section \<open>Address spaces\<close>

text \<open>C23: \<open>paging_create_pml4\<close> returns a frame that was free as the root of a new address space: its
  user half is empty, its kernel half has the mappings of every other address space, and no other
  address space changes; the invariant and the sharing of the kernel half extend to it.\<close>

theorem paging_create_correct:
  fixes s :: "'a vm_state_scheme"
  assumes "paging_inv s R" and "kernel_half_shared (ptes s) R" and "r \<in> R" and "kernel_entries_ok s R"
    and "paging_create_pml4 s = Inr (n, s')"
  shows "n \<notin> R \<and> frame_of n \<in> free_frames s \<and> free_frames s' = free_frames s - {frame_of n}
    \<and> paging_inv s' (insert n R) \<and> kernel_half_shared (ptes s') (insert n R) \<and> kernel_entries_ok s' (insert n R)
    \<and> (\<forall>v. page_entry s' n v = (if kernel_half v then page_entry s r v else None))
    \<and> (\<forall>r'\<in>R. \<forall>v. page_entry s' r' v = page_entry s r' v)"
proof -
  note c = paging_create_pml4_effect [OF assms]
  have "n \<notin> R" using c(1) roots_used by (auto simp: new_root_def)
  then show ?thesis
    using c(2,4,5) create_entries [OF c(1)] create_shared [OF c(1) assms(4) same_env_vm(1) [OF c(3)]] by simp
qed

lemma ex_create: "\<exists>n s'. paging_create_pml4 ex_state = Inr (n, s')"
proof -
  have "free_frames ex_state \<noteq> {}" by (auto simp: ex_free_frames)
  then obtain p t where "pmm_alloc_frame ex_state = Inr (p, t)" using pmm.alloc_ok_iff [OF ex_pmm_wf] by blast
  then show ?thesis by (simp add: paging_create_pml4_def Let_def)
qed

theorem paging_create_correct_witness:
  "\<exists>n s'. paging_create_pml4 ex_state = Inr (n, s') \<and> n \<noteq> ex_pml4 \<and> page_entry s' n 0x400000 = None"
proof -
  obtain n s' where "paging_create_pml4 ex_state = Inr (n, s')" using ex_create by blast
  with paging_create_correct [OF ex_paging_inv ex_shared ex_map_args(1) ex_kernel_entries this] show ?thesis
    by (auto simp: ex_unmapped)
qed

text \<open>C3: \<open>paging_destroy_pml4\<close> gives back exactly the root and the tables of the user half, each once
  (no double free is reported), and leaves the mappings of all other address spaces intact.\<close>

theorem paging_destroy_correct:
  assumes "paging_inv s R" and "r \<in> R"
  shows "free_frames (paging_destroy_pml4 r s) = free_frames s \<union> frame_of ` own_tables (ptes s) r
    \<and> frame_of ` own_tables (ptes s) r \<inter> free_frames s = {}
    \<and> klog_calls (paging_destroy_pml4 r s) = klog_calls s
    \<and> paging_inv (paging_destroy_pml4 r s) (R - {r})
    \<and> (\<forall>r'\<in>R - {r}. \<forall>v. page_entry (paging_destroy_pml4 r s) r' v = page_entry s r' v)"
  using paging_destroy_effect [OF assms] by simp

theorem paging_destroy_correct_witness:
  "1 \<in> free_frames (paging_destroy_pml4 ex_pml4 ex_state)"
proof -
  have "ex_pml4 \<in> own_tables (ptes ex_state) ex_pml4" by (simp add: own_tables_eq)
  then have "1 \<in> frame_of ` own_tables (ptes ex_state) ex_pml4" using ex_pml4_aligned(3) by force
  with paging_destroy_correct [OF ex_paging_inv ex_map_args(1)] show ?thesis by blast
qed

text \<open>Creating an address space and destroying it again leaves the set of free frames and the
  mappings of all other address spaces as they were.\<close>

theorem create_then_destroy:
  fixes s :: "'a vm_state_scheme"
  assumes "paging_inv s R" and "kernel_half_shared (ptes s) R" and "r \<in> R" and "kernel_entries_ok s R"
    and "paging_create_pml4 s = Inr (n, s')"
  shows "free_frames (paging_destroy_pml4 n s') = free_frames s \<and> paging_inv (paging_destroy_pml4 n s') R
    \<and> (\<forall>r'\<in>R. \<forall>v. page_entry (paging_destroy_pml4 n s') r' v = page_entry s r' v)"
proof -
  note c = paging_create_pml4_effect [OF assms]
  have "n \<notin> R" using c(1) roots_used by (auto simp: new_root_def)
  then have R: "insert n R - {n} = R" by simp
  have own: "own_tables (ptes s') n = {n}"
  proof -
    have "node (ptes s') n q = (if q = [] then Some n else None)"
      if "path_ok q" "length q \<le> 3" "q = [] \<or> hd q < 256" for q
      using new_root_walk [OF c(1) that(1,2)] that(3) by auto
    then have "u \<in> own_tables (ptes s') n \<Longrightarrow> u = n" for u by (auto simp: own_tables_def split: if_splits)
    then show ?thesis by (auto simp: own_tables_eq simp del: below.simps)
  qed
  note d = paging_destroy_effect [OF c(2) insertI1]
  show ?thesis
    using d(1) [unfolded own] d(5) d(7) c(4,5) create_entries(1) [OF c(1)] by (auto simp: R)
qed

theorem create_then_destroy_witness:
  "\<exists>n s'. paging_create_pml4 ex_state = Inr (n, s') \<and> free_frames (paging_destroy_pml4 n s') = free_frames ex_state"
proof -
  obtain n s' where "paging_create_pml4 ex_state = Inr (n, s')" using ex_create by blast
  with create_then_destroy [OF ex_paging_inv ex_shared ex_map_args(1) ex_kernel_entries this] show ?thesis by blast
qed

section \<open>The state machine\<close>

lemma ex_vm_ok: "vm_ok (ex_state, {ex_pml4})"
  using ex_paging_inv ex_shared ex_kernel_entries ex_tlb_ok
  by (simp add: vm_ok_def global_ok_def ex_unmapped)



text \<open>C24: in every reachable state two different address spaces share no page table of their user
  halves: a walk of one never meets a user-half table of the other.\<close>

theorem vm_reachable_isolated:
  assumes "vm_ok (s0, R0)" and "vm_reach (s0, R0) (s, R)" and "r \<in> R" and "r' \<in> R" and "r \<noteq> r'"
  shows "own_tables (ptes s) r \<inter> own_tables (ptes s) r' = {}"
proof -
  from vm_reach_ok [OF assms(2,1)] have ok: "forest (ptes s) R" using vm_okD(1) paging_invD(3) by blast
  show ?thesis
  proof (rule ccontr)
    assume "own_tables (ptes s) r \<inter> own_tables (ptes s) r' \<noteq> {}"
    then obtain u where u: "u \<in> own_tables (ptes s) r" "u \<in> own_tables (ptes s) r'" by blast
    from u(2) assms(4) obtain p where "is_node (ptes s) R r' p u" by (auto simp: own_tables_def is_node_def)
    with own_tables_private [OF ok assms(3) u(1)] assms(5) show False by blast
  qed
qed

theorem vm_reachable_isolated_witness:
  "\<exists>n s'. paging_create_pml4 ex_state = Inr (n, s') \<and> own_tables (ptes s') ex_pml4 \<inter> own_tables (ptes s') n = {}"
proof -
  obtain n s' where c: "paging_create_pml4 ex_state = Inr (n, s')" using ex_create by blast
  from vm_reach.step [OF vm_reach.start vm_step.create [OF c]]
  have reach: "vm_reach (ex_state, {ex_pml4}) (s', insert n {ex_pml4})" .
  have "n \<notin> {ex_pml4}"
    using paging_create_pml4_effect(1) [OF ex_paging_inv ex_shared ex_map_args(1) ex_kernel_entries c]
      roots_used [of ex_pml4 "{ex_pml4}"] by (auto simp: new_root_def)
  then have "ex_pml4 \<noteq> n" by auto
  from vm_reachable_isolated [OF ex_vm_ok reach _ _ this] c show ?thesis by auto
qed

end
