(* ===== verification/Paging_Init.thy ===== *)
theory Paging_Init
  imports Vm_Machine
begin

text \<open>
  \<open>paging_init\<close> of \<open>src/src/memory/paging.c\<close>: how many frames the page tables of a range take, so that
  mapping all of physical memory succeeds in the memory that is free, and the address space that the
  kernel starts with.
\<close>

section \<open>Frames taken by a page\<close>

text \<open>One level takes a frame only where the table is missing.\<close>

lemma next_table_cost:
  fixes s :: "'a vm_state_scheme"
  assumes inv: "paging_inv s R" and t: "is_node (ptes s) R r p t" "length p \<le> 2" and i: "unat i < 512" and fl: "upper_flags fl"
    and cost: "pte_present (ptes s t (unat i)) \<or> k = 1" and room: "k \<le> card (free_frames s)"
  shows "\<exists>c s'. paging_next_table t i fl s = Inr (c, s') \<and> grows R s s' \<and> is_node (ptes s') R r (p @ [unat i]) c
    \<and> card (free_frames s) \<le> card (free_frames s') + k"
proof (cases "pte_present (ptes s t (unat i))")
  case True
  let ?s' = "entry_set t i (ptes s t (unat i) OR fl) s"
  have r: "paging_next_table t i fl s = Inr (pte_addr (ptes ?s' t (unat i)), ?s')"
    using True by (simp add: paging_next_table_def Let_def ptes_def pte_present_def pte_addr_def)
  have "free_frames ?s' = free_frames s"
    using present_entry_grows(3) [OF inv t i True fl] by simp
  with r next_table_index(1,2) [OF inv t i fl r] show ?thesis by auto
next
  case False
  with cost room have "k = 1" "free_frames s \<noteq> {}" by auto
  then obtain c s' where r: "paging_next_table t i fl s = Inr (c, s')"
    using next_table_ok [OF paging_invD(1) [OF inv]] by blast
  with \<open>k = 1\<close> next_table_index [OF inv t i fl r] show ?thesis by auto
qed

lemma map_tables_cost:
  fixes s :: "'a vm_state_scheme"
  assumes inv: "paging_inv s R" and r: "r \<in> R" and fl: "upper_flags fl"
    and top: "pte_present (ptes s r (unat (PML4_INDEX v)))"
    and cost: "node (ptes s) r (vpath v) \<noteq> None \<or> k = 1" and free: "2 * k \<le> card (free_frames s)"
  shows "\<exists>t s'. map_tables r v fl s = Inr (t, s') \<and> card (free_frames s) \<le> card (free_frames s') + 2 * k"
proof -
  have idx: "unat (PML4_INDEX v) < 512" "unat (PDPT_INDEX v) < 512" "unat (PD_INDEX v) < 512"
    using vpath_ok(1) [of v] by (simp_all add: vpath_def)
  have n0: "is_node (ptes s) R r [] r" using r by (simp add: is_node_def)
  from next_table_cost [OF inv n0 _ idx(1) fl disjI1 [OF top], of 0] obtain a s1
    where 1: "paging_next_table r (PML4_INDEX v) fl s = Inr (a, s1)" "grows R s s1"
      "is_node (ptes s1) R r [unat (PML4_INDEX v)] a" "card (free_frames s) \<le> card (free_frames s1)" by auto
  have there: "pte_present (ptes u b (unat j)) \<or> k = 1"
    if "grows R s u" "is_node (ptes u) R r q b" "vpath v = q @ unat j # q'" for u q b j q'
  proof (cases "k = 1")
    case False
    with cost obtain t where "node (ptes s) r (vpath v) = Some t" by blast
    then have "is_node (ptes s) R r (vpath v) t" using r by (simp add: is_node_def)
    from growsD(5) [OF that(1) this] have "node (ptes u) r (q @ unat j # q') = Some t" unfolding that(3) by (simp add: is_node_def)
    moreover have "node (ptes u) r q = Some b" using that(2) by (simp add: is_node_def)
    ultimately show ?thesis by (auto simp: node_append split: if_splits)
  qed simp
  have "pte_present (ptes s1 a (unat (PDPT_INDEX v))) \<or> k = 1"
    using there [OF 1(2,3), of "PDPT_INDEX v"] by (auto simp: vpath_def)
  from next_table_cost [OF growsD(1) [OF 1(2)] 1(3) _ idx(2) fl this] obtain b s2
    where 2: "paging_next_table a (PDPT_INDEX v) fl s1 = Inr (b, s2)" "grows R s1 s2"
      "is_node (ptes s2) R r [unat (PML4_INDEX v), unat (PDPT_INDEX v)] b" "card (free_frames s1) \<le> card (free_frames s2) + k"
    using free 1(4) by auto
  have "pte_present (ptes s2 b (unat (PD_INDEX v))) \<or> k = 1"
    using there [OF grows_trans [OF 1(2) 2(2)] 2(3), of "PD_INDEX v"] by (auto simp: vpath_def)
  from next_table_cost [OF growsD(1) [OF 2(2)] 2(3) _ idx(3) fl this] obtain t s3
    where 3: "paging_next_table b (PD_INDEX v) fl s2 = Inr (t, s3)" "card (free_frames s2) \<le> card (free_frames s3) + k"
    using free 1(4) 2(4) by auto
  have "card (free_frames s) \<le> card (free_frames s3) + 2 * k" using 1(4) 2(4) 3(2) by simp
  then show ?thesis using 1(1) 2(1) 3(1) by (simp add: map_tables_def)
qed

lemma paging_map_cost:
  fixes s :: "'a vm_state_scheme"
  assumes "paging_inv s R" and "r \<in> R" and "IS_PAGE_ALIGNED v" and "IS_PAGE_ALIGNED p"
    and "pte_present (ptes s r (unat (PML4_INDEX v)))"
    and "node (ptes s) r (vpath v) \<noteq> None \<or> k = 1" and "2 * k \<le> card (free_frames s)" and "spaces_ok s R r"
  shows "\<exists>s'. paging_map r v p flags s = Inr ((), s') \<and> card (free_frames s) \<le> card (free_frames s') + 2 * k"
proof -
  from map_tables_cost [OF assms(1,2) map_flags_ok assms(5-7)] obtain t s'
    where t: "map_tables r v (map_flags flags) s = Inr (t, s')" "card (free_frames s) \<le> card (free_frames s') + 2 * k" by blast
  note m = map_tables_effect [OF assms(1,2) map_flags_ok t(1)]
  have "spaces_ok s' R r" using growsD(7) [OF m(1)] assms(8) by blast
  from map_leaf_effect(2) [OF growsD(1) [OF m(1)] m(2) assms(2) this] t show ?thesis
    by (simp add: paging_map_eq [OF root_aligned [OF assms(1,2)] assms(3,4)])
qed

section \<open>Frames taken by a range\<close>

text \<open>A range of pages at the top of the address space, where all canonical addresses of the kernel half are.\<close>

definition high_range :: "u64 \<Rightarrow> nat \<Rightarrow> bool" where
  "high_range v n \<longleftrightarrow> IS_PAGE_ALIGNED v \<and> 0xffff800000000000 \<le> unat v \<and> unat v + 4096 * n \<le> 18446744073709551616"

lemma high_range_page:
  assumes "high_range v n" and "i < n"
  shows "unat (nth_page v i) = unat v + 4096 * i" and "0xffff800000000000 \<le> unat (nth_page v i)"
proof -
  have al: "IS_PAGE_ALIGNED v" using assms(1) by (simp add: high_range_def)
  obtain k where k: "unat v = 4096 * k" using al by (auto simp: page_aligned_iff elim!: dvdE)
  have "4096 * (k + i) < 4096 * 4503599627370496" using assms k by (simp add: high_range_def)
  then have "k + i < 4503599627370496" by (simp only: nat_mult_less_cancel1)
  then show "unat (nth_page v i) = unat v + 4096 * i" by (simp add: unat_nth_page [OF al] k)
  then show "0xffff800000000000 \<le> unat (nth_page v i)" using assms(1) by (simp add: high_range_def)
qed

lemma high_bits:
  assumes "0xffff800000000000 \<le> unat (a :: u64)" and "47 \<le> k" and "k < 64"
  shows "bit a k"
proof -
  define m where "m = 18446744073709551615 - unat a"
  have m: "m < 2 ^ 47" using assms(1) by (simp add: m_def)
  have "unat (NOT a) = m"
  proof -
    have "NOT a = - 1 - a" by (simp add: not_eq_complement)
    then have "unat (NOT a) = unat (- 1 - a)" by simp
    also have "\<dots> = unat (- 1 :: u64) - unat a"
      by (rule unat_sub) (simp add: word_order.extremum)
    finally show ?thesis by (simp add: m_def unsigned_minus_1_eq_mask mask_eq_exp_minus_1)
  qed
  moreover have "m < 2 ^ k" using m assms(2) by (meson order_less_le_trans one_le_numeral power_increasing)
  then have "\<not> bit m k" by (simp add: bit_iff_odd)
  ultimately have "\<not> bit (unat (NOT a)) k" by simp
  then have "\<not> bit (NOT a) k" by (simp only: bit_unsigned_iff) simp
  then show ?thesis using assms(3) by (simp add: bit_not_iff)
qed

lemma high_kernel_half: "0xffff800000000000 \<le> unat a \<Longrightarrow> kernel_half a \<and> canonical a"
  using high_bits [of a] by (simp add: kernel_half_def canonical_def list_all_iff)

text \<open>Pages with the same higher bits have the same page table.\<close>

lemma vpath_block:
  assumes "unat v div 2097152 = unat w div 2097152"
  shows "vpath v = vpath w"
proof -
  have "bit v k = bit w k" if "21 \<le> k" for k
  proof -
    have b: "bit x k = odd (unat x div 2097152 div 2 ^ (k - 21))" for x :: u64
    proof -
      have "bit x k = bit (unat x) k" by (simp add: bit_unsigned_iff)
      also have "\<dots> = odd (unat x div 2 ^ (21 + (k - 21)))" using that by (simp add: bit_iff_odd)
      also have "\<dots> = odd (unat x div 2097152 div 2 ^ (k - 21))" unfolding power_add div_mult2_eq by simp
      finally show ?thesis .
    qed
    show ?thesis unfolding b assms ..
  qed
  then show ?thesis
    by (simp add: vpath_def PML4_INDEX_def PDPT_INDEX_def PD_INDEX_def index_take_bit field_eq_iff flip: word_unat_eq_iff)
qed

definition tables_of :: "u64 \<Rightarrow> nat \<Rightarrow> nat" where
  "tables_of v n = (if n = 0 then 0 else (unat v div 4096 + n - 1) div 512 - unat v div 4096 div 512 + 1)"

lemma tables_of_bound: "tables_of v n \<le> n div 512 + 2"
proof -
  have "(a + b) div 512 \<le> a div 512 + b div 512 + 1" for a b :: nat
  proof -
    have "a mod 512 + b mod 512 < 512 * 2" by (rule order_less_le_trans [OF add_strict_mono [of _ 512 _ 512]]) simp_all
    then have "(a mod 512 + b mod 512) div 512 < 2" by (simp only: less_mult_imp_div_less mult.commute)
    then show ?thesis unfolding div_add1_eq [of a b] by linarith
  qed
  from this [of "unat v div 4096" "n - 1"] have "(unat v div 4096 + n - 1) div 512 \<le> unat v div 4096 div 512 + (n - 1) div 512 + 1"
    if "n \<noteq> 0" using that by simp
  moreover have "(n - 1) div 512 \<le> n div 512" by (rule div_le_mono) simp
  ultimately show ?thesis unfolding tables_of_def by (cases "n = 0") (simp_all, linarith)
qed

lemma tables_of_step:
  assumes "IS_PAGE_ALIGNED v" and "high_range v (Suc n)" and "0 < n"
  shows "tables_of v (Suc n) = tables_of v n \<and> vpath (nth_page v n) = vpath (nth_page v (n - 1))
    \<or> tables_of v (Suc n) = tables_of v n + 1"
proof -
  obtain k where k: "unat v = 4096 * k" using assms(1) by (auto simp: page_aligned_iff elim!: dvdE)
  have p: "unat (nth_page v n) div 2097152 = (k + n) div 512" "unat (nth_page v (n - 1)) div 2097152 = (k + n - 1) div 512"
  proof -
    have two: "4096 * m div 2097152 = m div 512" for m :: nat using div_mult_mult1 [of 4096 m 512] by simp
    have "unat (nth_page v n) = 4096 * (k + n)" "unat (nth_page v (n - 1)) = 4096 * (k + n - 1)"
      using high_range_page(1) [OF assms(2)] assms(3) by (simp_all add: k diff_mult_distrib2)
    then show "unat (nth_page v n) div 2097152 = (k + n) div 512" "unat (nth_page v (n - 1)) div 2097152 = (k + n - 1) div 512"
      by (simp_all only: two)
  qed
  consider "(k + n) div 512 = (k + n - 1) div 512" | "(k + n) div 512 = Suc ((k + n - 1) div 512)"
    using div_Suc [of "k + n - 1" 512] assms(3) by (auto split: if_splits)
  then show ?thesis
  proof cases
    case 1
    then have "vpath (nth_page v n) = vpath (nth_page v (n - 1))" by (intro vpath_block) (simp only: p)
    with 1 assms(3) show ?thesis by (simp add: tables_of_def k)
  next
    case 2
    moreover have "k div 512 \<le> (k + n - 1) div 512" using assms(3) by (intro div_le_mono) simp
    ultimately show ?thesis using assms(3) by (simp add: tables_of_def k Suc_diff_le)
  qed
qed

definition kernel_tops :: "'a mm_state_scheme \<Rightarrow> phys_addr_t \<Rightarrow> bool" where
  "kernel_tops s r \<longleftrightarrow> (\<forall>i. 256 \<le> i \<longrightarrow> i < 512 \<longrightarrow> pte_present (ptes s r i))"

lemma kernel_tops_kept: "kernel_tops s r \<Longrightarrow> roots_kept R s s' \<Longrightarrow> r \<in> R \<Longrightarrow> kernel_tops s' r"
  by (simp add: kernel_tops_def roots_kept_def)

lemma kernel_top:
  assumes "kernel_tops s r" and "kernel_half v"
  shows "pte_present (ptes s r (unat (PML4_INDEX v)))"
proof -
  have "256 \<le> unat (PML4_INDEX v)" using assms(2) kernel_half_iff [of v] by (simp add: vpath_def)
  moreover have "unat (PML4_INDEX v) < 512" using vpath_ok(1) [of v] by (simp add: vpath_def)
  ultimately show ?thesis using assms(1) by (simp add: kernel_tops_def)
qed

lemma map_run_cost:
  fixes s :: "'a vm_state_scheme"
  assumes ok: "range_ok R r v p s" and tops: "kernel_tops s r" and present: "pte_present flags"
  shows "high_range v n \<Longrightarrow> 2 * tables_of v n \<le> card (free_frames s) \<Longrightarrow>
    \<exists>s'. run (\<lambda>i s s'. paging_map r (nth_page v i) (nth_page p i) flags s = Inr ((), s')) [0..<n] s s'
    \<and> card (free_frames s) \<le> card (free_frames s') + 2 * tables_of v n \<and> kernel_tops s' r
    \<and> (0 < n \<longrightarrow> node (ptes s') r (vpath (nth_page v (n - 1))) \<noteq> None)"
proof (induction n)
  case 0
  then show ?case using tops by (simp add: tables_of_def)
next
  case (Suc n)
  note hi = Suc.prems(1)
  have hi': "high_range v n" and al: "IS_PAGE_ALIGNED v" using hi by (simp_all add: high_range_def)
  have mono: "tables_of v n \<le> tables_of v (Suc n)"
    using tables_of_step [OF al hi] by (cases "n = 0") (auto simp: tables_of_def split: if_splits)
  then obtain u where u: "run (\<lambda>i s s'. paging_map r (nth_page v i) (nth_page p i) flags s = Inr ((), s')) [0..<n] s u"
    "card (free_frames s) \<le> card (free_frames u) + 2 * tables_of v n" "kernel_tops u r"
    "0 < n \<longrightarrow> node (ptes u) r (vpath (nth_page v (n - 1))) \<noteq> None" using Suc hi' by fastforce
  have "range_ok R r v p u" by (rule mapr.run_inv [OF ok u(1)])
  then have ok': "paging_inv u R" "r \<in> R" "spaces_ok u R r" "IS_PAGE_ALIGNED (nth_page v n)" "IS_PAGE_ALIGNED (nth_page p n)"
    by (auto simp: range_ok_def nth_page_aligned)
  define k where "k = tables_of v (Suc n) - tables_of v n"
  have k: "tables_of v (Suc n) = tables_of v n + k" using mono by (simp add: k_def)
  have cost: "node (ptes u) r (vpath (nth_page v n)) \<noteq> None \<or> k = 1"
  proof (cases "n = 0")
    case True
    then show ?thesis by (simp add: k_def tables_of_def)
  next
    case False
    then show ?thesis using tables_of_step [OF al hi] u(4) k by (auto split: if_splits)
  qed
  have "kernel_half (nth_page v n)" using high_kernel_half high_range_page(2) [OF hi, of n] by simp
  from paging_map_cost [OF ok'(1,2,4,5) kernel_top [OF u(3) this] cost _ ok'(3), of flags] u(2) Suc.prems(2) k
  obtain s' where s': "paging_map r (nth_page v n) (nth_page p n) flags u = Inr ((), s')"
    "card (free_frames u) \<le> card (free_frames s') + 2 * k" by auto
  note rm = paging_map_effect(1) [OF ok'(1,2,3,4,5) s'(1)]
  have "pte_present (nth_page p n OR flags)" using present by (simp add: pte_present_bit bit_or_iff)
  then have "page_entry s' r (nth_page v n) \<noteq> None" using remapsD(2) [OF rm ok'(2)] by (simp add: sees_def leaf_value_def)
  then have "node (ptes s') r (vpath (nth_page v n)) \<noteq> None" by (auto simp: page_entry_def leaf_def split: option.splits)
  moreover have "kernel_tops s' r" by (rule kernel_tops_kept [OF u(3) remapsD(10) [OF rm] ok'(2)])
  ultimately show ?case using u(1,2) s' k by (intro exI [of _ s']) (auto simp: run_snoc)
qed

section \<open>The state while the kernel builds its address space\<close>

text \<open>
  No translation that the processor still has from the boot loader is global, so that the change of
  the address space drops them all.
\<close>

definition local_tlb :: "'a vm_state_scheme \<Rightarrow> bool" where
  "local_tlb s \<longleftrightarrow> (\<forall>a e. tlb s a = Some e \<longrightarrow> e AND PAGE_GLOBAL = 0)"

definition building :: "phys_addr_t \<Rightarrow> 'a vm_state_scheme \<Rightarrow> 'a vm_state_scheme \<Rightarrow> bool" where
  "building r s0 s \<longleftrightarrow> paging_inv s {r} \<and> total_frames s = total_frames s0 \<and> g_hhdm_offset s = g_hhdm_offset s0
     \<and> bitmap_start s = bitmap_start s0 \<and> bitmap_size s = bitmap_size s0 \<and> local_tlb s"

lemma run_keeps: "run step is s s' \<Longrightarrow> I s \<Longrightarrow> (\<And>i s s'. i \<in> set is \<Longrightarrow> I s \<Longrightarrow> step i s s' \<Longrightarrow> I s') \<Longrightarrow> I s'"
  by (induction "is" arbitrary: s) auto

lemma building_map:
  assumes "building r s0 s" and "IS_PAGE_ALIGNED v" and "IS_PAGE_ALIGNED p" and "paging_map r v p flags s = Inr ((), s')"
  shows "building r s0 s'"
proof -
  have inv: "paging_inv s {r}" "r \<in> {r}" "spaces_ok s {r} r" using assms(1) by (simp_all add: building_def)
  note e = paging_map_effect(1,2) [OF inv assms(2-4)]
  show ?thesis using assms(1) remapsD [OF e(1)] e(2) by (auto simp: building_def local_tlb_def split: if_splits)
qed

lemma range_count:
  assumes "high_range v n"
  shows "n \<le> 68719476736"
  using assms by (simp add: high_range_def)

text \<open>A range of the kernel half, mapped page by page, takes only the frames of its tables.\<close>

lemma map_range_high:
  fixes s :: "'a vm_state_scheme"
  assumes ok: "range_ok R r v p s" and tops: "kernel_tops s r" and n: "unat (PAGE_COUNT sz) = n" and hi: "high_range v n"
    and fl: "pte_present flags" and free: "2 * tables_of v n \<le> card (free_frames s)"
  shows "\<exists>s'. paging_map_range r v p sz flags s = Inr ((), s')
    \<and> run (\<lambda>i s s'. paging_map r (nth_page v i) (nth_page p i) flags s = Inr ((), s')) [0..<n] s s' \<and> kernel_tops s' r
    \<and> card (free_frames s) \<le> card (free_frames s') + 2 * tables_of v n
    \<and> (\<forall>i<n. page_entry s' r (nth_page v i) = Some (nth_page p i OR flags))
    \<and> (\<forall>w. (\<forall>i<n. page_of w \<noteq> page_of (nth_page v i)) \<longrightarrow> page_entry s' r w = page_entry s r w)"
proof -
  have al: "IS_PAGE_ALIGNED r" "IS_PAGE_ALIGNED v" "IS_PAGE_ALIGNED p" "r \<in> R"
    using ok root_aligned by (auto simp: range_ok_def)
  from map_run_cost [OF ok tops fl hi free] obtain s' where s':
    "run (\<lambda>i s s'. paging_map r (nth_page v i) (nth_page p i) flags s = Inr ((), s')) [0..<n] s s'"
    "card (free_frames s) \<le> card (free_frames s') + 2 * tables_of v n" "kernel_tops s' r" by blast
  have res: "paging_map_range r v p sz flags s = Inr ((), s')"
    using s'(1) paging_map_range_run [OF al(1-3), of sz flags s s'] by (simp add: n)
  moreover have "page_entry s' r (nth_page v i) = Some (nth_page p i OR flags)" if "i < n" for i
  proof -
    have "pte_present (nth_page p i OR flags)" using fl by (simp add: pte_present_bit bit_or_iff)
    then show ?thesis using map_range_effect(2) [OF ok res, of i] that range_count [OF hi] by (simp add: n leaf_value_def)
  qed
  moreover have "page_entry s' r w = page_entry s r w" if "\<forall>i<n. page_of w \<noteq> page_of (nth_page v i)" for w
    using map_range_effect(3) [OF ok res, of r w] that al(4) by (simp add: n sees_def)
  ultimately show ?thesis using s' by blast
qed

lemma map_range_builds:
  fixes s :: "'a vm_state_scheme"
  assumes b: "building r s0 s" and tops: "kernel_tops s r" and n: "unat (PAGE_COUNT sz) = n" and hi: "high_range v n"
    and p: "IS_PAGE_ALIGNED p" and fl: "pte_present flags" and free: "2 * tables_of v n \<le> card (free_frames s)"
  shows "\<exists>s'. paging_map_range r v p sz flags s = Inr ((), s') \<and> building r s0 s' \<and> kernel_tops s' r
    \<and> card (free_frames s) \<le> card (free_frames s') + 2 * tables_of v n
    \<and> (\<forall>i<n. page_entry s' r (nth_page v i) = Some (nth_page p i OR flags))
    \<and> (\<forall>w. (\<forall>i<n. page_of w \<noteq> page_of (nth_page v i)) \<longrightarrow> page_entry s' r w = page_entry s r w)"
proof -
  have v: "IS_PAGE_ALIGNED v" using hi by (simp add: high_range_def)
  have ok: "range_ok {r} r v p s" using b v p by (simp add: range_ok_def building_def)
  have keep: "building r s0 s'" if "run (\<lambda>i s s'. paging_map r (nth_page v i) (nth_page p i) flags s = Inr ((), s')) [0..<n] s s'" for s'
    by (rule run_keeps [OF that, of "building r s0", OF b]) (blast intro: building_map nth_page_aligned v p)
  from map_range_high [OF ok tops n hi fl free] keep show ?thesis by blast
qed

text \<open>The same on the running machine.\<close>

lemma map_range_vm_ok:
  fixes s :: "'a vm_state_scheme"
  assumes ok: "vm_ok (s, R)" and r: "r \<in> R" and n: "unat (PAGE_COUNT sz) = n" and hi: "high_range v n"
    and p: "IS_PAGE_ALIGNED p" and fl: "pte_present flags" and free: "2 * tables_of v n \<le> card (free_frames s)"
  shows "\<exists>s'. paging_map_range r v p sz flags s = Inr ((), s') \<and> vm_ok (s', R) \<and> cr3 s' = cr3 s \<and> efer s' = efer s
    \<and> total_frames s' = total_frames s \<and> g_hhdm_offset s' = g_hhdm_offset s
    \<and> bitmap_start s' = bitmap_start s \<and> bitmap_size s' = bitmap_size s
    \<and> (\<forall>i<n. page_entry s' r (nth_page v i) = Some (nth_page p i OR flags))
    \<and> (\<forall>w. (\<forall>i<n. page_of w \<noteq> page_of (nth_page v i)) \<longrightarrow> page_entry s' r w = page_entry s r w)"
proof -
  note d = vm_okD [OF ok]
  have v: "IS_PAGE_ALIGNED v" using hi by (simp add: high_range_def)
  have rok: "range_ok R r v p s" using d r v p by (simp add: range_ok_def)
  have tops: "kernel_tops s r" using d(2) r by (auto simp: kernel_half_shared_def kernel_tops_def)
  let ?I = "\<lambda>u. vm_ok (u, R) \<and> cr3 u = cr3 s \<and> efer u = efer s \<and> total_frames u = total_frames s
    \<and> g_hhdm_offset u = g_hhdm_offset s \<and> bitmap_start u = bitmap_start s \<and> bitmap_size u = bitmap_size s"
  have keep: "?I s'" if "run (\<lambda>i s s'. paging_map r (nth_page v i) (nth_page p i) flags s = Inr ((), s')) [0..<n] s s'" for s'
  proof (rule run_keeps [OF that, of ?I])
    show "?I s" using ok by simp
    fix i u u' assume i: "i \<in> set [0..<n]" "?I u" and m: "paging_map r (nth_page v i) (nth_page p i) flags u = Inr ((), u')"
    have hk: "kernel_half (nth_page v i)" "canonical (nth_page v i)" using high_kernel_half high_range_page(2) [OF hi, of i] i(1) by auto
    have al: "IS_PAGE_ALIGNED (nth_page v i)" "IS_PAGE_ALIGNED (nth_page p i)" using v p by (simp_all add: nth_page_aligned)
    note u = vm_okD [of u R]
    have "vm_ok (u', R)" by (rule map_vm_ok [OF _ r hk(2) al _ m]) (use i(2) hk in simp_all)
    moreover have "remaps R r (nth_page v i) (leaf_value (nth_page p i OR flags)) u u'"
      by (rule paging_map_effect(1) [OF u(1) r _ al m]) (use i(2) u(2) in simp_all)
    ultimately show "?I u'" using i(2) remapsD by metis
  qed
  from map_range_high [OF rok tops n hi fl free] keep show ?thesis by blast
qed

section \<open>The root and the tables of the kernel half\<close>

lemma entry_set_twice: "entry_set t i v (entry_set t i u s) = entry_set t i v s"
  by (simp add: entry_set_def store64_def store_le_def HHDM_PHYS_TO_VIRT_def fun_eq_iff cong: if_cong)

lemma new_root_builds:
  fixes s :: "'a vm_state_scheme"
  assumes "pmm_wf s" and "bitmap_ok s" and "local_tlb s" and "pmm_alloc_frame s = Inr (r, s1)"
  defines "s2 \<equiv> zero_frame r s1"
  shows "building r s s2" and "page_entry s2 r w = None" and "i < 512 \<Longrightarrow> \<not> pte_present (ptes s2 r i)"
    and "card (free_frames s) = Suc (card (free_frames s2))"
proof -
  note al = alloc_keeps [OF assms(1,2,4)]
  have page: "same_but_page r s1 s2" unfolding s2_def by (rule same_but_page_zero)
  note k = page_write_keeps [OF page al(1,2,4)]
  have z: "\<not> pte_present (ptes s2 r i)" if "i < 512" for i
    unfolding s2_def ptes_zero_frame [OF al(7,7) that] by (simp add: pte_present_def)
  then show "i < 512 \<Longrightarrow> \<not> pte_present (ptes s2 r i)" .
  have node: "is_node (ptes s2) {r} r' p t \<longleftrightarrow> r' = r \<and> p = [] \<and> t = r" for r' p t
    using z by (cases p) (auto simp: is_node_def)
  then have "used_tables (ptes s2) {r} = {r}" "forest (ptes s2) {r}" by (auto simp: used_tables_def forest_def)
  then have "paging_inv s2 {r}" using k al(4) by (simp add: paging_inv_def)
  moreover have env: "same_env s s2" using al(3) k same_env_trans by blast
  ultimately show "building r s s2" using assms(3) same_env_vm [OF env] by (simp add: building_def same_env_def local_tlb_def)
  show "page_entry s2 r w = None"
    using z vpath_ok(1) [of w] by (simp add: page_entry_def leaf_def vpath_def)
  show "card (free_frames s) = Suc (card (free_frames s2))" 
    using k al(5,6) by (simp only: card_Suc_Diff1 [OF finite_free_frames al(6)])
qed

lemma kernel_table_builds:
  fixes s :: "'a vm_state_scheme"
  assumes b: "building r s0 s" and i: "i < 512" and abs: "\<not> pte_present (ptes s r i)" and free: "free_frames s \<noteq> {}"
  defines "step \<equiv> kbind (pmm_alloc_frame s) (\<lambda>pdpt_phys s.
       let s = zero_frame pdpt_phys s
       in Inr ((), entry_set r (of_nat i) (pdpt_phys OR PAGE_PRESENT OR PAGE_WRITABLE) s))"
  shows "\<exists>s'. step = Inr ((), s') \<and> building r s0 s' \<and> (\<forall>w. page_entry s' r w = page_entry s r w)
    \<and> pte_present (ptes s' r i) \<and> (\<forall>j<512. j \<noteq> i \<longrightarrow> ptes s' r j = ptes s r j)
    \<and> card (free_frames s) = Suc (card (free_frames s'))"
proof -
  have inv: "paging_inv s {r}" using b by (simp add: building_def)
  note ok = paging_invD [OF inv]
  have root: "is_node (ptes s) {r} r [] r" by (simp add: is_node_def)
  obtain n s1 where alloc: "pmm_alloc_frame s = Inr (n, s1)" using pmm.alloc_ok_iff [OF ok(1)] free by blast
  note al = alloc_keeps [OF ok(1,2) alloc]
  have tab: "table_ok s r" by (rule ok(5) [OF root])
  have r: "r \<noteq> n" "IS_PAGE_ALIGNED r" "\<And>j. j < 512 \<Longrightarrow> ptes s1 r j = ptes s r j" using al(9) [OF tab] table_okD(1) [OF tab] by auto
  define fl where "fl = PAGE_PRESENT OR PAGE_WRITABLE"
  have fl: "upper_flags fl" using intermediate_flags_ok [of False] by (simp add: fl_def)
  define s3 where "s3 = entry_set r (of_nat i) n (zero_frame n s1)"
  define s' where "s' = entry_set r (of_nat i) (n OR fl) (zero_frame n s1)"
  have "ptes s3 r i = n" unfolding s3_def by (simp add: ptes_entry_set [OF r(2,2) i i])
  then have s': "entry_set r (of_nat i) (ptes s3 r i OR fl) s3 = s'" by (simp add: s'_def s3_def entry_set_twice)
  note grow = absent_entry_grows [OF inv root _ i abs fl alloc, folded s3_def, unfolded s']
  have "step = Inr ((), s')" by (simp add: step_def alloc Let_def s'_def fl_def or.assoc)
  moreover have "building r s0 s'"
    using b growsD(1,2) [OF grow(1)] same_env_vm [OF growsD(2) [OF grow(1)]] by (simp add: building_def same_env_def local_tlb_def)
  moreover have "page_entry s' r w = page_entry s r w" for w using grows_page_entry [OF grow(1)] by simp
  moreover have "pte_present (ptes s' r i)" using grow(2) pte_or_flags(1) [OF fl] by simp
  moreover have "ptes s' r j = ptes s r j" if "j < 512" "j \<noteq> i" for j
    using that r by (simp add: s'_def ptes_entry_set [OF r(2,2) i] ptes_zero_frame [OF al(7) r(2)])
  moreover have "card (free_frames s) = Suc (card (free_frames s'))"
    using grow(4) card_Suc_Diff1 [OF finite_free_frames al(6)] by simp
  ultimately show ?thesis by blast
qed

lemma kernel_tables_build:
  fixes s :: "'a vm_state_scheme"
  assumes b: "building r s0 s" and abs: "\<And>i. i < 512 \<Longrightarrow> \<not> pte_present (ptes s r i)" and none: "\<And>w. page_entry s r w = None"
  shows "m \<le> 256 \<Longrightarrow> m \<le> card (free_frames s) \<Longrightarrow>
    \<exists>s'. kfor [256..<256 + m] (\<lambda>i s. kbind (pmm_alloc_frame s) (\<lambda>pdpt_phys s.
       let s = zero_frame pdpt_phys s
       in Inr ((), entry_set r (of_nat i) (pdpt_phys OR PAGE_PRESENT OR PAGE_WRITABLE) s))) s = Inr ((), s')
    \<and> building r s0 s' \<and> (\<forall>w. page_entry s' r w = None) \<and> card (free_frames s) = card (free_frames s') + m
    \<and> (\<forall>i<512. pte_present (ptes s' r i) \<longleftrightarrow> 256 \<le> i \<and> i < 256 + m)"
proof (induction m)
  case 0
  then show ?case using b abs none by auto
next
  case (Suc m)
  then obtain u where u: "kfor [256..<256 + m] (\<lambda>i s. kbind (pmm_alloc_frame s) (\<lambda>pdpt_phys s.
       let s = zero_frame pdpt_phys s
       in Inr ((), entry_set r (of_nat i) (pdpt_phys OR PAGE_PRESENT OR PAGE_WRITABLE) s))) s = Inr ((), u)"
    "building r s0 u" "\<And>w. page_entry u r w = None" "card (free_frames s) = card (free_frames u) + m"
    "\<And>i. i < 512 \<Longrightarrow> pte_present (ptes u r i) \<longleftrightarrow> 256 \<le> i \<and> i < 256 + m" by auto
  have i: "256 + m < 512" "\<not> pte_present (ptes u r (256 + m))" "free_frames u \<noteq> {}" using Suc.prems u(4,5) by auto
  from kernel_table_builds [OF u(2) i] obtain s' where s': "kbind (pmm_alloc_frame u) (\<lambda>pdpt_phys s.
       let s = zero_frame pdpt_phys s
       in Inr ((), entry_set r (of_nat (256 + m)) (pdpt_phys OR PAGE_PRESENT OR PAGE_WRITABLE) s)) = Inr ((), s')"
    "building r s0 s'" "\<forall>w. page_entry s' r w = page_entry u r w" "pte_present (ptes s' r (256 + m))"
    "\<forall>j<512. j \<noteq> 256 + m \<longrightarrow> ptes s' r j = ptes u r j" "card (free_frames u) = Suc (card (free_frames s'))" by blast
  have "[256..<256 + Suc m] = [256..<256 + m] @ [256 + m]" by (simp only: add_Suc_right upt_Suc le_add1 if_True)
  moreover have "pte_present (ptes s' r j) \<longleftrightarrow> 256 \<le> j \<and> j < 256 + Suc m" if "j < 512" for j
    using s'(4,5) u(5) [OF that] that by (cases "j = 256 + m") auto
  ultimately show ?case
    using u(1,3,4) s'(1-3,6) by (intro exI [of _ s']) (simp only: kfor_append, simp)
qed

section \<open>The ranges\<close>

text \<open>A range is given by its first virtual address, its first frame, its size and the flags of its pages.\<close>

type_synonym range = "u64 \<times> u64 \<times> u64 \<times> u64"

definition range_pages :: "range \<Rightarrow> u64 set" where
  "range_pages = (\<lambda>(v, p, sz, fl). (\<lambda>i. page_of (nth_page v i)) ` {..<unat (PAGE_COUNT sz)})"

definition range_good :: "range \<Rightarrow> bool" where
  "range_good = (\<lambda>(v, p, sz, fl). high_range v (unat (PAGE_COUNT sz)) \<and> IS_PAGE_ALIGNED p \<and> pte_present fl)"

definition range_cost :: "range \<Rightarrow> nat" where
  "range_cost = (\<lambda>(v, p, sz, fl). 2 * tables_of v (unat (PAGE_COUNT sz)))"

text \<open>The entries of the pages of a range.\<close>

definition range_mapped :: "'a vm_state_scheme \<Rightarrow> phys_addr_t \<Rightarrow> range \<Rightarrow> bool" where
  "range_mapped s r = (\<lambda>(v, p, sz, fl). \<forall>i<unat (PAGE_COUNT sz). page_entry s r (nth_page v i) = Some (nth_page p i OR fl))"

fun map_ranges :: "phys_addr_t \<Rightarrow> range list \<Rightarrow> 'a vm_state_scheme \<Rightarrow> (unit, 'a vm_state_scheme) kres" where
  "map_ranges r [] s = Inr ((), s)"
| "map_ranges r ((v, p, sz, fl) # rs) s = kbind (paging_map_range r v p sz fl s) (\<lambda>_. map_ranges r rs)"

definition range_apart :: "range \<Rightarrow> range \<Rightarrow> bool" where
  "range_apart = (\<lambda>(v, _, sz, _) (v', _, sz', _).
     unat v + 4096 * unat (PAGE_COUNT sz) \<le> unat v' \<or> unat v' + 4096 * unat (PAGE_COUNT sz') \<le> unat v)"

fun ranges_apart :: "range list \<Rightarrow> bool" where
  "ranges_apart [] = True"
| "ranges_apart (x # xs) \<longleftrightarrow> list_all (range_apart x) xs \<and> ranges_apart xs"

lemma range_apart_pages:
  assumes "range_good x" and "range_good y" and "range_apart x y"
  shows "range_pages x \<inter> range_pages y = {}"
proof -
  obtain v p sz fl where x: "x = (v, p, sz, fl)" by (cases x)
  obtain v' p' sz' fl' where y: "y = (v', p', sz', fl')" by (cases y)
  have hi: "high_range v (unat (PAGE_COUNT sz))" "high_range v' (unat (PAGE_COUNT sz'))"
    using assms(1,2) by (simp_all add: x y range_good_def)
  have "page_of (nth_page v i) \<noteq> page_of (nth_page v' j)" if i: "i < unat (PAGE_COUNT sz)" and j: "j < unat (PAGE_COUNT sz')" for i j
  proof
    assume eq: "page_of (nth_page v i) = page_of (nth_page v' j)"
    have "nth_page v i = nth_page v' j"
      using canonical_page_eq [OF _ _ _ _ eq] high_kernel_half high_range_page(2) [OF hi(1) i] high_range_page(2) [OF hi(2) j]
        hi nth_page_aligned by (simp add: high_range_def)
    then have "unat v + 4096 * i = unat v' + 4096 * j" using high_range_page(1) [OF hi(1) i] high_range_page(1) [OF hi(2) j] by simp
    then show False using assms(3) i j by (auto simp: x y range_apart_def)
  qed
  then show ?thesis by (auto simp: x y range_pages_def)
qed

lemma range_mapped_kept:
  assumes "range_mapped s r x" and "\<And>w. page_of w \<in> range_pages x \<Longrightarrow> page_entry s' r w = page_entry s r w"
  shows "range_mapped s' r x"
  using assms by (cases x) (auto simp: range_mapped_def range_pages_def)

lemma map_ranges_build:
  fixes s :: "'a vm_state_scheme"
  shows "building r s0 s \<Longrightarrow> kernel_tops s r \<Longrightarrow> list_all range_good rs \<Longrightarrow> ranges_apart rs \<Longrightarrow>
    sum_list (map range_cost rs) \<le> card (free_frames s) \<Longrightarrow>
    \<exists>s'. map_ranges r rs s = Inr ((), s') \<and> building r s0 s' \<and> kernel_tops s' r \<and> list_all (range_mapped s' r) rs
      \<and> card (free_frames s) \<le> card (free_frames s') + sum_list (map range_cost rs)
      \<and> (\<forall>w. (\<forall>x\<in>set rs. page_of w \<notin> range_pages x) \<longrightarrow> page_entry s' r w = page_entry s r w)"
proof (induction rs arbitrary: s)
  case (Cons x rs)
  obtain v p sz fl where x: "x = (v, p, sz, fl)" by (cases x)
  have good: "high_range v (unat (PAGE_COUNT sz))" "IS_PAGE_ALIGNED p" "pte_present fl"
    using Cons.prems(3) by (simp_all add: x range_good_def)
  have room: "2 * tables_of v (unat (PAGE_COUNT sz)) \<le> card (free_frames s)" using Cons.prems(5) by (simp add: x range_cost_def)
  from map_range_builds [OF Cons.prems(1,2) refl good room] obtain u
    where u: "paging_map_range r v p sz fl s = Inr ((), u)" "building r s0 u" "kernel_tops u r"
      "card (free_frames s) \<le> card (free_frames u) + range_cost x" "range_mapped u r x"
      "\<And>w. page_of w \<notin> range_pages x \<Longrightarrow> page_entry u r w = page_entry s r w"
    by (auto simp: x range_mapped_def range_cost_def range_pages_def image_iff)
  obtain s' where s': "map_ranges r rs u = Inr ((), s')" "building r s0 s'" "kernel_tops s' r" "list_all (range_mapped s' r) rs"
    "\<And>w. (\<forall>x\<in>set rs. page_of w \<notin> range_pages x) \<Longrightarrow> page_entry s' r w = page_entry u r w"
    "card (free_frames u) \<le> card (free_frames s') + sum_list (map range_cost rs)"
    using Cons.IH [OF u(2,3)] Cons.prems(3-5) u(4) by auto
  have apart: "range_pages x \<inter> range_pages y = {}" if "y \<in> set rs" for y
    using range_apart_pages [of x y] Cons.prems(3,4) that by (simp add: list_all_iff)
  have "range_mapped s' r x"
  proof (rule range_mapped_kept [OF u(5)])
    show "page_entry s' r w = page_entry u r w" if "page_of w \<in> range_pages x" for w
      using s'(5) [of w] disjoint_iff [THEN iffD1, OF apart] that by blast
  qed
  moreover have "page_entry s' r w = page_entry s r w" if "\<forall>y\<in>set (x # rs). page_of w \<notin> range_pages y" for w
    using that u(6) s'(5) by simp
  ultimately show ?case using u(1,4) s' by (intro exI [of _ s']) (simp add: x)
qed auto

section \<open>Initialisation\<close>

definition kernel_range :: "phys_addr_t \<Rightarrow> u64 \<Rightarrow> u64 \<Rightarrow> u64 \<Rightarrow> u64 \<Rightarrow> range" where
  "kernel_range pb vb start stop fl = (start, start - vb + pb, stop - start, fl)"

text \<open>The direct map of all managed frames, and the four segments of the kernel, each with its rights.\<close>

definition start_ranges :: "phys_addr_t \<Rightarrow> u64 \<Rightarrow> kernel_segment_info \<Rightarrow> u64 \<Rightarrow> u64 \<Rightarrow> range list" where
  "start_ranges pb vb seg hhdm frames =
     [(hhdm, 0, frames * PAGE_SIZE, PAGE_WRITABLE OR PAGE_GLOBAL OR PAGE_NO_EXECUTE OR PAGE_PRESENT),
      kernel_range pb vb (limine_start seg) (limine_end seg) (PAGE_GLOBAL OR PAGE_NO_EXECUTE OR PAGE_PRESENT),
      kernel_range pb vb (text_start seg) (text_end seg) (PAGE_GLOBAL OR PAGE_PRESENT),
      kernel_range pb vb (rodata_start seg) (rodata_end seg) (PAGE_GLOBAL OR PAGE_NO_EXECUTE OR PAGE_PRESENT),
      kernel_range pb vb (data_start seg) (data_end seg) (PAGE_GLOBAL OR PAGE_NO_EXECUTE OR PAGE_WRITABLE OR PAGE_PRESENT)]"

definition init_ranges :: "phys_addr_t \<Rightarrow> u64 \<Rightarrow> kernel_segment_info \<Rightarrow> 'a mm_state_scheme \<Rightarrow> range list" where
  "init_ranges pb vb seg s = start_ranges pb vb seg (g_hhdm_offset s) (total_frames s)"

definition init_finish :: "phys_addr_t \<Rightarrow> 'a vm_state_scheme \<Rightarrow> 'a vm_state_scheme" where
  "init_finish r s =
     (let s = s\<lparr>kernel_pml4_entries := map (\<lambda>i. entry_get s r (of_nat (i + 256))) [0..<256]\<rparr>
      in klog_debug ''paging_init: paging initialised without crashing, pml4_phys=0x%p'' [r]
           (paging_switch_dir r (paging_enable_nxe s)))"

lemma paging_init_eq:
  fixes s0 :: "'a vm_state_scheme"
  assumes "pmm_alloc_frame s0 = Inr (r, s)" and "init_kernel_pdpts r (zero_frame r s) = Inr ((), s2)"
    and "total_frames s2 = total_frames s0" and "g_hhdm_offset s2 = g_hhdm_offset s0"
  shows "paging_init pb vb seg s0 = kbind (map_ranges r (init_ranges pb vb seg s0) s2) (\<lambda>_ s. Inr (r, init_finish r s))"
  using assms
  by (simp add: paging_init_def init_ranges_def start_ranges_def kernel_range_def init_finish_def kbind_assoc Let_def pmm_get_total_size_def)

text \<open>
  What the kernel starts from: a working frame allocator, no global translation left over, ranges that are
  aligned, in the kernel half and apart, and enough free frames for the tables.
\<close>

definition init_ready :: "phys_addr_t \<Rightarrow> u64 \<Rightarrow> kernel_segment_info \<Rightarrow> 'a vm_state_scheme \<Rightarrow> bool" where
  "init_ready pb vb seg s \<longleftrightarrow> pmm_wf s \<and> bitmap_ok s \<and> local_tlb s
     \<and> list_all range_good (init_ranges pb vb seg s) \<and> ranges_apart (init_ranges pb vb seg s)
     \<and> 257 + sum_list (map range_cost (init_ranges pb vb seg s)) \<le> card (free_frames s)"

lemma range_kernel_half: "range_good x \<Longrightarrow> page_of w \<in> range_pages x \<Longrightarrow> kernel_half w"
proof -
  assume x: "range_good x" "page_of w \<in> range_pages x"
  obtain v p sz fl where xs: "x = (v, p, sz, fl)" by (cases x)
  from x obtain i where i: "i < unat (PAGE_COUNT sz)" "page_of w = page_of (nth_page v i)" by (auto simp: xs range_pages_def)
  have "kernel_half (nth_page v i)"
    using x(1) high_kernel_half high_range_page(2) [OF _ i(1)] by (auto simp: xs range_good_def)
  moreover have "bit w 47 = bit (nth_page v i) 47" using i(2) by (simp add: page_of_eq_iff)
  ultimately show ?thesis by (simp add: kernel_half_def)
qed

lemma init_finish_fields:
  fixes s :: "'a vm_state_scheme"
  shows "same_mm s (init_finish r s)" and "cr3 (init_finish r s) = r" and "bit (efer (init_finish r s)) 11"
    and "kernel_pml4_entries (init_finish r s) = map (\<lambda>i. ptes s r (i + 256)) [0..<256]"
    and "local_tlb s \<Longrightarrow> tlb (init_finish r s) = Map.empty"
proof -
  have "ptes s r (i + 256) = entry_get s r (of_nat (i + 256))" for i by (simp add: ptes_def)
  then show "kernel_pml4_entries (init_finish r s) = map (\<lambda>i. ptes s r (i + 256)) [0..<256]"
    by (simp add: init_finish_def Let_def paging_switch_dir_def paging_enable_nxe_def)
  show "same_mm s (init_finish r s)" "cr3 (init_finish r s) = r"
    by (simp_all add: init_finish_def Let_def same_mm_def paging_switch_dir_def paging_enable_nxe_def)
  show "bit (efer (init_finish r s)) 11"
    by (simp add: init_finish_def Let_def paging_switch_dir_def paging_enable_nxe_def bit_or_iff bit_push_bit_iff)
  show "tlb (init_finish r s) = Map.empty" if "local_tlb s"
    using that by (auto simp: init_finish_def Let_def paging_switch_dir_def paging_enable_nxe_def local_tlb_def split: option.split)
qed

lemma init_finish_building: "building r s0 s \<Longrightarrow> building r s0 (init_finish r s)"
  using init_finish_fields(1,5) [of s r] same_mm_eq(3) [OF init_finish_fields(1) [of s r]]
  by (simp add: building_def local_tlb_def same_mm_def)

lemma init_finish_vm_ok:
  fixes s :: "'a vm_state_scheme"
  assumes "building r s0 s" and "kernel_tops s r" and "\<And>w. page_entry s r w \<noteq> None \<Longrightarrow> kernel_half w"
  shows "vm_ok (init_finish r s, {r})"
proof -
  note f = init_finish_fields [where r = r and s = s] and m = same_mm_eq [OF init_finish_fields(1) [of s r]]
  have "tlb (init_finish r s) = Map.empty" using assms(1) by (intro f(5)) (simp add: building_def)
  moreover have "kernel_half_shared (ptes s) {r}" using assms(2) by (simp add: kernel_half_shared_def kernel_tops_def)
  moreover have "kernel_entries_ok (init_finish r s) {r}" using assms(2) by (simp add: kernel_entries_ok_def f(4) m kernel_tops_def)
  ultimately show ?thesis
    using assms(1,3) by (auto simp: vm_ok_def m f(2) building_def tlb_ok_def global_ok_def)
qed

lemma paging_init_result:
  fixes s :: "'a vm_state_scheme"
  assumes "init_ready pb vb seg s"
  shows "\<exists>r s'. paging_init pb vb seg s = Inr (r, s') \<and> vm_ok (s', {r}) \<and> cr3 s' = r \<and> bit (efer s') 11
    \<and> building r s s' \<and> card (free_frames s) \<le> card (free_frames s') + 257 + sum_list (map range_cost (init_ranges pb vb seg s))
    \<and> list_all (range_mapped s' r) (init_ranges pb vb seg s)
    \<and> (\<forall>w. (\<forall>x\<in>set (init_ranges pb vb seg s). page_of w \<notin> range_pages x) \<longrightarrow> page_entry s' r w = None)"
proof -
  define rs where "rs = init_ranges pb vb seg s"
  have i: "pmm_wf s" "bitmap_ok s" "local_tlb s" "list_all range_good rs" "ranges_apart rs"
    "257 + sum_list (map range_cost rs) \<le> card (free_frames s)" using assms by (simp_all add: init_ready_def rs_def)
  then have "free_frames s \<noteq> {}" by auto
  then obtain r s1 where alloc: "pmm_alloc_frame s = Inr (r, s1)" using pmm.alloc_ok_iff [OF i(1)] by blast
  note root = new_root_builds [OF i(1-3) alloc]
  obtain s2 where s2: "init_kernel_pdpts r (zero_frame r s1) = Inr ((), s2)" "building r s s2" "\<And>w. page_entry s2 r w = None"
    "card (free_frames (zero_frame r s1)) = card (free_frames s2) + 256" "kernel_tops s2 r"
    using kernel_tables_build [OF root(1,3,2), of 256] i(6) root(4) by (auto simp: init_kernel_pdpts_def kernel_tops_def)
  obtain s3 where s3: "map_ranges r rs s2 = Inr ((), s3)" "building r s s3" "kernel_tops s3 r" "list_all (range_mapped s3 r) rs"
    "\<And>w. (\<forall>x\<in>set rs. page_of w \<notin> range_pages x) \<Longrightarrow> page_entry s3 r w = None"
    "card (free_frames s2) \<le> card (free_frames s3) + sum_list (map range_cost rs)"
    using map_ranges_build [OF s2(2,5) i(4,5)] i(6) root(4) s2(3,4) by auto
  have "total_frames s2 = total_frames s" "g_hhdm_offset s2 = g_hhdm_offset s" using s2(2) by (simp_all add: building_def)
  from paging_init_eq [OF alloc s2(1) this] s3(1) have run: "paging_init pb vb seg s = Inr (r, init_finish r s3)" by (simp add: rs_def)
  have "kernel_half w" if "page_entry s3 r w \<noteq> None" for w
  proof -
    have "\<exists>x\<in>set rs. page_of w \<in> range_pages x"
    proof (rule ccontr)
      assume "\<not> (\<exists>x\<in>set rs. page_of w \<in> range_pages x)"
      then show False using that s3(5) [of w] by simp
    qed
    then obtain x where "x \<in> set rs" "page_of w \<in> range_pages x" by (elim bexE)
    then show ?thesis using i(4) range_kernel_half [of x w] by (auto simp: list_all_iff)
  qed
  from init_finish_vm_ok [OF s3(2,3) this] have ok: "vm_ok (init_finish r s3, {r})" .
  have "page_entry (init_finish r s3) = page_entry s3" by (rule same_mm_eq(4) [OF init_finish_fields(1)])
  then have "list_all (range_mapped (init_finish r s3) r) rs" using s3(4) by (simp add: range_mapped_def)
  moreover have "card (free_frames s) \<le> card (free_frames (init_finish r s3)) + 257 + sum_list (map range_cost rs)"
    using root(4) s2(4) s3(6) same_mm_eq(2) [OF init_finish_fields(1) [of s3 r]] by simp
  ultimately show ?thesis
    using run ok init_finish_building [OF s3(2)] init_finish_fields(2,3) [of r s3] s3(5) \<open>page_entry (init_finish r s3) = page_entry s3\<close>
    by (intro exI [of _ r] exI [of _ "init_finish r s3"]) (simp add: rs_def)
qed

end
