(* ===== verification/Paging_Init_Properties.thy ===== *)
theory Paging_Init_Properties
  imports Paging_Init Example_State
begin

text \<open>
  The properties of \<open>paging_init\<close>: the address space it leaves is the one the kernel means to have, it
  starts the machine of \<open>Vm_Machine\<close> in a good state, and no page of it is writable and executable.
\<close>

section \<open>An example kernel\<close>

definition ex_segments :: kernel_segment_info where
  "ex_segments = \<lparr>limine_start = 0xFFFFFFFF80000000, limine_end = 0xFFFFFFFF80001000,
     text_start = 0xFFFFFFFF80001000, text_end = 0xFFFFFFFF80003000, rodata_start = 0xFFFFFFFF80003000,
     rodata_end = 0xFFFFFFFF80004000, data_start = 0xFFFFFFFF80004000, data_end = 0xFFFFFFFF80005000\<rparr>"

lemma ex_init_ready: "init_ready 0x200000 0xFFFFFFFF80000000 ex_segments ex_state"
proof -
  have c: "unat (PAGE_COUNT 0x1000) = 1" "unat (PAGE_COUNT 0x2000) = 2" "unat (PAGE_COUNT 0x400000) = 1024"
    by (simp_all add: unat_PAGE_COUNT)
  have rs: "init_ranges 0x200000 0xFFFFFFFF80000000 ex_segments ex_state =
    [(0xFFFF800000000000, 0, 0x400000, PAGE_WRITABLE OR PAGE_GLOBAL OR PAGE_NO_EXECUTE OR PAGE_PRESENT),
     (0xFFFFFFFF80000000, 0x200000, 0x1000, PAGE_GLOBAL OR PAGE_NO_EXECUTE OR PAGE_PRESENT),
     (0xFFFFFFFF80001000, 0x201000, 0x2000, PAGE_GLOBAL OR PAGE_PRESENT),
     (0xFFFFFFFF80003000, 0x203000, 0x1000, PAGE_GLOBAL OR PAGE_NO_EXECUTE OR PAGE_PRESENT),
     (0xFFFFFFFF80004000, 0x204000, 0x1000, PAGE_GLOBAL OR PAGE_NO_EXECUTE OR PAGE_WRITABLE OR PAGE_PRESENT)]"
    by (simp add: init_ranges_def start_ranges_def kernel_range_def ex_segments_def ex_hhdm_def PAGE_SIZE_def)
  have fl: "pte_present (x OR PAGE_PRESENT)" for x by (simp add: pte_present_bit bit_or_iff PAGE_PRESENT_def)
  have good: "list_all range_good (init_ranges 0x200000 0xFFFFFFFF80000000 ex_segments ex_state)"
    unfolding rs using fl by (simp add: range_good_def high_range_def c page_aligned_iff or.assoc [symmetric])
  have apart: "ranges_apart (init_ranges 0x200000 0xFFFFFFFF80000000 ex_segments ex_state)"
    unfolding rs by (simp add: range_apart_def c)
  have "range_cost (v, p, sz, fl) \<le> 2 * (unat (PAGE_COUNT sz) div 512 + 2)" for v p sz fl
    using tables_of_bound [of v "unat (PAGE_COUNT sz)"] by (simp add: range_cost_def)
  note cost = this [of _ _ "0x1000"] this [of _ _ "0x2000"] this [of _ _ "0x400000"]
  have "sum_list (map range_cost (init_ranges 0x200000 0xFFFFFFFF80000000 ex_segments ex_state)) \<le> 8 + (4 + (4 + (4 + 4)))"
    unfolding rs list.map sum_list.Cons sum_list.Nil add_0_right
    by (intro add_mono; rule order_trans [OF cost(1)] order_trans [OF cost(2)] order_trans [OF cost(3)]; simp add: c)
  then show ?thesis
    using good apart ex_pmm_wf ex_bitmap_ok by (simp add: init_ready_def local_tlb_def ex_card_free)
qed

section \<open>The kernel's address space\<close>

text \<open>C18: with enough free frames \<open>paging_init\<close> returns, makes the new root the current one, turns on the
  no-execute bit, and leaves the invariant of the paging code established, with no stale translation
  cached; the direct map maps every frame, the segments of the kernel are mapped to the frames they were
  loaded to with their own rights, and no other page is mapped.\<close>

theorem paging_init_establishes:
  fixes s :: "'a vm_state_scheme"
  assumes "init_ready pb vb seg s"
  shows "\<exists>r s'. paging_init pb vb seg s = Inr (r, s') \<and> vm_ok (s', {r}) \<and> cr3 s' = r \<and> bit (efer s') 11
    \<and> (\<forall>(v, p, sz, fl) \<in> set (init_ranges pb vb seg s). \<forall>i<unat (PAGE_COUNT sz).
        page_entry s' r (nth_page v i) = Some (nth_page p i OR fl))
    \<and> (\<forall>w. (\<forall>(v, p, sz, fl) \<in> set (init_ranges pb vb seg s). \<forall>i<unat (PAGE_COUNT sz). page_of w \<noteq> page_of (nth_page v i)) \<longrightarrow>
        page_entry s' r w = None)"
proof -
  define rs where "rs = init_ranges pb vb seg s"
  obtain r s' where r: "paging_init pb vb seg s = Inr (r, s')" "vm_ok (s', {r})" "cr3 s' = r" "bit (efer s') 11"
    "list_all (range_mapped s' r) rs" "\<And>w. (\<forall>x\<in>set rs. page_of w \<notin> range_pages x) \<Longrightarrow> page_entry s' r w = None"
    using paging_init_result [OF assms] unfolding rs_def by blast
  have hit: "\<forall>(v, p, sz, fl) \<in> set rs. \<forall>i<unat (PAGE_COUNT sz). page_entry s' r (nth_page v i) = Some (nth_page p i OR fl)"
    using r(5) by (simp add: list_all_iff range_mapped_def)
  have miss: "page_entry s' r w = None"
    if "\<forall>(v, p, sz, fl) \<in> set rs. \<forall>i<unat (PAGE_COUNT sz). page_of w \<noteq> page_of (nth_page v i)" for w
    using that by (intro r(6) ballI) (fastforce simp: range_pages_def)
  show ?thesis
    unfolding rs_def [symmetric] using r(1-4) hit miss by (intro exI conjI allI impI)
qed

theorem paging_init_establishes_witness:
  "\<exists>r s'. paging_init 0x200000 0xFFFFFFFF80000000 ex_segments ex_state = Inr (r, s') \<and> vm_ok (s', {r})"
  using paging_init_establishes [OF ex_init_ready] by blast

section \<open>Rights\<close>

lemma init_range_rights:
  assumes "(v, p, sz, fl) \<in> set (init_ranges pb vb seg s)" and "bit fl 1"
  shows "bit fl 63"
  using assms
  by (auto simp: init_ranges_def start_ranges_def kernel_range_def bit_or_iff PAGE_WRITABLE_def PAGE_GLOBAL_def PAGE_NO_EXECUTE_def PAGE_PRESENT_def
      bit_push_bit_iff bit_1_iff)

text \<open>C19: no page of the kernel's address space is writable and executable: every entry that \<open>paging_init\<close>
  leaves with the write right (bit 1) forbids execution (bit 63).\<close>

theorem paging_init_writable_no_execute:
  fixes s :: "'a vm_state_scheme"
  assumes "init_ready pb vb seg s"
  shows "\<exists>r s'. paging_init pb vb seg s = Inr (r, s') \<and> (\<forall>w e. page_entry s' r w = Some e \<and> bit e 1 \<longrightarrow> bit e 63)"
proof -
  obtain r s' where r: "paging_init pb vb seg s = Inr (r, s')" "list_all (range_mapped s' r) (init_ranges pb vb seg s)"
    "\<And>w. (\<forall>x\<in>set (init_ranges pb vb seg s). page_of w \<notin> range_pages x) \<Longrightarrow> page_entry s' r w = None"
    using paging_init_result [OF assms] by blast
  have "bit e 63" if e: "page_entry s' r w = Some e" "bit e 1" for w e
  proof -
    have "\<exists>x\<in>set (init_ranges pb vb seg s). page_of w \<in> range_pages x" using r(3) [of w] e(1) by (metis option.distinct(1))
    then obtain v p sz fl i where x: "(v, p, sz, fl) \<in> set (init_ranges pb vb seg s)" "i < unat (PAGE_COUNT sz)"
      "page_of w = page_of (nth_page v i)" by (auto simp: range_pages_def)
    have "page_entry s' r (nth_page v i) = Some (nth_page p i OR fl)" using r(2) x(1,2) by (auto simp: list_all_iff range_mapped_def)
    then have "e = nth_page p i OR fl" using e(1) page_entry_same [OF x(3), of s' r] by simp
    moreover have "IS_PAGE_ALIGNED p" using assms x(1) by (auto simp: init_ready_def list_all_iff range_good_def)
    then have "\<not> bit (nth_page p i) 1" using nth_page_aligned [of p i] by (simp add: aligned_bits)
    ultimately show ?thesis using e(2) init_range_rights [OF x(1)] by (simp add: bit_or_iff)
  qed
  then show ?thesis using r(1) by blast
qed

theorem paging_init_writable_no_execute_witness:
  "\<exists>r s'. paging_init 0x200000 0xFFFFFFFF80000000 ex_segments ex_state = Inr (r, s')
    \<and> (\<forall>w e. page_entry s' r w = Some e \<and> bit e 1 \<longrightarrow> bit e 63)"
  using paging_init_writable_no_execute [OF ex_init_ready] .

end
