(* ===== verification/Printf.thy ===== *)
theory Printf
  imports Memory
begin

text \<open>
  The formatted output of \<open>src/src/utils/printf.c\<close> as the kernel builds it (no floating point):
  the format parser, the integer, character, string and pointer conversions, and the output
  functions. C strings are lists of characters without the terminating NUL. Where the C code has
  no defined meaning (an argument that is missing or of the wrong kind, a format string that ends
  inside a directive) the result is \<open>None\<close>.
\<close>

section \<open>Flags\<close>

definition FLAGS_ZEROPAD :: u32 where "FLAGS_ZEROPAD = push_bit 0 1"
definition FLAGS_LEFT :: u32 where "FLAGS_LEFT = push_bit 1 1"
definition FLAGS_PLUS :: u32 where "FLAGS_PLUS = push_bit 2 1"
definition FLAGS_SPACE :: u32 where "FLAGS_SPACE = push_bit 3 1"
definition FLAGS_HASH :: u32 where "FLAGS_HASH = push_bit 4 1"
definition FLAGS_UPPERCASE :: u32 where "FLAGS_UPPERCASE = push_bit 5 1"
definition FLAGS_CHAR :: u32 where "FLAGS_CHAR = push_bit 6 1"
definition FLAGS_SHORT :: u32 where "FLAGS_SHORT = push_bit 7 1"
definition FLAGS_LONG :: u32 where "FLAGS_LONG = push_bit 8 1"
definition FLAGS_LONG_LONG :: u32 where "FLAGS_LONG_LONG = push_bit 9 1"
definition FLAGS_PRECISION :: u32 where "FLAGS_PRECISION = push_bit 10 1"

definition PRINTF_NTOA_BUFFER_SIZE :: nat where "PRINTF_NTOA_BUFFER_SIZE = 32"

section \<open>Output functions\<close>

text \<open>An output function with its buffer state: character, index, maximal length.\<close>

type_synonym 's out_fct = "char \<Rightarrow> u64 \<Rightarrow> u64 \<Rightarrow> 's \<Rightarrow> 's"

definition out_buffer :: "u64 \<Rightarrow> memory out_fct" where
  "out_buffer buffer character idx maxlen m =
     (if idx < maxlen then m(buffer + idx := of_char character) else m)"

definition out_null :: "'s out_fct" where
  "out_null character idx maxlen s = s"

definition out_char :: "(char \<Rightarrow> 's \<Rightarrow> 's) \<Rightarrow> 's out_fct" where
  "out_char putchar character idx maxlen s = (if character \<noteq> CHR 0x00 then putchar character s else s)"

definition out_fct :: "(char \<Rightarrow> 'arg \<Rightarrow> 's \<Rightarrow> 's) \<Rightarrow> 'arg \<Rightarrow> 's out_fct" where
  "out_fct fct arg character idx maxlen s = (if character \<noteq> CHR 0x00 then fct character arg s else s)"

text \<open>\<open>out(c, buffer, idx++, maxlen)\<close> for one character after the other.\<close>

fun emit :: "'s out_fct \<Rightarrow> u64 \<Rightarrow> char list \<Rightarrow> u64 \<times> 's \<Rightarrow> u64 \<times> 's" where
  "emit out maxlen [] st = st"
| "emit out maxlen (c # cs) (idx, s) = emit out maxlen cs (idx + 1, out c idx maxlen s)"

section \<open>Numbers\<close>

definition is_digit :: "char \<Rightarrow> bool" where
  "is_digit ch \<longleftrightarrow> 48 \<le> (of_char ch :: nat) \<and> (of_char ch :: nat) \<le> 57"

fun atoi :: "u32 \<Rightarrow> string \<Rightarrow> u32 \<times> string" where
  "atoi i [] = (i, [])"
| "atoi i (c # str) =
     (if is_digit c then atoi (i * 10 + of_nat (of_char c - 48)) str else (i, c # str))"

text \<open>
  \<open>buf[0..len)\<close> is the list \<open>buf\<close>; \<open>buf[len++] = c\<close> under the bounds check appends. The bound
  of the zero padding is the smaller of the wanted length and the buffer size.
\<close>

definition put :: "char \<Rightarrow> char list \<Rightarrow> char list" where
  "put c buf = (if length buf < PRINTF_NTOA_BUFFER_SIZE then buf @ [c] else buf)"

definition pad_zeros :: "u32 \<Rightarrow> char list \<Rightarrow> char list" where
  "pad_zeros n buf = buf @ replicate (min (unat n) PRINTF_NTOA_BUFFER_SIZE - length buf) (CHR ''0'')"

definition out_rev :: "'s out_fct \<Rightarrow> u64 \<Rightarrow> char list \<Rightarrow> u32 \<Rightarrow> u32 \<Rightarrow> u64 \<times> 's \<Rightarrow> u64 \<times> 's" where
  "out_rev out maxlen buf width flags st =
     (let start_idx = fst st;
          st1 = (if flags AND FLAGS_LEFT = 0 \<and> flags AND FLAGS_ZEROPAD = 0
                 then emit out maxlen (replicate (unat width - length buf) (CHR '' '')) st else st);
          st2 = emit out maxlen (rev buf) st1
      in if flags AND FLAGS_LEFT \<noteq> 0
         then emit out maxlen (replicate (unat width - unat (fst st2 - start_idx)) (CHR '' '')) st2
         else st2)"

definition ntoa_hash :: "char list \<Rightarrow> u32 \<Rightarrow> u32 \<Rightarrow> u32 \<Rightarrow> u32 \<Rightarrow> char list" where
  "ntoa_hash buf base prec width flags =
     (let buf1 = (if flags AND FLAGS_PRECISION = 0 \<and> buf \<noteq> []
                     \<and> (length buf = unat prec \<or> length buf = unat width)
                  then (if butlast buf \<noteq> [] \<and> base = 16 then butlast (butlast buf) else butlast buf)
                  else buf);
          buf2 = (if base = 16 \<and> flags AND FLAGS_UPPERCASE = 0 \<and> length buf1 < PRINTF_NTOA_BUFFER_SIZE
                  then buf1 @ [CHR ''x'']
                  else if base = 16 \<and> flags AND FLAGS_UPPERCASE \<noteq> 0 \<and> length buf1 < PRINTF_NTOA_BUFFER_SIZE
                  then buf1 @ [CHR ''X'']
                  else if base = 2 \<and> length buf1 < PRINTF_NTOA_BUFFER_SIZE
                  then buf1 @ [CHR ''b'']
                  else buf1)
      in put (CHR ''0'') buf2)"

text \<open>The width that is left when a sign takes the place of a padding zero.\<close>

definition ntoa_width :: "bool \<Rightarrow> u32 \<Rightarrow> u32 \<Rightarrow> u32" where
  "ntoa_width negative width flags =
     (if flags AND FLAGS_LEFT = 0 \<and> width \<noteq> 0 \<and> flags AND FLAGS_ZEROPAD \<noteq> 0
         \<and> (negative \<or> flags AND (FLAGS_PLUS OR FLAGS_SPACE) \<noteq> 0)
      then width - 1 else width)"

definition ntoa_sign :: "bool \<Rightarrow> u32 \<Rightarrow> char list \<Rightarrow> char list" where
  "ntoa_sign negative flags buf =
     (if negative then put (CHR ''-'') buf
      else if flags AND FLAGS_PLUS \<noteq> 0 then put (CHR ''+'') buf
      else if flags AND FLAGS_SPACE \<noteq> 0 then put (CHR '' '') buf
      else buf)"

text \<open>The buffer with padding, prefix and sign, still in reverse order.\<close>

definition ntoa_buf :: "char list \<Rightarrow> bool \<Rightarrow> u32 \<Rightarrow> u32 \<Rightarrow> u32 \<Rightarrow> u32 \<Rightarrow> char list" where
  "ntoa_buf buf0 negative base prec width flags =
     (let buf1 = (if flags AND FLAGS_LEFT = 0 then pad_zeros prec buf0 else buf0);
          buf2 = (if flags AND FLAGS_LEFT = 0 \<and> flags AND FLAGS_ZEROPAD \<noteq> 0
                  then pad_zeros width buf1 else buf1);
          buf3 = (if flags AND FLAGS_HASH \<noteq> 0 then ntoa_hash buf2 base prec width flags else buf2)
      in ntoa_sign negative flags buf3)"

definition ntoa_format ::
    "'s out_fct \<Rightarrow> u64 \<Rightarrow> char list \<Rightarrow> bool \<Rightarrow> u32 \<Rightarrow> u32 \<Rightarrow> u32 \<Rightarrow> u32 \<Rightarrow> u64 \<times> 's \<Rightarrow> u64 \<times> 's" where
  "ntoa_format out maxlen buf negative base prec width0 flags st =
     (let width = ntoa_width negative width0 flags
      in out_rev out maxlen (ntoa_buf buf negative base prec width flags) width flags st)"

text \<open>
  The do-while loop over the digits, least significant first; the first argument is the space left
  in the buffer.
\<close>

definition digit_char :: "u32 \<Rightarrow> nat \<Rightarrow> char" where
  "digit_char flags d =
     (if d < 10 then char_of (48 + d)
      else char_of ((if flags AND FLAGS_UPPERCASE \<noteq> 0 then 65 else 97) + d - 10))"

fun ntoa_digits :: "nat \<Rightarrow> u32 \<Rightarrow> u64 \<Rightarrow> u64 \<Rightarrow> char list" where
  "ntoa_digits 0 flags base value = []"
| "ntoa_digits (Suc k) flags base value =
     digit_char flags (unat (value mod base)) #
     (if value div base \<noteq> 0 then ntoa_digits k flags base (value div base) else [])"

definition ntoa_long ::
    "'s out_fct \<Rightarrow> u64 \<Rightarrow> u64 \<Rightarrow> bool \<Rightarrow> u64 \<Rightarrow> u32 \<Rightarrow> u32 \<Rightarrow> u32 \<Rightarrow> u64 \<times> 's \<Rightarrow> u64 \<times> 's" where
  "ntoa_long out maxlen value negative base prec width flags0 st =
     (let flags = (if value = 0 then flags0 AND NOT FLAGS_HASH else flags0);
          buf = (if flags AND FLAGS_PRECISION = 0 \<or> value \<noteq> 0
                 then ntoa_digits PRINTF_NTOA_BUFFER_SIZE flags base value else [])
      in ntoa_format out maxlen buf negative (ucast base) prec width flags st)"

definition ntoa_long_long ::
    "'s out_fct \<Rightarrow> u64 \<Rightarrow> u64 \<Rightarrow> bool \<Rightarrow> u64 \<Rightarrow> u32 \<Rightarrow> u32 \<Rightarrow> u32 \<Rightarrow> u64 \<times> 's \<Rightarrow> u64 \<times> 's" where
  "ntoa_long_long out maxlen value negative base prec width flags0 st =
     (let flags = (if value = 0 then flags0 AND NOT FLAGS_HASH else flags0);
          buf = (if flags AND FLAGS_PRECISION = 0 \<or> value \<noteq> 0
                 then ntoa_digits PRINTF_NTOA_BUFFER_SIZE flags base value else [])
      in ntoa_format out maxlen buf negative (ucast base) prec width flags st)"

section \<open>Directives\<close>

text \<open>
  The variadic arguments: an integer or pointer as the 64-bit word of its argument slot, or a
  pointer to a C string.
\<close>

datatype vararg = VInt u64 | VStr string

text \<open>\<open>*format\<close>: the terminating NUL at the end.\<close>

definition peek :: "string \<Rightarrow> char" where
  "peek format = (case format of [] \<Rightarrow> CHR 0x00 | c # _ \<Rightarrow> c)"

fun parse_flags :: "u32 \<Rightarrow> string \<Rightarrow> u32 \<times> string" where
  "parse_flags flags [] = (flags, [])"
| "parse_flags flags (c # format) =
     (if c = CHR ''0'' then parse_flags (flags OR FLAGS_ZEROPAD) format
      else if c = CHR ''-'' then parse_flags (flags OR FLAGS_LEFT) format
      else if c = CHR ''+'' then parse_flags (flags OR FLAGS_PLUS) format
      else if c = CHR '' '' then parse_flags (flags OR FLAGS_SPACE) format
      else if c = CHR ''#'' then parse_flags (flags OR FLAGS_HASH) format
      else (flags, c # format))"

definition parse_width :: "u32 \<Rightarrow> string \<Rightarrow> vararg list \<Rightarrow> (u32 \<times> u32 \<times> string \<times> vararg list) option" where
  "parse_width flags format va =
     (if is_digit (peek format)
      then (let (width, format') = atoi 0 format in Some (flags, width, format', va))
      else if peek format = CHR ''*''
      then (case va of
              VInt a # va' \<Rightarrow>
                (let w = (ucast a :: u32) in
                 if sint w < 0 then Some (flags OR FLAGS_LEFT, - w, tl format, va')
                 else Some (flags, w, tl format, va'))
            | _ \<Rightarrow> None)
      else Some (flags, 0, format, va))"

definition parse_precision :: "u32 \<Rightarrow> string \<Rightarrow> vararg list \<Rightarrow> (u32 \<times> u32 \<times> string \<times> vararg list) option" where
  "parse_precision flags0 format0 va =
     (if peek format0 = CHR ''.''
      then (let flags = flags0 OR FLAGS_PRECISION; format = tl format0 in
            if is_digit (peek format)
            then (let (precision, format') = atoi 0 format in Some (flags, precision, format', va))
            else if peek format = CHR ''*''
            then (case va of
                    VInt a # va' \<Rightarrow>
                      (let prec = (ucast a :: u32) in
                       Some (flags, if sint prec > 0 then prec else 0, tl format, va'))
                  | _ \<Rightarrow> None)
            else Some (flags, 0, format, va))
      else Some (flags0, 0, format0, va))"

text \<open>On the target \<open>ptrdiff_t\<close>, \<open>intmax_t\<close> and \<open>size_t\<close> have the size of \<open>long\<close>.\<close>

definition parse_length :: "u32 \<Rightarrow> string \<Rightarrow> u32 \<times> string" where
  "parse_length flags format =
     (if peek format = CHR ''l'' then
        (if peek (tl format) = CHR ''l'' then (flags OR FLAGS_LONG OR FLAGS_LONG_LONG, tl (tl format))
         else (flags OR FLAGS_LONG, tl format))
      else if peek format = CHR ''h'' then
        (if peek (tl format) = CHR ''h'' then (flags OR FLAGS_SHORT OR FLAGS_CHAR, tl (tl format))
         else (flags OR FLAGS_SHORT, tl format))
      else if peek format = CHR ''t'' \<or> peek format = CHR ''j'' \<or> peek format = CHR ''z''
      then (flags OR FLAGS_LONG, tl format)
      else (flags, format))"

section \<open>Conversions\<close>

text \<open>
  The flags an integer directive ends up with, and its base, from the conversion character.
\<close>

definition int_base :: "char \<Rightarrow> u32" where
  "int_base c = (if c = CHR ''x'' \<or> c = CHR ''X'' then 16 else if c = CHR ''o'' then 8
     else if c = CHR ''b'' then 2 else 10)"

definition int_flags :: "char \<Rightarrow> u32 \<Rightarrow> u32" where
  "int_flags c flags0 =
     (let flags1 = (if int_base c = 10 then flags0 AND NOT FLAGS_HASH else flags0);
          flags2 = (if c = CHR ''X'' then flags1 OR FLAGS_UPPERCASE else flags1);
          flags3 = (if c \<noteq> CHR ''i'' \<and> c \<noteq> CHR ''d'' then flags2 AND NOT (FLAGS_PLUS OR FLAGS_SPACE) else flags2)
      in if flags3 AND FLAGS_PRECISION \<noteq> 0 then flags3 AND NOT FLAGS_ZEROPAD else flags3)"

definition conv_signed :: "'s out_fct \<Rightarrow> u64 \<Rightarrow> u64 \<Rightarrow> u32 \<Rightarrow> u32 \<Rightarrow> u32 \<Rightarrow> u32 \<Rightarrow> u64 \<times> 's \<Rightarrow> u64 \<times> 's" where
  "conv_signed out maxlen a base precision width flags st =
     (if flags AND FLAGS_LONG_LONG \<noteq> 0 then
        ntoa_long_long out maxlen (if sint a > 0 then a else 0 - a) (sint a < 0) (ucast base) precision width flags st
      else if flags AND FLAGS_LONG \<noteq> 0 then
        ntoa_long out maxlen (if sint a > 0 then a else 0 - a) (sint a < 0) (ucast base) precision width flags st
      else
        let value = (if flags AND FLAGS_CHAR \<noteq> 0 then scast (ucast a :: u8)
                     else if flags AND FLAGS_SHORT \<noteq> 0 then scast (ucast a :: u16)
                     else ucast a :: u32)
        in ntoa_long out maxlen (ucast (if sint value > 0 then value else 0 - value)) (sint value < 0)
             (ucast base) precision width flags st)"

definition conv_unsigned :: "'s out_fct \<Rightarrow> u64 \<Rightarrow> u64 \<Rightarrow> u32 \<Rightarrow> u32 \<Rightarrow> u32 \<Rightarrow> u32 \<Rightarrow> u64 \<times> 's \<Rightarrow> u64 \<times> 's" where
  "conv_unsigned out maxlen a base precision width flags st =
     (if flags AND FLAGS_LONG_LONG \<noteq> 0 then
        ntoa_long_long out maxlen a False (ucast base) precision width flags st
      else if flags AND FLAGS_LONG \<noteq> 0 then
        ntoa_long out maxlen a False (ucast base) precision width flags st
      else
        let value = (if flags AND FLAGS_CHAR \<noteq> 0 then ucast (ucast a :: u8)
                     else if flags AND FLAGS_SHORT \<noteq> 0 then ucast (ucast a :: u16)
                     else ucast a :: u32)
        in ntoa_long out maxlen (ucast value) False (ucast base) precision width flags st)"

text \<open>\<open>while (l++ < width)\<close> from a given \<open>l\<close>, before or after the text by the left flag.\<close>

definition out_padded :: "'s out_fct \<Rightarrow> u64 \<Rightarrow> nat \<Rightarrow> char list \<Rightarrow> u32 \<Rightarrow> u32 \<Rightarrow> u64 \<times> 's \<Rightarrow> u64 \<times> 's" where
  "out_padded out maxlen l cs width flags st =
     (let pad = replicate (unat width - l) (CHR '' '');
          st1 = (if flags AND FLAGS_LEFT = 0 then emit out maxlen pad st else st);
          st2 = emit out maxlen cs st1
      in if flags AND FLAGS_LEFT \<noteq> 0 then emit out maxlen pad st2 else st2)"

definition conv_char :: "'s out_fct \<Rightarrow> u64 \<Rightarrow> u64 \<Rightarrow> u32 \<Rightarrow> u32 \<Rightarrow> u64 \<times> 's \<Rightarrow> u64 \<times> 's" where
  "conv_char out maxlen a width flags st =
     out_padded out maxlen 1 [char_of (unat (ucast a :: u8))] width flags st"

text \<open>The length of a string (shorter than the address space), limited by \<open>maxsize\<close>.\<close>

definition strnlen_s :: "string \<Rightarrow> u64 \<Rightarrow> u32" where
  "strnlen_s str maxsize =
     (let n = (of_nat (length str) :: u64) in ucast (if n < maxsize then n else maxsize))"

definition conv_str :: "'s out_fct \<Rightarrow> u64 \<Rightarrow> string \<Rightarrow> u32 \<Rightarrow> u32 \<Rightarrow> u32 \<Rightarrow> u64 \<times> 's \<Rightarrow> u64 \<times> 's" where
  "conv_str out maxlen p precision width flags st =
     (let l0 = strnlen_s p (if precision \<noteq> 0 then ucast precision else - 1);
          l = (if flags AND FLAGS_PRECISION \<noteq> 0 then (if l0 < precision then l0 else precision) else l0)
      in out_padded out maxlen (unat l)
           (if flags AND FLAGS_PRECISION = 0 then p else take (unat precision) p) width flags st)"

definition conv_ptr :: "'s out_fct \<Rightarrow> u64 \<Rightarrow> u64 \<Rightarrow> u32 \<Rightarrow> u32 \<Rightarrow> u64 \<times> 's \<Rightarrow> u64 \<times> 's" where
  "conv_ptr out maxlen a precision flags st =
     ntoa_long_long out maxlen a False 16 precision 16 (flags OR FLAGS_ZEROPAD OR FLAGS_UPPERCASE) st"

text \<open>
  The switch over the conversion character. The default case writes the character itself; at the
  end of the format string it would write the NUL and step past it, which is undefined.
\<close>

definition conversion ::
    "'s out_fct \<Rightarrow> u64 \<Rightarrow> u32 \<Rightarrow> u32 \<Rightarrow> u32 \<Rightarrow> string \<Rightarrow> vararg list \<Rightarrow> u64 \<times> 's \<Rightarrow>
      (string \<times> vararg list \<times> u64 \<times> 's) option" where
  "conversion out maxlen flags width precision format va st =
     (case format of
        [] \<Rightarrow> None
      | c # format' \<Rightarrow>
          if c \<in> set ''diuxXob'' then
            (case va of
               VInt a # va' \<Rightarrow>
                 Some (format', va',
                   if c = CHR ''i'' \<or> c = CHR ''d''
                   then conv_signed out maxlen a (int_base c) precision width (int_flags c flags) st
                   else conv_unsigned out maxlen a (int_base c) precision width (int_flags c flags) st)
             | _ \<Rightarrow> None)
          else if c = CHR ''c'' then
            (case va of VInt a # va' \<Rightarrow> Some (format', va', conv_char out maxlen a width flags st) | _ \<Rightarrow> None)
          else if c = CHR ''s'' then
            (case va of VStr p # va' \<Rightarrow> Some (format', va', conv_str out maxlen p precision width flags st) | _ \<Rightarrow> None)
          else if c = CHR ''p'' then
            (case va of VInt a # va' \<Rightarrow> Some (format', va', conv_ptr out maxlen a precision flags st) | _ \<Rightarrow> None)
          else Some (format', va, emit out maxlen [c] st))"

definition directive ::
    "'s out_fct \<Rightarrow> u64 \<Rightarrow> string \<Rightarrow> vararg list \<Rightarrow> u64 \<times> 's \<Rightarrow> (string \<times> vararg list \<times> u64 \<times> 's) option" where
  "directive out maxlen format va st =
     (let (flags, format) = parse_flags 0 format in
      case parse_width flags format va of None \<Rightarrow> None
      | Some (flags, width, format, va) \<Rightarrow>
          (case parse_precision flags format va of None \<Rightarrow> None
           | Some (flags, precision, format, va) \<Rightarrow>
               (let (flags, format) = parse_length flags format in
                conversion out maxlen flags width precision format va st)))"

lemma parse_flags_length: "parse_flags flags format = (flags', format') \<Longrightarrow> length format' \<le> length format"
  by (induction flags format rule: parse_flags.induct) (auto split: if_splits)

lemma atoi_length: "atoi i str = (i', str') \<Longrightarrow> length str' \<le> length str"
  by (induction i str rule: atoi.induct) (auto split: if_splits)

lemma parse_width_length:
  "parse_width flags format va = Some (flags', width, format', va') \<Longrightarrow> length format' \<le> length format"
  by (auto simp: parse_width_def Let_def dest: atoi_length split: if_splits prod.splits list.splits vararg.splits)

lemma parse_precision_length:
  "parse_precision flags format va = Some (flags', prec, format', va') \<Longrightarrow> length format' \<le> length format"
  by (auto simp: parse_precision_def Let_def dest!: atoi_length split: if_splits prod.splits list.splits vararg.splits)

lemma parse_length_length: "parse_length flags format = (flags', format') \<Longrightarrow> length format' \<le> length format"
  by (auto simp: parse_length_def split: if_splits)

lemma conversion_length:
  "conversion out maxlen flags width precision format va st = Some (format', va', st') \<Longrightarrow> length format' < length format"
  by (auto simp: conversion_def split: if_splits list.splits vararg.splits)

lemma directive_length:
  assumes "directive out maxlen format va st = Some (format', va', st')"
  shows "length format' < length format"
proof -
  obtain fl1 f1 where 1: "parse_flags 0 format = (fl1, f1)" by (cases "parse_flags 0 format") auto
  with assms obtain fl2 w f2 va2 where 2: "parse_width fl1 f1 va = Some (fl2, w, f2, va2)"
    by (auto simp: directive_def split: option.splits)
  with assms 1 obtain fl3 p f3 va3 where 3: "parse_precision fl2 f2 va2 = Some (fl3, p, f3, va3)"
    by (auto simp: directive_def split: option.splits)
  obtain fl4 f4 where 4: "parse_length fl3 f3 = (fl4, f4)" by (cases "parse_length fl3 f3") auto
  from assms 1 2 3 4 have "conversion out maxlen fl4 w p f4 va3 st = Some (format', va', st')"
    by (simp add: directive_def)
  from conversion_length [OF this] parse_flags_length [OF 1] parse_width_length [OF 2]
    parse_precision_length [OF 3] parse_length_length [OF 4] show ?thesis by linarith
qed

section \<open>The main loop\<close>

function vsnprintf_loop ::
    "'s out_fct \<Rightarrow> u64 \<Rightarrow> string \<Rightarrow> vararg list \<Rightarrow> u64 \<times> 's \<Rightarrow> (u64 \<times> 's) option" where
  "vsnprintf_loop out maxlen format va st =
     (case format of
        [] \<Rightarrow> Some st
      | c # format \<Rightarrow>
          if c \<noteq> CHR ''%'' then vsnprintf_loop out maxlen format va (emit out maxlen [c] st)
          else (case directive out maxlen format va st of
                  None \<Rightarrow> None
                | Some (format, va, st) \<Rightarrow> vsnprintf_loop out maxlen format va st))"
  by pat_completeness auto
termination
  by (relation "measure (\<lambda>(out, maxlen, format, va, st). length format)") (auto dest: directive_length)

declare vsnprintf_loop.simps [simp del]

lemma vsnprintf_loop_Nil [simp]: "vsnprintf_loop out maxlen [] va st = Some st"
  by (simp add: vsnprintf_loop.simps [of _ _ "[]"])

lemma vsnprintf_loop_Cons:
  "vsnprintf_loop out maxlen (c # format) va st =
     (if c \<noteq> CHR ''%'' then vsnprintf_loop out maxlen format va (emit out maxlen [c] st)
      else (case directive out maxlen format va st of
              None \<Rightarrow> None
            | Some (format, va, st) \<Rightarrow> vsnprintf_loop out maxlen format va st))"
  by (simp add: vsnprintf_loop.simps [of _ _ "c # format"])

text \<open>
  \<open>_vsnprintf\<close>; a null buffer selects the null output function. The result is the \<open>int\<close> the
  function returns and the output state.
\<close>

definition vsnprintf ::
    "'s out_fct \<Rightarrow> bool \<Rightarrow> u64 \<Rightarrow> string \<Rightarrow> vararg list \<Rightarrow> 's \<Rightarrow> (u32 \<times> 's) option" where
  "vsnprintf out0 buffer_null maxlen format va s0 =
     (let out = (if buffer_null then out_null else out0) in
      case vsnprintf_loop out maxlen format va (0, s0) of
        None \<Rightarrow> None
      | Some (idx, s) \<Rightarrow>
          Some (ucast idx, out (CHR 0x00) (if idx < maxlen then idx else maxlen - 1) maxlen s))"

definition kprintf :: "(char \<Rightarrow> 's \<Rightarrow> 's) \<Rightarrow> string \<Rightarrow> vararg list \<Rightarrow> 's \<Rightarrow> (u32 \<times> 's) option" where
  "kprintf putchar format va s = vsnprintf (out_char putchar) False (- 1) format va s"

definition ksprintf :: "u64 \<Rightarrow> string \<Rightarrow> vararg list \<Rightarrow> memory \<Rightarrow> (u32 \<times> memory) option" where
  "ksprintf buffer format va m = vsnprintf (out_buffer buffer) (buffer = 0) (- 1) format va m"

definition ksnprintf :: "u64 \<Rightarrow> u64 \<Rightarrow> string \<Rightarrow> vararg list \<Rightarrow> memory \<Rightarrow> (u32 \<times> memory) option" where
  "ksnprintf buffer count format va m = vsnprintf (out_buffer buffer) (buffer = 0) count format va m"

definition kvprintf :: "(char \<Rightarrow> 's \<Rightarrow> 's) \<Rightarrow> string \<Rightarrow> vararg list \<Rightarrow> 's \<Rightarrow> (u32 \<times> 's) option" where
  "kvprintf putchar format va s = vsnprintf (out_char putchar) False (- 1) format va s"

definition kvsnprintf :: "u64 \<Rightarrow> u64 \<Rightarrow> string \<Rightarrow> vararg list \<Rightarrow> memory \<Rightarrow> (u32 \<times> memory) option" where
  "kvsnprintf buffer count format va m = vsnprintf (out_buffer buffer) (buffer = 0) count format va m"

definition fctprintf ::
    "(char \<Rightarrow> 'arg \<Rightarrow> 's \<Rightarrow> 's) \<Rightarrow> 'arg \<Rightarrow> string \<Rightarrow> vararg list \<Rightarrow> 's \<Rightarrow> (u32 \<times> 's) option" where
  "fctprintf fct arg format va s = vsnprintf (out_fct fct arg) False (- 1) format va s"

end
