(* ===== verification/Printf_Spec.thy ===== *)
theory Printf_Spec
  imports Printf
begin

text \<open>
  What \<open>_vsnprintf\<close> of \<open>src/src/utils/printf.c\<close> prints does not depend on where it prints: the text
  is a function of the format and the arguments, and every output function gets this text character
  by character. On this rest the bounds of the buffer versions and the laws of single directives.
\<close>

section \<open>The text of a format\<close>

definition collect :: "string out_fct" where
  "collect c idx maxlen s = s @ [c]"

lemma emit_append: "emit out maxlen (xs @ ys) st = emit out maxlen ys (emit out maxlen xs st)"
  by (induction xs arbitrary: st) auto

lemma fst_emit: "fst (emit out maxlen cs st) = fst st + of_nat (length cs)"
  by (induction cs arbitrary: st) (auto simp: algebra_simps)

lemma emit_collect: "emit collect maxlen cs (i, s) = (i + of_nat (length cs), s @ cs)"
  by (induction cs arbitrary: i s) (auto simp: collect_def algebra_simps)

lemma snd_emit_collect [simp]: "snd (emit collect maxlen cs st) = snd st @ cs"
  by (cases st) (simp add: emit_collect)

definition rev_chars :: "char list \<Rightarrow> u32 \<Rightarrow> u32 \<Rightarrow> char list" where
  "rev_chars buf width flags =
     (if flags AND FLAGS_LEFT = 0 \<and> flags AND FLAGS_ZEROPAD = 0
      then replicate (unat width - length buf) (CHR '' '') else [])
     @ rev buf
     @ (if flags AND FLAGS_LEFT \<noteq> 0 then replicate (unat width - length buf) (CHR '' '') else [])"

lemma out_rev_emit:
  assumes "length buf \<le> 32"
  shows "out_rev out maxlen buf width flags st = emit out maxlen (rev_chars buf width flags) st"
proof -
  have "unat (of_nat (length buf) :: u64) = length buf" by (rule unat_of_nat_u64) (use assms in simp)
  then show ?thesis
    by (simp add: out_rev_def rev_chars_def Let_def emit_append fst_emit)
qed

section \<open>Every conversion prints a text\<close>

lemma put_length: "length buf \<le> 32 \<Longrightarrow> length (put c buf) \<le> 32"
  by (simp add: put_def PRINTF_NTOA_BUFFER_SIZE_def)

lemma pad_zeros_length: "length buf \<le> 32 \<Longrightarrow> length (pad_zeros n buf) \<le> 32"
  by (simp add: pad_zeros_def PRINTF_NTOA_BUFFER_SIZE_def)

lemma ntoa_hash_length: "length buf \<le> 32 \<Longrightarrow> length (ntoa_hash buf base prec width flags) \<le> 32"
  unfolding ntoa_hash_def Let_def by (rule put_length) (auto simp: PRINTF_NTOA_BUFFER_SIZE_def)

lemma ntoa_digits_length: "length (ntoa_digits k flags base value) \<le> k"
  by (induction k arbitrary: "value") auto

lemmas buffer_lengths = put_length pad_zeros_length ntoa_hash_length

lemma ntoa_buf_length: "length buf \<le> 32 \<Longrightarrow> length (ntoa_buf buf negative base prec width flags) \<le> 32"
  by (simp add: ntoa_buf_def ntoa_sign_def Let_def buffer_lengths)

definition number_chars :: "u64 \<Rightarrow> bool \<Rightarrow> u64 \<Rightarrow> u32 \<Rightarrow> u32 \<Rightarrow> u32 \<Rightarrow> char list" where
  "number_chars value negative base prec width flags = snd (ntoa_long collect 0 value negative base prec width flags (0, []))"

lemma ntoa_long_emit:
  "ntoa_long out maxlen value negative base prec width flags st =
    emit out maxlen (number_chars value negative base prec width flags) st"
proof -
  have "length (if b then ntoa_digits PRINTF_NTOA_BUFFER_SIZE fl base value else []) \<le> 32" for b fl
    using ntoa_digits_length [of PRINTF_NTOA_BUFFER_SIZE fl base "value"]
    by (simp add: PRINTF_NTOA_BUFFER_SIZE_def)
  note len = ntoa_buf_length [OF this]
  show ?thesis
    unfolding number_chars_def ntoa_long_def Let_def ntoa_format_def out_rev_emit [OF len] by simp
qed

lemma ntoa_long_long_eq: "ntoa_long_long = ntoa_long"
  by (simp add: fun_eq_iff ntoa_long_def ntoa_long_long_def)

definition signed_chars :: "u64 \<Rightarrow> u32 \<Rightarrow> u32 \<Rightarrow> u32 \<Rightarrow> u32 \<Rightarrow> char list" where
  "signed_chars a base precision width flags = snd (conv_signed collect 0 a base precision width flags (0, []))"

definition unsigned_chars :: "u64 \<Rightarrow> u32 \<Rightarrow> u32 \<Rightarrow> u32 \<Rightarrow> u32 \<Rightarrow> char list" where
  "unsigned_chars a base precision width flags = snd (conv_unsigned collect 0 a base precision width flags (0, []))"

lemma conv_signed_emit:
  "conv_signed out maxlen a base precision width flags st = emit out maxlen (signed_chars a base precision width flags) st"
  unfolding signed_chars_def conv_signed_def Let_def ntoa_long_long_eq ntoa_long_emit by simp

lemma conv_unsigned_emit:
  "conv_unsigned out maxlen a base precision width flags st = emit out maxlen (unsigned_chars a base precision width flags) st"
  unfolding unsigned_chars_def conv_unsigned_def Let_def ntoa_long_long_eq ntoa_long_emit by simp

definition padded_chars :: "nat \<Rightarrow> char list \<Rightarrow> u32 \<Rightarrow> u32 \<Rightarrow> char list" where
  "padded_chars l cs width flags =
     (let pad = replicate (unat width - l) (CHR '' '') in if flags AND FLAGS_LEFT = 0 then pad @ cs else cs @ pad)"

lemma out_padded_emit: "out_padded out maxlen l cs width flags st = emit out maxlen (padded_chars l cs width flags) st"
  by (simp add: out_padded_def padded_chars_def Let_def emit_append)

definition conversion_text :: "u32 \<Rightarrow> u32 \<Rightarrow> u32 \<Rightarrow> string \<Rightarrow> vararg list \<Rightarrow> (string \<times> vararg list \<times> string) option" where
  "conversion_text flags width precision format va =
     map_option (\<lambda>(f, v, st). (f, v, snd st)) (conversion collect 0 flags width precision format va (0, []))"

lemma conversion_emit:
  "conversion out maxlen flags width precision format va st =
    map_option (\<lambda>(f, v, cs). (f, v, emit out maxlen cs st)) (conversion_text flags width precision format va)"
  unfolding conversion_text_def conversion_def conv_char_def conv_str_def conv_ptr_def Let_def
    conv_signed_emit conv_unsigned_emit out_padded_emit ntoa_long_long_eq ntoa_long_emit
  by (simp add: collect_def split: list.split vararg.split)

definition directive_text :: "string \<Rightarrow> vararg list \<Rightarrow> (string \<times> vararg list \<times> string) option" where
  "directive_text format va = map_option (\<lambda>(f, v, st). (f, v, snd st)) (directive collect 0 format va (0, []))"

lemma directive_emit:
  "directive out maxlen format va st =
    map_option (\<lambda>(f, v, cs). (f, v, emit out maxlen cs st)) (directive_text format va)"
  unfolding directive_text_def directive_def Let_def
  by (simp add: conversion_emit [of out] conversion_emit [of collect] option.map_comp o_def case_prod_unfold split: option.split prod.split)

lemma directive_text_length: "directive_text format va = Some (f, v, cs) \<Longrightarrow> length f < length format"
  by (auto simp: directive_text_def dest: directive_length)

text \<open>The text of a format with its arguments.\<close>

function render :: "string \<Rightarrow> vararg list \<Rightarrow> string option" where
  "render [] va = Some []"
| "render (c # format) va =
     (if c \<noteq> CHR ''%'' then map_option (\<lambda>cs. c # cs) (render format va)
      else (case directive_text format va of
              None \<Rightarrow> None
            | Some (format', va', cs) \<Rightarrow> map_option (\<lambda>cs'. cs @ cs') (render format' va')))"
  by pat_completeness auto
termination
  by (relation "measure (\<lambda>(format, va). length format)") (auto dest: directive_text_length)

lemma loop_emit:
  "vsnprintf_loop out maxlen format va st = map_option (\<lambda>cs. emit out maxlen cs st) (render format va)"
proof (induction format va arbitrary: st rule: render.induct)
  case (2 c format va)
  show ?case
  proof (cases "c = CHR ''%''")
    case False
    with 2(1) show ?thesis by (cases st) (simp add: vsnprintf_loop_Cons option.map_comp o_def)
  next
    case True
    show ?thesis
    proof (cases "directive_text format va")
      case (Some d)
      obtain f v cs where d: "d = (f, v, cs)" by (cases d)
      from 2(2) True Some d have IH: "\<And>st. vsnprintf_loop out maxlen f v st = map_option (\<lambda>cs. emit out maxlen cs st) (render f v)"
        by simp
      show ?thesis using True Some d IH
        by (simp add: vsnprintf_loop_Cons directive_emit option.map_comp o_def emit_append)
    qed (use True in \<open>simp add: vsnprintf_loop_Cons directive_emit\<close>)
  qed
qed simp

section \<open>The output functions\<close>

lemma emit_null: "emit out_null maxlen cs (i, s) = (i + of_nat (length cs), s)"
  by (induction cs arbitrary: i) (auto simp: out_null_def algebra_simps)

lemma emit_char: "emit (out_char putchar) maxlen cs (i, s) = (i + of_nat (length cs), fold putchar (filter (\<lambda>c. c \<noteq> CHR 0x00) cs) s)"
  by (induction cs arbitrary: i s) (auto simp: out_char_def algebra_simps)

lemma emit_buffer:
  assumes "n + length cs < 18446744073709551616"
  shows "snd (emit (out_buffer b) maxlen cs (of_nat n, m)) x =
    (if n \<le> unat (x - b) \<and> unat (x - b) < n + length cs \<and> unat (x - b) < unat maxlen
     then of_char (cs ! (unat (x - b) - n)) else m x)"
  using assms
proof (induction cs arbitrary: n m)
  case (Cons c cs)
  have n: "unat (of_nat n :: u64) = n" using Cons.prems by (intro unat_of_nat_u64) simp
  have IH: "snd (emit (out_buffer b) maxlen cs (of_nat (Suc n), m')) x =
    (if Suc n \<le> unat (x - b) \<and> unat (x - b) < Suc n + length cs \<and> unat (x - b) < unat maxlen
     then of_char (cs ! (unat (x - b) - Suc n)) else m' x)" for m'
    by (rule Cons.IH) (use Cons.prems in simp)
  have at: "x = b + of_nat n \<longleftrightarrow> unat (x - b) = n" by (rule offset_eq_iff_u64) (use Cons.prems in simp)
  have idx: "of_nat n + 1 = (of_nat (Suc n) :: u64)" by simp
  have "snd (emit (out_buffer b) maxlen (c # cs) (of_nat n, m)) x
      = snd (emit (out_buffer b) maxlen cs (of_nat (Suc n), out_buffer b c (of_nat n) maxlen m)) x"
    by (simp only: emit.simps idx)
  also have "\<dots> = (if n \<le> unat (x - b) \<and> unat (x - b) < n + length (c # cs) \<and> unat (x - b) < unat maxlen
     then of_char ((c # cs) ! (unat (x - b) - n)) else m x)"
    unfolding IH using at n by (auto simp: out_buffer_def word_less_nat_alt nth_Cons' Suc_diff_le not_le)
  finally show ?case .
qed auto

lemma vsnprintf_eq:
  "vsnprintf out False maxlen format va s =
    (case render format va of None \<Rightarrow> None
     | Some cs \<Rightarrow> (let (idx, s') = emit out maxlen cs (0, s) in
         Some (ucast idx, out (CHR 0x00) (if idx < maxlen then idx else maxlen - 1) maxlen s')))"
  by (simp add: vsnprintf_def loop_emit Let_def split: option.split prod.split)

text \<open>
  A print to a buffer of \<open>count\<close> bytes: the first \<open>count - 1\<close> characters of the text, a NUL, and
  nothing else.
\<close>

lemma ucast_of_nat_32: "ucast (of_nat n :: u64) = (of_nat n :: u32)"
  by (simp add: unsigned_of_nat word_of_nat_eq_iff)

definition buffer_after :: "u64 \<Rightarrow> u64 \<Rightarrow> string \<Rightarrow> memory \<Rightarrow> memory" where
  "buffer_after buffer count cs m =
     (\<lambda>x. let k = unat (x - buffer); p = min (length cs) (unat count - 1) in
        if count = 0 then m x else if k < p then of_char (cs ! k) else if k = p then 0 else m x)"

lemma vsnprintf_buffer:
  assumes cs: "render format va = Some cs" and len: "length cs < 18446744073709551616"
  shows "vsnprintf (out_buffer b) False count format va m =
    Some (of_nat (length cs), buffer_after b count cs m)"
proof -
  obtain idx m' where e: "emit (out_buffer b) count cs (0, m) = (idx, m')" by (cases "emit (out_buffer b) count cs (0, m)")
  have idx: "idx = of_nat (length cs)" using fst_emit [of "out_buffer b" count cs "(0, m)"] e by simp
  have unat_idx: "unat idx = length cs" unfolding idx by (rule unat_of_nat_u64 [OF len])
  have m': "m' x = (if unat (x - b) < length cs \<and> unat (x - b) < unat count then of_char (cs ! unat (x - b)) else m x)" for x
    using emit_buffer [of 0 cs b count m x] e len by simp
  have "out_buffer b (CHR 0x00) (if idx < count then idx else count - 1) count m' x = buffer_after b count cs m x" for x
  proof (cases "count = 0")
    case True
    then show ?thesis by (simp add: out_buffer_def buffer_after_def m')
  next
    case False
    let ?p = "min (length cs) (unat count - 1)"
    have pos: "0 < unat count" using False by (simp add: unat_gt_0)
    have p: "unat (if idx < count then idx else count - 1) = ?p"
      using unat_idx pos by (simp add: word_less_nat_alt unat_sub_u64)
    then have at: "x = b + (if idx < count then idx else count - 1) \<longleftrightarrow> unat (x - b) = ?p"
      by (metis add_diff_cancel_left' diff_add_cancel add.commute unsigned_word_eqI)
    have "(if idx < count then idx else count - 1) < count" using p pos by (simp add: word_less_nat_alt)
    then show ?thesis using at False m' [of x] pos
      by (auto simp: out_buffer_def buffer_after_def Let_def)
  qed
  then have "out_buffer b (CHR 0x00) (if idx < count then idx else count - 1) count m' = buffer_after b count cs m"
    by (rule ext)
  then show ?thesis by (simp add: vsnprintf_eq cs e Let_def) (simp add: idx ucast_of_nat_32)
qed

section \<open>Reading numbers back\<close>

definition digit_val :: "char \<Rightarrow> nat" where
  "digit_val c = (let n = of_char c in if n \<le> 57 then n - 48 else if n \<le> 70 then n - 55 else n - 87)"

definition parse_nat :: "nat \<Rightarrow> string \<Rightarrow> nat" where
  "parse_nat base cs = foldl (\<lambda>n c. n * base + digit_val c) 0 cs"

lemma digit_val_char: "d < 16 \<Longrightarrow> digit_val (digit_char flags d) = d"
  by (auto simp: digit_val_def digit_char_def Let_def)

lemma parse_nat_snoc: "parse_nat base (cs @ [c]) = parse_nat base cs * base + digit_val c"
  by (simp add: parse_nat_def)

lemma parse_nat_zeros: "parse_nat base (replicate n (CHR ''0'') @ cs) = parse_nat base cs"
  by (induction n) (simp_all add: parse_nat_def digit_val_def)

text \<open>The buffer holds the last \<open>k\<close> digits.\<close>

lemma parse_digits:
  assumes "2 \<le> unat base" and "unat base \<le> 16" and "0 < k"
  shows "parse_nat (unat base) (rev (ntoa_digits k flags base v)) = unat v mod unat base ^ k"
  using assms(3)
proof (induction k arbitrary: v)
  case (Suc k)
  have digit: "digit_val (digit_char flags (unat (v mod base))) = unat v mod unat base"
  proof -
    have "unat v mod unat base < unat base" using assms(1) by (intro mod_less_divisor) simp
    then show ?thesis using assms(2) by (simp add: unat_mod digit_val_char)
  qed
  have split: "unat v mod unat base ^ Suc k = (unat v div unat base mod unat base ^ k) * unat base + unat v mod unat base"
    by (simp add: mod_mult2_eq)
  show ?case
  proof (cases "v div base = 0")
    case True
    then have "unat v div unat base = 0" by (metis unat_0 unat_div)
    with True digit split show ?thesis by (simp add: parse_nat_def)
  next
    case False
    show ?thesis
    proof (cases "k = 0")
      case True
      with digit split show ?thesis by (simp add: parse_nat_def)
    next
      case False
      with Suc.IH [of "v div base"] \<open>v div base \<noteq> 0\<close> digit split show ?thesis
        by (simp add: parse_nat_snoc unat_div)
    qed
  qed
qed simp

lemma digits_32:
  assumes "4 \<le> unat base" and "unat base \<le> 16"
  shows "parse_nat (unat base) (rev (ntoa_digits 32 flags base v)) = unat v"
proof -
  have "(4 :: nat) ^ 32 \<le> unat base ^ 32" using assms(1) by (rule power_mono) simp
  then have "18446744073709551616 \<le> unat base ^ 32" by simp
  then have "unat v < unat base ^ 32" by (rule order_less_le_trans [OF unat_u64_less])
  then show ?thesis using parse_digits [of base 32 flags v] assms by simp
qed

text \<open>How many digits a number has.\<close>

lemma digits_length:
  assumes "2 \<le> unat base" and "unat v < unat base ^ n" and "0 < n" and "n \<le> k"
  shows "length (ntoa_digits k flags base v) \<le> n"
  using assms(2-4)
proof (induction k arbitrary: v n)
  case (Suc k)
  show ?case
  proof (cases "v div base = 0")
    case False
    obtain n' where n': "n = Suc n'" using Suc.prems(2) by (cases n) auto
    have lt: "unat (v div base) < unat base ^ n'"
      using Suc.prems(1) assms(1) by (simp add: unat_div div_less_iff_less_mult mult.commute n')
    moreover have "0 < n'" using lt False by (metis less_one gr0I power_0 unat_eq_zero)
    ultimately have "length (ntoa_digits k flags base (v div base)) \<le> n'"
      using Suc.IH [of "v div base" n'] Suc.prems(3) n' by simp
    with False n' show ?thesis by simp
  qed (use Suc.prems in simp)
qed simp

section \<open>Single directives\<close>

lemma number_chars_eq:
  "number_chars v negative base prec width flags0 =
    (let flags = (if v = 0 then flags0 AND NOT FLAGS_HASH else flags0);
         buf = (if flags AND FLAGS_PRECISION = 0 \<or> v \<noteq> 0 then ntoa_digits 32 flags base v else []);
         w = ntoa_width negative width flags
     in rev_chars (ntoa_buf buf negative (ucast base) prec w flags) w flags)"
proof -
  have "length (if b then ntoa_digits 32 fl base v else []) \<le> 32" for b fl
    using ntoa_digits_length [of 32 fl base v] by simp
  note len = ntoa_buf_length [OF this]
  show ?thesis
    unfolding number_chars_def ntoa_long_def ntoa_format_def Let_def PRINTF_NTOA_BUFFER_SIZE_def out_rev_emit [OF len]
    by simp
qed

lemmas flag_values = FLAGS_ZEROPAD_def FLAGS_LEFT_def FLAGS_PLUS_def FLAGS_SPACE_def FLAGS_HASH_def
  FLAGS_UPPERCASE_def FLAGS_CHAR_def FLAGS_SHORT_def FLAGS_LONG_def FLAGS_LONG_LONG_def FLAGS_PRECISION_def

lemmas parse_defs = directive_text_def directive_def parse_width_def parse_precision_def parse_length_def
  conversion_def peek_def is_digit_def int_base_def int_flags_def

lemma text_llu: "render ''%llu'' [VInt v] = Some (rev (ntoa_digits 32 0x300 10 v))"
proof -
  have "directive_text ''llu'' [VInt v] = Some ([], [], number_chars v False 10 0 0 0x300)"
    by (simp add: parse_defs flag_values conv_unsigned_def ntoa_long_long_eq ntoa_long_emit)
  moreover have "number_chars v False 10 0 0 0x300 = rev (ntoa_digits 32 0x300 10 v)"
    by (simp add: number_chars_eq flag_values ntoa_width_def ntoa_buf_def ntoa_sign_def rev_chars_def
        pad_zeros_def Let_def)
  ultimately show ?thesis by simp
qed

lemma text_lld:
  "render ''%lld'' [VInt v] = Some (if sint v < 0 then CHR ''-'' # rev (ntoa_digits 32 0x300 10 (- v))
     else rev (ntoa_digits 32 0x300 10 v))"
proof -
  have "directive_text ''lld'' [VInt v] = Some ([], [], number_chars (if 0 < sint v then v else - v) (sint v < 0) 10 0 0 0x300)"
    by (simp add: parse_defs flag_values conv_signed_def ntoa_long_long_eq ntoa_long_emit)
  moreover have "number_chars w n 10 0 0 0x300 = (if n then [CHR ''-''] else []) @ rev (ntoa_digits 32 0x300 10 w)"
    if "length (ntoa_digits 32 0x300 10 w) < 32" for w n
    using that by (cases "w = 0") (simp_all add: number_chars_eq flag_values ntoa_width_def ntoa_buf_def
        ntoa_sign_def rev_chars_def pad_zeros_def put_def PRINTF_NTOA_BUFFER_SIZE_def Let_def)
  moreover have "length (ntoa_digits 32 0x300 10 w) < 32" for w
  proof -
    have "unat w < unat (10 :: u64) ^ 20" by (rule order_less_le_trans [OF unat_u64_less]) simp
    then have "length (ntoa_digits 32 0x300 10 w) \<le> 20" by (intro digits_length) auto
    then show ?thesis by simp
  qed
  moreover have "(if 0 < sint v then v else - v) = (if sint v < 0 then - v else v)"
    by (cases "sint v = 0") (auto simp: signed_eq_0_iff)
  ultimately show ?thesis by simp
qed

text \<open>Sixteen hexadecimal digits.\<close>

definition hex16 :: "u32 \<Rightarrow> u64 \<Rightarrow> string" where
  "hex16 flags v = replicate (16 - length (ntoa_digits 32 flags 16 v)) (CHR ''0'') @ rev (ntoa_digits 32 flags 16 v)"

lemma hex16_length: "length (hex16 flags v) = 16"
proof -
  have "unat v < unat (16 :: u64) ^ 16" by (rule order_less_le_trans [OF unat_u64_less]) simp
  then have "length (ntoa_digits 32 flags 16 v) \<le> 16" by (intro digits_length) auto
  then show ?thesis by (simp add: hex16_def)
qed

lemma hex16_value: "parse_nat 16 (hex16 flags v) = unat v"
  using digits_32 [of 16 flags v] by (simp add: hex16_def parse_nat_zeros)

lemma hex16_number:
  assumes "flags AND FLAGS_LEFT = 0" and "flags AND FLAGS_ZEROPAD \<noteq> 0" and "flags AND FLAGS_PRECISION = 0"
    and "flags AND FLAGS_HASH = 0" and "flags AND FLAGS_PLUS = 0" and "flags AND FLAGS_SPACE = 0"
  shows "number_chars v False 16 0 16 flags = hex16 flags v"
proof -
  have "flags AND (FLAGS_PLUS OR FLAGS_SPACE) = 0" using assms(5,6) by (simp add: bit.conj_disj_distrib)
  moreover have "flags AND NOT FLAGS_HASH = flags"
  proof (rule bit_word_eqI)
    fix k assume "k < LENGTH(32)"
    have "\<not> bit (flags AND FLAGS_HASH) k" using assms(4) by simp
    then show "bit (flags AND NOT FLAGS_HASH) k = bit flags k"
      using \<open>k < LENGTH(32)\<close> by (auto simp: bit_and_iff bit_not_iff)
  qed
  moreover have "length (ntoa_digits 32 flags 16 v) \<le> 16"
    using hex16_length [of flags v] by (auto simp: hex16_def)
  ultimately show ?thesis using assms
    by (simp add: number_chars_eq ntoa_width_def ntoa_buf_def ntoa_sign_def rev_chars_def pad_zeros_def
        PRINTF_NTOA_BUFFER_SIZE_def Let_def hex16_def)
qed

lemma directive_016llx: "directive_text (''016llx'' @ rest) (VInt v # va) = Some (rest, va, hex16 0x301 v)"
proof -
  have "directive_text (''016llx'' @ rest) (VInt v # va) = Some (rest, va, number_chars v False 16 0 16 0x301)"
    by (simp add: parse_defs flag_values conv_unsigned_def ntoa_long_long_eq ntoa_long_emit)
  moreover have "number_chars v False 16 0 16 0x301 = hex16 0x301 v" by (rule hex16_number) (simp_all add: flag_values)
  ultimately show ?thesis by simp
qed

lemma text_016llx: "render ''%016llx'' [VInt v] = Some (hex16 0x301 v)"
  using directive_016llx [of "[]" v "[]"] by simp

text \<open>A non-negative \<open>int\<close> in decimal.\<close>

lemma directive_d:
  assumes "n < 2147483648"
  shows "directive_text (''d'' @ rest) (VInt (of_nat n) # va) = Some (rest, va, rev (ntoa_digits 32 0 10 (of_nat n)))"
proof -
  have u: "unat (of_nat n :: u32) = n" using assms by (simp add: unat_of_nat)
  then have s: "sint (of_nat n :: u32) = int n"
    using assms by (simp add: signed_of_nat signed_take_bit_int_eq_self)
  have c: "ucast (of_nat n :: u64) = (of_nat n :: u32)" "ucast (of_nat n :: u32) = (of_nat n :: u64)"
    using u by (simp_all add: ucast_of_nat_32) (metis of_nat_unat)
  have "directive_text (''d'' @ rest) (VInt (of_nat n) # va) = Some (rest, va, number_chars (of_nat n) False 10 0 0 0)"
    using s by (cases "n = 0") (simp_all add: parse_defs flag_values conv_signed_def ntoa_long_emit c Let_def)
  moreover have "number_chars (of_nat n) False 10 0 0 0 = rev (ntoa_digits 32 0 10 (of_nat n))"
    by (simp add: number_chars_eq flag_values ntoa_width_def ntoa_buf_def ntoa_sign_def rev_chars_def pad_zeros_def Let_def)
  ultimately show ?thesis by simp
qed

lemma text_llb: "render ''%llb'' [VInt v] = Some (rev (ntoa_digits 32 0x300 2 v))"
proof -
  have "directive_text ''llb'' [VInt v] = Some ([], [], number_chars v False 2 0 0 0x300)"
    by (simp add: parse_defs flag_values conv_unsigned_def ntoa_long_long_eq ntoa_long_emit)
  moreover have "number_chars v False 2 0 0 0x300 = rev (ntoa_digits 32 0x300 2 v)"
    by (simp add: number_chars_eq flag_values ntoa_width_def ntoa_buf_def ntoa_sign_def rev_chars_def
        pad_zeros_def Let_def)
  ultimately show ?thesis by simp
qed

definition hex_text :: "u64 \<Rightarrow> string" where
  "hex_text v = number_chars v False 16 0 0 0x300"

definition hex4_text :: "u64 \<Rightarrow> string" where
  "hex4_text v = number_chars v False 16 0 4 0x301"

lemma directive_llx: "directive_text (''llx'' @ rest) (VInt v # va) = Some (rest, va, hex_text v)"
  by (simp add: hex_text_def parse_defs flag_values conv_unsigned_def ntoa_long_long_eq ntoa_long_emit)

lemma directive_04llx: "directive_text (''04llx'' @ rest) (VInt v # va) = Some (rest, va, hex4_text v)"
  by (simp add: hex4_text_def parse_defs flag_values conv_unsigned_def ntoa_long_long_eq ntoa_long_emit)

lemma directive_s:
  "length p < 4294967296 \<Longrightarrow> directive_text (''s'' @ rest) (VStr p # va) = Some (rest, va, p)"
  by (simp add: parse_defs flag_values conv_str_def out_padded_emit padded_chars_def strnlen_s_def Let_def)

lemma directive_p: "directive_text (''p'' @ rest) (VInt v # va) = Some (rest, va, hex16 0x21 v)"
proof -
  have "directive_text (''p'' @ rest) (VInt v # va) = Some (rest, va, number_chars v False 16 0 16 0x21)"
    by (simp add: parse_defs flag_values conv_ptr_def ntoa_long_long_eq ntoa_long_emit)
  moreover have "number_chars v False 16 0 16 0x21 = hex16 0x21 v" by (rule hex16_number) (simp_all add: flag_values)
  ultimately show ?thesis by simp
qed

lemma text_p: "render ''%p'' [VInt v] = Some (hex16 0x21 v)"
  using directive_p [of "[]" v "[]"] by simp

lemma directive_llu: "directive_text (''llu'' @ rest) (VInt v # va) = Some (rest, va, number_chars v False 10 0 0 0x300)"
  by (simp add: parse_defs flag_values conv_unsigned_def ntoa_long_long_eq ntoa_long_emit)

lemma directive_u: "directive_text (''u'' @ rest) (VInt v # va) = Some (rest, va, number_chars (ucast (ucast v :: u32)) False 10 0 0 0)"
  by (simp add: parse_defs flag_values conv_unsigned_def ntoa_long_emit)

lemmas directive_texts = directive_016llx [simplified] directive_llx [simplified] directive_04llx [simplified]
  directive_s [simplified] directive_p [simplified] directive_llu [simplified] directive_u [simplified]

section \<open>Character output\<close>

lemma kprintf_eq:
  "kprintf putchar format va s = map_option
     (\<lambda>cs. (of_nat (length cs), fold putchar (filter (\<lambda>c. c \<noteq> CHR 0x00) cs) s)) (render format va)"
proof (cases "render format va")
  case None
  then show ?thesis by (simp add: kprintf_def vsnprintf_eq)
next
  case (Some cs)
  then show ?thesis
    by (simp add: kprintf_def vsnprintf_eq emit_char Let_def ucast_of_nat_32) (simp add: out_char_def)
qed

lemma kvprintf_eq: "kvprintf = kprintf"
  by (simp add: fun_eq_iff kvprintf_def kprintf_def)

text \<open>
  A device that takes characters one by one: \<open>put1\<close> may fail in general, but not in the states of
  \<open>inv\<close>; \<open>out\<close> is what it has received and \<open>keep\<close> the part of the state it does not change.
\<close>

definition visible :: "string \<Rightarrow> u8 list" where
  "visible cs = map of_char (filter (\<lambda>c. c \<noteq> CHR 0x00) cs)"

lemma visible_append [simp]: "visible (xs @ ys) = visible xs @ visible ys"
  by (simp add: visible_def)

definition print_with :: "(char \<Rightarrow> 's \<Rightarrow> 's option) \<Rightarrow> string \<Rightarrow> vararg list \<Rightarrow> 's \<Rightarrow> 's option" where
  "print_with put1 format va s = Option.bind (kprintf (\<lambda>c os. Option.bind os (put1 c)) format va (Some s)) snd"

lemma print_with_eq:
  "print_with put1 format va s = Option.bind (render format va)
    (\<lambda>cs. fold (\<lambda>c os. Option.bind os (put1 c)) (filter (\<lambda>c. c \<noteq> CHR 0x00) cs) (Some s))"
  by (cases "render format va") (simp_all add: print_with_def kprintf_eq)

locale char_device =
  fixes put1 :: "char \<Rightarrow> 's \<Rightarrow> 's option"
    and inv :: "'s \<Rightarrow> bool"
    and out :: "'s \<Rightarrow> u8 list"
    and keep :: "'s \<Rightarrow> 'k"
  assumes put_char: "inv s \<Longrightarrow> \<exists>s'. put1 c s = Some s' \<and> inv s' \<and> out s' = out s @ [of_char c] \<and> keep s' = keep s"
begin

lemma put_chars:
  "inv s \<Longrightarrow> \<exists>s'. fold (\<lambda>c os. Option.bind os (put1 c)) cs (Some s) = Some s' \<and> inv s'
    \<and> out s' = out s @ map of_char cs \<and> keep s' = keep s"
proof (induction cs arbitrary: s)
  case (Cons c cs)
  from put_char [OF Cons.prems, of c] obtain u where
    u: "put1 c s = Some u" "inv u" "out u = out s @ [of_char c]" "keep u = keep s" by blast
  from Cons.IH [OF u(2)] u show ?case by auto
qed simp

lemma print_text:
  assumes "inv s" and "render format va = Some cs"
  shows "\<exists>s'. print_with put1 format va s = Some s' \<and> inv s' \<and> out s' = out s @ visible cs \<and> keep s' = keep s"
  using put_chars [OF assms(1), of "filter (\<lambda>c. c \<noteq> CHR 0x00) cs"] assms(2) by (simp add: print_with_eq visible_def)

end

end
