(* ===== verification/Printf_Properties.thy ===== *)
theory Printf_Properties
  imports Printf_Spec
begin

text \<open>The properties of the formatted output of \<open>src/src/utils/printf.c\<close>.\<close>

section \<open>Where the text goes\<close>


text \<open>C12: \<open>ksnprintf\<close> writes into a buffer of \<open>count\<close> bytes the first \<open>count - 1\<close> characters of the
  text and a NUL after them, writes no byte outside the buffer, and returns the length of the whole
  text.\<close>

theorem ksnprintf_bounded:
  assumes "render format va = Some cs" and "length cs < 18446744073709551616" and "buffer \<noteq> 0"
  shows "\<exists>m'. ksnprintf buffer count format va m = Some (of_nat (length cs), m')
    \<and> (\<forall>k<min (length cs) (unat count - 1). m' (buffer + of_nat k) = of_char (cs ! k))
    \<and> (count \<noteq> 0 \<longrightarrow> m' (buffer + of_nat (min (length cs) (unat count - 1))) = 0)
    \<and> (\<forall>x. unat count \<le> unat (x - buffer) \<longrightarrow> m' x = m x)"
proof -
  let ?p = "min (length cs) (unat count - 1)"
  have small: "k \<le> ?p \<Longrightarrow> unat (buffer + of_nat k - buffer) = k" for k
    using assms(2) by (intro unat_offset_u64) simp
  have nz: "k < ?p \<Longrightarrow> count \<noteq> 0" for k by auto
  have out: "buffer_after buffer count cs m x = m x" if "unat count \<le> unat (x - buffer)" for x
  proof (cases "count = 0")
    case False
    then have "0 < unat count" by (simp add: unat_gt_0)
    then have "?p < unat count" by auto
    with that have "\<not> unat (x - buffer) < ?p" "unat (x - buffer) \<noteq> ?p" by linarith+
    then show ?thesis unfolding buffer_after_def Let_def by (simp only: if_False if_cancel)
  qed (simp add: buffer_after_def)
  have "buffer_after buffer count cs m (buffer + of_nat k) = of_char (cs ! k)" if "k < ?p" for k
    using small [of k] that nz [OF that] by (simp add: buffer_after_def Let_def)
  moreover have "count \<noteq> 0 \<Longrightarrow> buffer_after buffer count cs m (buffer + of_nat ?p) = 0"
    using small [of ?p] unfolding buffer_after_def Let_def by (simp only: order_refl less_irrefl if_True if_False refl)
  ultimately show ?thesis
    using out vsnprintf_buffer [OF assms(1,2), of buffer count m] assms(3) by (simp add: ksnprintf_def)
qed

theorem ksnprintf_bounded_witness:
  "\<exists>m'. ksnprintf 0x1000 3 ''abcd'' [] (\<lambda>_. 7) = Some (4, m') \<and> m' 0x1001 = of_char (CHR ''b'') \<and> m' 0x1002 = 0 \<and> m' 0x1003 = 7"
proof -
  have r: "render ''abcd'' [] = Some ''abcd''" by simp
  have "min (length ''abcd'') (unat (3 :: u64) - 1) = 2" by simp
  from ksnprintf_bounded [OF r, of "0x1000" 3 "\<lambda>_. 7"] obtain m' where
    m': "ksnprintf 0x1000 3 ''abcd'' [] (\<lambda>_. 7) = Some (4, m')" "\<forall>k<2. m' (0x1000 + of_nat k) = of_char (''abcd'' ! k)"
      "m' (0x1000 + of_nat 2) = 0" "\<forall>x. 3 \<le> unat (x - 0x1000) \<longrightarrow> m' x = 7" by auto
  from m'(2) [rule_format, of 1] m'(3) m'(4) [rule_format, of "0x1003"] m'(1) show ?thesis by simp
qed

section \<open>Numbers\<close>

definition parse_int :: "string \<Rightarrow> int" where
  "parse_int cs = (if cs \<noteq> [] \<and> hd cs = CHR ''-'' then - int (parse_nat 10 (tl cs)) else int (parse_nat 10 cs))"

lemma digits_no_minus:
  assumes "0 < k"
  shows "rev (ntoa_digits k flags 10 v) \<noteq> [] \<and> hd (rev (ntoa_digits k flags 10 v)) \<noteq> CHR ''-''"
proof -
  have "c \<noteq> CHR ''-''" if "c \<in> set (ntoa_digits k flags 10 v)" for c k and v :: u64
    using that
  proof (induction k arbitrary: v)
    case (Suc k)
    have "digit_char flags (unat (v mod 10)) \<noteq> CHR ''-''"
    proof
      assume "digit_char flags (unat (v mod 10)) = CHR ''-''"
      moreover have "unat (v mod 10) < 10" by (simp add: unat_mod)
      ultimately have "char_of (48 + unat (v mod 10)) = CHR ''-''" by (simp add: digit_char_def)
      then have "(of_char (char_of (48 + unat (v mod 10)) :: char) :: nat) = of_char (CHR ''-'')" by simp
      with \<open>unat (v mod 10) < 10\<close> show False by simp
    qed
    with Suc show ?case by (auto split: if_splits)
  qed simp
  moreover have ne: "ntoa_digits k flags 10 v \<noteq> []" using assms by (cases k) auto
  ultimately show ?thesis by (metis last_in_set hd_rev rev_is_Nil_conv)
qed

lemma int_unat_of_int: "0 \<le> k \<Longrightarrow> k < 18446744073709551616 \<Longrightarrow> int (unat (of_int k :: u64)) = k"
  by (simp add: unsigned_of_int take_bit_int_eq_self)


text \<open>\<open>%p\<close> and \<open>%016llx\<close> print every 64-bit argument as sixteen hexadecimal digits that read
  back as the argument.\<close>

theorem pointer_roundtrip:
  "format \<in> {''%p'', ''%016llx''} \<Longrightarrow>
    \<exists>cs. render format [VInt v] = Some cs \<and> length cs = 16 \<and> parse_nat 16 cs = unat v"
  using text_p [of v] text_016llx [of v] hex16_length hex16_value by auto

theorem pointer_roundtrip_witness:
  "\<exists>cs. render ''%016llx'' [VInt 0xFFFF800000001000] = Some cs \<and> length cs = 16
    \<and> parse_nat 16 cs = 0xFFFF800000001000"
  using pointer_roundtrip [of "''%016llx''" "0xFFFF800000001000"] by simp

text \<open>\<open>%llb\<close> prints at most 32 binary digits: what it prints reads back as the argument modulo
  \<open>2\<^sup>3\<^sup>2\<close>, so that the high half of a 64-bit argument is lost.\<close>

theorem binary_truncated:
  "map_option (parse_nat 2) (render ''%llb'' [VInt v]) = Some (unat v mod 4294967296)"
  unfolding text_llb using parse_digits [of 2 32 "0x300" v] by simp

section \<open>Undefined formats\<close>

text \<open>A format without directives is printed as it is, and a format whose last character starts
  a directive has no defined output: the code would read past the end of the format string.\<close>

theorem trailing_percent:
  "CHR ''%'' \<notin> set cs \<Longrightarrow> render cs va = Some cs \<and> render (cs @ ''%'') va = None"
proof (induction cs)
  case Nil
  have "directive_text [] va = None"
    by (simp add: directive_text_def directive_def parse_width_def parse_precision_def parse_length_def
        conversion_def peek_def is_digit_def)
  then show ?case by simp
qed auto

theorem trailing_percent_witness: "render ''100'' [] = Some ''100'' \<and> render ''100%'' [] = None"
  using trailing_percent [of "''100''" "[]"] by simp

end
