(* ===== verification/Framebuffer.thy ===== *)
theory Framebuffer
  imports Memory Loops
begin

text \<open>
  The framebuffer driver of \<open>src/src/drivers/screen/framebuffer.c\<close>: the screen is an array of
  32-bit pixels in memory, \<open>pitch\<close> bytes from one row to the next. The operations take the static
  variable \<open>framebuffer\<close> and the memory they write; coordinates keep the 32-bit width they have in
  the code and wrap where the code lets them wrap.
\<close>

section \<open>Data\<close>

record framebuffer_t =
  address :: u64
  width :: u64
  height :: u64
  pitch :: u64
  is_ready :: bool

record fb_color_t =
  red :: u8
  green :: u8
  blue :: u8

definition RED :: "u8 \<Rightarrow> u32" where "RED r = push_bit 16 (ucast r AND 0xFF)"
definition GREEN :: "u8 \<Rightarrow> u32" where "GREEN g = push_bit 8 (ucast g AND 0xFF)"
definition BLUE :: "u8 \<Rightarrow> u32" where "BLUE b = ucast b AND 0xFF"

definition GET_RED :: "u32 \<Rightarrow> u8" where "GET_RED px = ucast (drop_bit 16 px AND 0xFF)"
definition GET_GREEN :: "u32 \<Rightarrow> u8" where "GET_GREEN px = ucast (drop_bit 8 px AND 0xFF)"
definition GET_BLUE :: "u32 \<Rightarrow> u8" where "GET_BLUE px = ucast (px AND 0xFF)"

definition color_int :: "fb_color_t \<Rightarrow> u32" where
  "color_int c = RED (red c) OR GREEN (green c) OR BLUE (blue c)"

text \<open>\<open>&framebuffer.address[y * (framebuffer.pitch / 4) + x]\<close>.\<close>

definition pixel_addr :: "framebuffer_t \<Rightarrow> u64 \<Rightarrow> u64 \<Rightarrow> u64" where
  "pixel_addr fb y x = address fb + 4 * (y * (pitch fb div 4) + x)"

section \<open>Operations\<close>

definition fb_init :: "framebuffer_t \<Rightarrow> framebuffer_t" where
  "fb_init fb = \<lparr>address = address fb, width = width fb, height = height fb, pitch = pitch fb, is_ready = True\<rparr>"

definition fb_clear_screen :: "fb_color_t \<Rightarrow> framebuffer_t \<Rightarrow> memory \<Rightarrow> memory" where
  "fb_clear_screen clear_color fb m =
     (if \<not> is_ready fb then m
      else fold (\<lambda>y. fold (\<lambda>x. store32 (pixel_addr fb (of_nat y) (of_nat x)) (color_int clear_color))
                  [0..<unat (width fb)]) [0..<unat (height fb)] m)"

text \<open>
  The part of an image that is drawn along one axis, \<open>(x + width > framebuffer.width) ?
  framebuffer.width - x : width\<close>: the sum is one of 32-bit numbers, the comparison and the
  difference are 64 bits wide, and the result is cut to 32 bits.
\<close>

definition draw_extent :: "u32 \<Rightarrow> u32 \<Rightarrow> u64 \<Rightarrow> u32" where
  "draw_extent x w fb_w = (if ucast (x + w) > fb_w then ucast (fb_w - ucast x) else w)"

definition draw_pixel :: "framebuffer_t \<Rightarrow> u32 \<Rightarrow> u32 \<Rightarrow> u32 \<Rightarrow> u64 \<Rightarrow> u32 \<Rightarrow> u32 \<Rightarrow> memory \<Rightarrow> memory" where
  "draw_pixel fb x y w pixels row col m =
     (let pixel = load32 m (pixels + 4 * ucast (row * w + col));
          alpha = drop_bit 24 pixel AND 0xFF
      in if alpha = 0 then m
         else store32 (address fb + 4 * (ucast (y + row) * drop_bit 2 (pitch fb) + ucast (x + col)))
                (pixel AND 0x00FFFFFF) m)"

definition fb_draw_image :: "u32 \<Rightarrow> u32 \<Rightarrow> u32 \<Rightarrow> u32 \<Rightarrow> u64 \<Rightarrow> framebuffer_t \<Rightarrow> memory \<Rightarrow> memory" where
  "fb_draw_image x y w h pixels fb m =
     (if \<not> is_ready fb then m
      else if pixels = 0 then m
      else if ucast x \<ge> width fb then m
      else if ucast y \<ge> height fb then m
      else fold (\<lambda>row. fold (\<lambda>col. draw_pixel fb x y w pixels (of_nat row) (of_nat col))
                  [0..<unat (draw_extent x w (width fb))])
             [0..<unat (draw_extent y h (height fb))] m)"

definition fb_plot_pixel :: "u32 \<Rightarrow> u32 \<Rightarrow> fb_color_t \<Rightarrow> framebuffer_t \<Rightarrow> memory \<Rightarrow> memory" where
  "fb_plot_pixel x y color fb m =
     (if \<not> is_ready fb then m
      else if ucast x \<ge> width fb then m
      else if ucast y \<ge> height fb then m
      else store32 (pixel_addr fb (ucast y) (ucast x)) (color_int color) m)"

definition fb_get_pixel :: "u32 \<Rightarrow> u32 \<Rightarrow> framebuffer_t \<Rightarrow> memory \<Rightarrow> fb_color_t" where
  "fb_get_pixel x y fb m =
     (if \<not> is_ready fb \<or> ucast x \<ge> width fb \<or> ucast y \<ge> height fb then \<lparr>red = 0, green = 0, blue = 0\<rparr>
      else let px = load32 m (pixel_addr fb (ucast y) (ucast x))
           in \<lparr>red = GET_RED px, green = GET_GREEN px, blue = GET_BLUE px\<rparr>)"

section \<open>Colours\<close>

lemma and_0xFF: "w AND 0xFF = take_bit 8 w" for w :: u32
proof -
  have "(0xFF :: u32) = mask 8" by (simp add: mask_eq_exp_minus_1)
  then show ?thesis by (simp only: take_bit_eq_mask)
qed

lemma color_roundtrip [simp]:
  "GET_RED (color_int c) = red c" "GET_GREEN (color_int c) = green c" "GET_BLUE (color_int c) = blue c"
  by (rule bit_word_eqI;
      auto simp: GET_RED_def GET_GREEN_def GET_BLUE_def color_int_def RED_def GREEN_def BLUE_def and_0xFF bit_simps
        dest: bit_imp_le_length)+

section \<open>Pixels of a screen\<close>

text \<open>
  A screen as the boot loader describes it: a row holds the visible pixels, and the rows fit into
  the address space. \<open>pixel_at\<close> reads the pixel of a row and a column.
\<close>

definition row_pixels :: "framebuffer_t \<Rightarrow> nat" where
  "row_pixels fb = unat (pitch fb) div 4"

definition fb_ok :: "framebuffer_t \<Rightarrow> bool" where
  "fb_ok fb \<longleftrightarrow> unat (width fb) \<le> row_pixels fb \<and> 4 * (unat (height fb) * row_pixels fb) \<le> 18446744073709551616"

definition on_screen :: "framebuffer_t \<Rightarrow> nat \<times> nat \<Rightarrow> bool" where
  "on_screen fb k \<longleftrightarrow> fst k < unat (height fb) \<and> snd k < unat (width fb)"

definition pixel_at :: "framebuffer_t \<Rightarrow> memory \<Rightarrow> nat \<times> nat \<Rightarrow> u32 option" where
  "pixel_at fb m k =
     (if on_screen fb k then Some (load32 m (pixel_addr fb (of_nat (fst k)) (of_nat (snd k)))) else None)"

text \<open>The bytes the screen occupies.\<close>

definition fb_byte :: "framebuffer_t \<Rightarrow> u64 \<Rightarrow> bool" where
  "fb_byte fb a \<longleftrightarrow> unat (a - address fb) < 4 * (unat (height fb) * row_pixels fb)"

definition slot :: "framebuffer_t \<Rightarrow> nat \<times> nat \<Rightarrow> nat" where
  "slot fb k = fst k * row_pixels fb + snd k"

lemma pixel_addr_slot: "pixel_addr fb (of_nat y) (of_nat x) = address fb + of_nat (4 * slot fb (y, x))"
proof -
  have "unat (pitch fb div 4) = row_pixels fb" by (simp add: row_pixels_def unat_div)
  then have "pitch fb div 4 = of_nat (row_pixels fb)" by (metis of_nat_unat_u64 add_0 diff_zero)
  then show ?thesis by (simp add: pixel_addr_def slot_def)
qed

lemma slot_less: "fb_ok fb \<Longrightarrow> on_screen fb k \<Longrightarrow> slot fb k < unat (height fb) * row_pixels fb"
proof -
  assume ok: "fb_ok fb" "on_screen fb k"
  then have "snd k < row_pixels fb" "Suc (fst k) \<le> unat (height fb)" by (auto simp: fb_ok_def on_screen_def)
  then have "slot fb k < Suc (fst k) * row_pixels fb" by (simp add: slot_def)
  also have "\<dots> \<le> unat (height fb) * row_pixels fb" by (rule mult_le_mono1) fact
  finally show ?thesis .
qed

lemma slot_bound: "fb_ok fb \<Longrightarrow> on_screen fb k \<Longrightarrow> 4 * slot fb k + 4 \<le> 18446744073709551616"
  using slot_less [of fb k] unfolding fb_ok_def by linarith

lemma slot_inj:
  assumes "fb_ok fb" "on_screen fb k" "on_screen fb l" "slot fb k = slot fb l" shows "k = l"
proof -
  have less: "snd k < row_pixels fb" "snd l < row_pixels fb" using assms by (auto simp: fb_ok_def on_screen_def)
  have "slot fb j div row_pixels fb = fst j" "slot fb j mod row_pixels fb = snd j" if "snd j < row_pixels fb" for j
    using that by (simp_all add: slot_def)
  with less assms(4) show ?thesis by (metis prod.expand)
qed

text \<open>Cells of four bytes at multiples of four do not overlap.\<close>

lemma cell_store_load:
  assumes n: "4 * n + 4 \<le> 18446744073709551616" and k: "4 * k + 4 \<le> 18446744073709551616"
  shows "load32 (store32 (a + of_nat (4 * n)) v m) (a + of_nat (4 * k))
    = (if k = n then v else load32 m (a + of_nat (4 * k)))"
proof (cases "k = n")
  case False
  have "4 \<le> unat (a + of_nat (4 * k) + of_nat i - (a + of_nat (4 * n)))" if "i < 4" for i
  proof -
    have "a + of_nat (4 * k) + of_nat i - (a + of_nat (4 * n)) = of_nat (4 * k + i) - of_nat (4 * n)" by simp
    moreover have "unat (of_nat (4 * k + i) :: u64) = 4 * k + i" "unat (of_nat (4 * n) :: u64) = 4 * n"
      using n k that by (intro unat_of_nat_u64; simp)+
    ultimately show ?thesis using False n k that by (simp only: unat_sub_if') (simp add: not_le, linarith)
  qed
  then have "load_le 4 (store_le 4 (a + of_nat (4 * n)) v m) (a + of_nat (4 * k)) = (load_le 4 m (a + of_nat (4 * k)) :: u32)"
    by (rule load_store_le_other)
  with False show ?thesis by (simp add: load32_def store32_def)
qed simp

lemma pixel_at_store:
  assumes ok: "fb_ok fb" and y: "on_screen fb (y, x)"
  shows "pixel_at fb (store32 (pixel_addr fb (of_nat y) (of_nat x)) v m) k
    = (if k = (y, x) then Some v else pixel_at fb m k)"
proof (cases "on_screen fb k")
  case True
  obtain y' x' where k: "k = (y', x')" by (cases k)
  have "4 * slot fb (y, x) + 4 \<le> 18446744073709551616" "4 * slot fb k + 4 \<le> 18446744073709551616"
    by (rule slot_bound [OF ok y] slot_bound [OF ok True])+
  moreover have "slot fb k = slot fb (y, x) \<longleftrightarrow> k = (y, x)" using slot_inj [OF ok True y] by auto
  ultimately show ?thesis using True k by (simp only: pixel_at_def pixel_addr_slot cell_store_load fst_conv snd_conv if_True) simp
qed (use y in \<open>auto simp: pixel_at_def\<close>)

lemma store_on_screen_frame:
  assumes ok: "fb_ok fb" and y: "on_screen fb (y, x)" and a: "\<not> fb_byte fb a"
  shows "store32 (pixel_addr fb (of_nat y) (of_nat x)) v m a = m a"
proof -
  have s: "4 * slot fb (y, x) + 4 \<le> 4 * (unat (height fb) * row_pixels fb)" using slot_less [OF ok y] by simp
  have b: "4 * slot fb (y, x) < 18446744073709551616" using slot_bound [OF ok y] by simp
  have "unat (a - (address fb + of_nat (4 * slot fb (y, x)))) \<ge> 4"
    using a s b by (simp only: unat_sub_add_u64 unat_of_nat_u64 fb_byte_def not_less) simp
  then show ?thesis by (simp only: pixel_addr_slot store32_def store_le_out)
qed

section \<open>What the loops draw\<close>

text \<open>The clearing loop updates every pixel of the screen with one colour.\<close>

interpretation clear: keyed_updates "\<lambda>_ :: memory. fb_ok fb"
    "\<lambda>i m m'. on_screen fb i \<and> m' = store32 (pixel_addr fb (of_nat (fst i)) (of_nat (snd i))) c m"
    "pixel_at fb" "(=)" "\<lambda>_. Some c" for fb c
  by unfold_locales (auto simp: pixel_at_store)

lemma fb_clear_screen_run:
  "is_ready fb \<Longrightarrow> fb_clear_screen color fb m = fold (\<lambda>i. store32 (pixel_addr fb (of_nat (fst i)) (of_nat (snd i))) (color_int color))
      (grid (unat (height fb)) (unat (width fb))) m"
  by (simp add: fb_clear_screen_def fold_grid split_def)

lemma fb_clear_screen_pixel:
  assumes ok: "fb_ok fb" and "is_ready fb" and k: "on_screen fb k"
  shows "pixel_at fb (fb_clear_screen color fb m) k = Some (color_int color)"
proof -
  let ?is = "grid (unat (height fb)) (unat (width fb))"
  have "run (\<lambda>i m m'. on_screen fb i \<and> m' = store32 (pixel_addr fb (of_nat (fst i)) (of_nat (snd i))) (color_int color) m)
      ?is m (fb_clear_screen color fb m)"
    unfolding fb_clear_screen_run [OF assms(2)] by (rule run_fold_guard) (auto simp: on_screen_def)
  then show ?thesis by (rule clear.run_hit [OF ok _ _ refl]) (use k in \<open>auto simp: on_screen_def mem_Times_iff\<close>)
qed

lemma fb_clear_screen_frame:
  assumes "fb_ok fb" and "\<not> fb_byte fb a"
  shows "fb_clear_screen color fb m a = m a"
proof (cases "is_ready fb")
  case True
  have "store32 (pixel_addr fb (of_nat (fst i)) (of_nat (snd i))) c m a = m a" if "on_screen fb i" for i c m
    using store_on_screen_frame [OF assms(1) _ assms(2), of "fst i" "snd i"] that by simp
  with True show ?thesis unfolding fb_clear_screen_run [OF True] by (intro fold_frame) (auto simp: on_screen_def)
qed (simp add: fb_clear_screen_def)

section \<open>Images\<close>

text \<open>
  An image of \<open>w * h\<close> pixels at \<open>pixels\<close> that can be drawn at \<open>(x, y)\<close>: its corners and its size
  do not overflow 32 bits, and it does not lie in the memory of the screen. \<open>img\<close> are its pixels.
\<close>

definition image_addr :: "u64 \<Rightarrow> u32 \<Rightarrow> nat \<times> nat \<Rightarrow> u64" where
  "image_addr pixels w k = pixels + of_nat (4 * (fst k * unat w + snd k))"

definition image_at :: "u64 \<Rightarrow> u32 \<Rightarrow> memory \<Rightarrow> nat \<times> nat \<Rightarrow> u32" where
  "image_at pixels w m k = load32 m (image_addr pixels w k)"

definition drawable :: "u32 \<Rightarrow> u32 \<Rightarrow> u32 \<Rightarrow> u32 \<Rightarrow> u64 \<Rightarrow> framebuffer_t \<Rightarrow> bool" where
  "drawable x y w h pixels fb \<longleftrightarrow> fb_ok fb
     \<and> unat x + unat w < 4294967296 \<and> unat y + unat h < 4294967296 \<and> unat h * unat w \<le> 4294967296
     \<and> (\<forall>r<unat h. \<forall>c<unat w. \<forall>b<4. \<not> fb_byte fb (image_addr pixels w (r, c) + of_nat b))"

definition opaque :: "u32 \<Rightarrow> bool" where
  "opaque px \<longleftrightarrow> drop_bit 24 px AND 0xFF \<noteq> 0"

lemma unat_of_nat_u32: "n < 4294967296 \<Longrightarrow> unat (of_nat n :: u32) = n"
  by (simp add: unat_of_nat)

lemma ucast_of_nat_u32: "n < 4294967296 \<Longrightarrow> ucast (of_nat n :: u32) = (of_nat n :: u64)"
  by (metis unat_of_nat_u32 of_nat_unat)

lemma unat_ucast_32_64: "unat (ucast (w :: u32) :: u64) = unat w"
  using order_less_trans [OF unat_u32_less [of w], of "2 ^ 64"] by (simp add: unsigned_ucast_eq take_bit_nat_eq_self)

lemma ucast_add_u32:
  "unat x + n < 4294967296 \<Longrightarrow> ucast (x + of_nat n :: u32) = (of_nat (unat x + n) :: u64)"
proof -
  assume n: "unat x + n < 4294967296"
  have "x + of_nat n = of_nat (unat x + n)" by simp
  with n show ?thesis by (simp only: ucast_of_nat_u32)
qed

lemma unat_draw_extent:
  assumes "unat x + unat w < 4294967296" and "ucast x < fb_w"
  shows "unat (draw_extent x w fb_w) = min (unat w) (unat fb_w - unat x)"
proof -
  have sum: "unat (ucast (x + w) :: u64) = unat x + unat w"
    using assms(1) by (simp add: unat_ucast_32_64 unat_word_ariths)
  have x: "unat x < unat fb_w" using assms(2) by (simp add: word_less_nat_alt unat_ucast_32_64)
  then have diff: "unat (fb_w - ucast x) = unat fb_w - unat x" by (simp add: unat_sub_u64 unat_ucast_32_64)
  show ?thesis
  proof (cases "fb_w < ucast (x + w)")
    case True
    then have "unat fb_w < unat x + unat w" by (simp add: word_less_nat_alt sum)
    with assms(1) True show ?thesis
      by (simp add: draw_extent_def diff unsigned_ucast_eq take_bit_nat_eq_self)
  next
    case False
    then have "unat x + unat w \<le> unat fb_w" by (simp add: word_less_nat_alt sum)
    with False show ?thesis by (simp add: draw_extent_def)
  qed
qed

lemma draw_pixel_eq:
  assumes ok: "drawable x y w h pixels fb" and r: "r < unat h" and c: "c < unat w"
  shows "draw_pixel fb x y w pixels (of_nat r) (of_nat c) m =
    (if opaque (image_at pixels w m (r, c))
     then store32 (pixel_addr fb (of_nat (unat y + r)) (of_nat (unat x + c))) (image_at pixels w m (r, c) AND 0x00FFFFFF) m
     else m)"
proof -
  have "Suc r * unat w \<le> unat h * unat w" by (rule mult_le_mono1) (use r in simp)
  then have "r * unat w + c < 4294967296" using ok c by (simp add: drawable_def)
  moreover have "of_nat r * w + of_nat c = (of_nat (r * unat w + c) :: u32)" by simp
  ultimately have idx: "ucast (of_nat r * w + of_nat c) = (of_nat (r * unat w + c) :: u64)" by (simp only: ucast_of_nat_u32)
  have rows: "ucast (y + of_nat r) = (of_nat (unat y + r) :: u64)" "ucast (x + of_nat c) = (of_nat (unat x + c) :: u64)"
    using ok r c by (intro ucast_add_u32; simp add: drawable_def)+
  have "drop_bit 2 (pitch fb) = pitch fb div 4" by (simp add: drop_bit_eq_div)
  moreover have "pixels + 4 * of_nat (r * unat w + c) = image_addr pixels w (r, c)" by (simp add: image_addr_def)
  ultimately show ?thesis
    unfolding draw_pixel_def idx rows pixel_addr_def image_at_def opaque_def by (simp only: Let_def not_not if_not_P) simp
qed

text \<open>One step of the drawing loops, for the indices the loops reach.\<close>

definition draw_step :: "u32 \<Rightarrow> u32 \<Rightarrow> u32 \<Rightarrow> u32 \<Rightarrow> u64 \<Rightarrow> framebuffer_t \<Rightarrow> nat \<times> nat \<Rightarrow> memory \<Rightarrow> memory \<Rightarrow> bool" where
  "draw_step x y w h pixels fb i m m' \<longleftrightarrow>
     (fst i < unat h \<and> snd i < unat w \<and> on_screen fb (unat y + fst i, unat x + snd i))
     \<and> m' = draw_pixel fb x y w pixels (of_nat (fst i)) (of_nat (snd i)) m"

definition image_kept :: "u32 \<Rightarrow> u32 \<Rightarrow> u32 \<Rightarrow> u32 \<Rightarrow> u64 \<Rightarrow> framebuffer_t \<Rightarrow> (nat \<times> nat \<Rightarrow> u32) \<Rightarrow> memory \<Rightarrow> bool" where
  "image_kept x y w h pixels fb img m \<longleftrightarrow> drawable x y w h pixels fb
     \<and> (\<forall>r<unat h. \<forall>c<unat w. image_at pixels w m (r, c) = img (r, c))"

lemma draw_step_cases:
  assumes ok: "drawable x y w h pixels fb" and step: "draw_step x y w h pixels fb i m m'"
  obtains "\<not> opaque (image_at pixels w m i)" "m' = m"
  | "opaque (image_at pixels w m i)" "on_screen fb (unat y + fst i, unat x + snd i)"
    "m' = store32 (pixel_addr fb (of_nat (unat y + fst i)) (of_nat (unat x + snd i))) (image_at pixels w m i AND 0x00FFFFFF) m"
proof -
  have "fst i < unat h" "snd i < unat w" using step by (simp_all add: draw_step_def)
  from draw_pixel_eq [OF ok this, of m] step that show thesis by (auto simp: draw_step_def split: if_splits)
qed

lemma draw_step_frame:
  assumes ok: "drawable x y w h pixels fb" and step: "draw_step x y w h pixels fb i m m'" and a: "\<not> fb_byte fb a"
  shows "m' a = m a"
  using ok step
proof (cases rule: draw_step_cases)
  case 2
  have "fb_ok fb" using ok by (simp add: drawable_def)
  from store_on_screen_frame [OF this 2(2) a] 2(3) show ?thesis by simp
qed simp

lemma draw_step_image:
  assumes ok: "drawable x y w h pixels fb" and step: "draw_step x y w h pixels fb i m m'"
    and k: "r < unat h" "c < unat w"
  shows "image_at pixels w m' (r, c) = image_at pixels w m (r, c)"
proof -
  have "m' (image_addr pixels w (r, c) + of_nat b) = m (image_addr pixels w (r, c) + of_nat b)" if "b < 4" for b
    by (rule draw_step_frame [OF ok step]) (use ok k that in \<open>auto simp: drawable_def\<close>)
  then show ?thesis unfolding image_at_def load32_def by (rule load_le_cong)
qed

interpretation draw: keyed_updates "image_kept x y w h pixels fb img" "draw_step x y w h pixels fb" "pixel_at fb"
    "\<lambda>i k. fst i < unat h \<and> snd i < unat w \<and> on_screen fb k \<and> k = (unat y + fst i, unat x + snd i) \<and> opaque (img i)"
    "\<lambda>i. Some (img i AND 0x00FFFFFF)" for x y w h pixels fb img
proof unfold_locales
  fix s i s' assume "image_kept x y w h pixels fb img s" "draw_step x y w h pixels fb i s s'"
  then show "image_kept x y w h pixels fb img s'" by (auto simp: image_kept_def dest: draw_step_image)
next
  fix s i s' k assume inv: "image_kept x y w h pixels fb img s" and step: "draw_step x y w h pixels fb i s s'"
  then have ok: "drawable x y w h pixels fb" "fb_ok fb" by (simp_all add: image_kept_def drawable_def)
  have range: "fst i < unat h" "snd i < unat w" using step by (simp_all add: draw_step_def)
  have img: "image_at pixels w s i = img i" using inv range by (cases i) (auto simp: image_kept_def)
  from ok(1) step show "pixel_at fb s' k = (if fst i < unat h \<and> snd i < unat w \<and> on_screen fb k
      \<and> k = (unat y + fst i, unat x + snd i) \<and> opaque (img i) then Some (img i AND 0x00FFFFFF) else pixel_at fb s k)"
  proof (cases rule: draw_step_cases)
    case 1
    with img show ?thesis by simp
  next
    case 2
    with range show ?thesis unfolding 2(3) pixel_at_store [OF ok(2) 2(2)] img by auto
  qed
qed

definition drawn_rows :: "u32 \<Rightarrow> u32 \<Rightarrow> u64 \<Rightarrow> nat" where
  "drawn_rows y h fb_h = min (unat h) (unat fb_h - unat y)"

lemma fb_draw_image_run:
  assumes ok: "drawable x y w h pixels fb" and "is_ready fb" "pixels \<noteq> 0"
    and x: "ucast x < width fb" and y: "ucast y < height fb"
  shows "run (draw_step x y w h pixels fb) (grid (drawn_rows y h (height fb)) (drawn_rows x w (width fb))) m
    (fb_draw_image x y w h pixels fb m)"
proof -
  have ext: "unat (draw_extent x w (width fb)) = drawn_rows x w (width fb)"
      "unat (draw_extent y h (height fb)) = drawn_rows y h (height fb)"
    using unat_draw_extent [OF _ x, of w] unat_draw_extent [OF _ y, of h] ok by (simp_all add: drawable_def drawn_rows_def)
  have "fb_draw_image x y w h pixels fb m = fold (\<lambda>i. draw_pixel fb x y w pixels (of_nat (fst i)) (of_nat (snd i)))
      (grid (drawn_rows y h (height fb)) (drawn_rows x w (width fb))) m"
    using assms(2,3) x [unfolded not_le [symmetric]] y [unfolded not_le [symmetric]] by (simp add: fb_draw_image_def ext fold_grid split_def)
  then show ?thesis unfolding draw_step_def
    by (simp only:) (rule run_fold_guard, auto simp: on_screen_def drawn_rows_def)
qed

lemma fb_draw_image_off:
  "\<not> (is_ready fb \<and> pixels \<noteq> 0 \<and> ucast x < width fb \<and> ucast y < height fb) \<Longrightarrow> fb_draw_image x y w h pixels fb m = m"
  by (auto simp: fb_draw_image_def not_le)

text \<open>The pixel of the screen that a pixel of the image covers.\<close>

lemma fb_draw_image_pixel:
  assumes ok: "drawable x y w h pixels fb" and ready: "is_ready fb" "pixels \<noteq> 0"
  shows "pixel_at fb (fb_draw_image x y w h pixels fb m) (Y, X) =
    (if on_screen fb (Y, X) \<and> unat y \<le> Y \<and> Y < unat y + unat h \<and> unat x \<le> X \<and> X < unat x + unat w
        \<and> opaque (image_at pixels w m (Y - unat y, X - unat x))
     then Some (image_at pixels w m (Y - unat y, X - unat x) AND 0x00FFFFFF) else pixel_at fb m (Y, X))"
proof (cases "ucast x < width fb \<and> ucast y < height fb")
  case False
  then have "\<not> (on_screen fb (Y, X) \<and> unat y \<le> Y \<and> unat x \<le> X)"
    by (auto simp: on_screen_def word_less_nat_alt unat_ucast_32_64)
  moreover have "fb_draw_image x y w h pixels fb m = m" by (rule fb_draw_image_off) (use False in auto)
  ultimately show ?thesis by (simp only:) auto
next
  case True
  note run = fb_draw_image_run [OF ok ready conjunct1 [OF True] conjunct2 [OF True], of m]
  have inv: "image_kept x y w h pixels fb (image_at pixels w m) m" using ok by (simp add: image_kept_def)
  let ?is = "grid (drawn_rows y h (height fb)) (drawn_rows x w (width fb))"
  show ?thesis
  proof (cases "on_screen fb (Y, X) \<and> unat y \<le> Y \<and> Y < unat y + unat h \<and> unat x \<le> X \<and> X < unat x + unat w
        \<and> opaque (image_at pixels w m (Y - unat y, X - unat x))")
    case hit: True
    then have "(Y - unat y, X - unat x) \<in> set ?is" by (auto simp: drawn_rows_def on_screen_def)
    moreover from hit have "Y - unat y < unat h" "X - unat x < unat w" by linarith+
    ultimately show ?thesis using draw.run_hit [OF inv run, of "(Y - unat y, X - unat x)" "(Y, X)"] hit by auto
  next
    case False
    have "pixel_at fb (fb_draw_image x y w h pixels fb m) (Y, X) = pixel_at fb m (Y, X)"
      by (rule draw.run_miss [OF inv run]) (use False in auto)
    with False show ?thesis by (simp only: if_False)
  qed
qed

lemma run_frame: "run step is m m' \<Longrightarrow> (\<And>i m m'. step i m m' \<Longrightarrow> m' a = m a) \<Longrightarrow> m' a = m a"
  by (induction "is" arbitrary: m) auto

lemma fb_draw_image_frame:
  assumes ok: "drawable x y w h pixels fb" and a: "\<not> fb_byte fb a"
  shows "fb_draw_image x y w h pixels fb m a = m a"
proof (cases "is_ready fb \<and> pixels \<noteq> 0 \<and> ucast x < width fb \<and> ucast y < height fb")
  case True
  then show ?thesis by (intro run_frame [OF fb_draw_image_run [OF ok]] draw_step_frame [OF ok _ a]) auto
qed (simp add: fb_draw_image_off)

end
