(* ===== verification/Framebuffer_Properties.thy ===== *)
theory Framebuffer_Properties
  imports Framebuffer
begin

text \<open>The properties of the framebuffer driver, with a small screen as the concrete instance.\<close>

section \<open>An example screen\<close>

text \<open>Three columns and two rows of pixels, four pixels from one row to the next.\<close>

definition ex_fb :: framebuffer_t where
  "ex_fb = \<lparr>address = 0xFFFF8000FD000000, width = 3, height = 2, pitch = 16, is_ready = True\<rparr>"

lemma ex_fb_ok: "fb_ok ex_fb" "is_ready ex_fb"
  by (simp_all add: ex_fb_def fb_ok_def row_pixels_def)

section \<open>Single pixels\<close>

text \<open>\<open>fb_get_pixel\<close> reads back the colour \<open>fb_plot_pixel\<close> has drawn on a pixel of the screen,
  every other pixel keeps its colour, and no byte outside the memory of the screen changes.\<close>

theorem plot_then_get:
  assumes ok: "fb_ok fb" and ready: "is_ready fb" and pos: "ucast x < width fb" "ucast y < height fb"
  shows "fb_get_pixel x' y' fb (fb_plot_pixel x y color fb m)
      = (if x' = x \<and> y' = y then color else fb_get_pixel x' y' fb m)
    \<and> (\<not> fb_byte fb a \<longrightarrow> fb_plot_pixel x y color fb m a = m a)"
proof
  have scr: "on_screen fb (unat v, unat u) \<longleftrightarrow> ucast u < width fb \<and> ucast v < height fb" for u v :: u32
    by (auto simp: on_screen_def word_less_nat_alt unat_ucast_32_64)
  let ?m = "fb_plot_pixel x y color fb m"
  have plot: "?m = store32 (pixel_addr fb (of_nat (unat y)) (of_nat (unat x))) (color_int color) m"
    using ready pos [unfolded not_le [symmetric]] by (simp add: fb_plot_pixel_def)
  have px: "pixel_at fb ?m k = (if k = (unat y, unat x) then Some (color_int color) else pixel_at fb m k)" for k
    unfolding plot using pos scr by (intro pixel_at_store ok) simp
  have get: "fb_get_pixel x' y' fb m = (case pixel_at fb m (unat y', unat x') of
      None \<Rightarrow> \<lparr>red = 0, green = 0, blue = 0\<rparr> | Some p \<Rightarrow> \<lparr>red = GET_RED p, green = GET_GREEN p, blue = GET_BLUE p\<rparr>)" for m
    using ready scr [of y' x'] by (auto simp: fb_get_pixel_def pixel_at_def Let_def not_le not_less)
  show "fb_get_pixel x' y' fb ?m = (if x' = x \<and> y' = y then color else fb_get_pixel x' y' fb m)"
    unfolding get px by (auto simp: word_unat_eq_iff)
  show "\<not> fb_byte fb a \<longrightarrow> ?m a = m a"
    unfolding plot using store_on_screen_frame [OF ok] pos scr by blast
qed

theorem plot_then_get_witness:
  "fb_get_pixel 2 1 ex_fb (fb_plot_pixel 2 1 \<lparr>red = 1, green = 2, blue = 3\<rparr> ex_fb (\<lambda>_. 7)) = \<lparr>red = 1, green = 2, blue = 3\<rparr>"
  using plot_then_get [OF ex_fb_ok, of 2 1 2 1 "\<lparr>red = 1, green = 2, blue = 3\<rparr>" "\<lambda>_. 7"] by (simp add: ex_fb_def)

section \<open>The whole screen\<close>

text \<open>\<open>fb_clear_screen\<close> gives every visible pixel the colour and leaves all memory outside the
  screen as it was; \<open>fb_get_pixel\<close> then reads the colour at every position of the screen.\<close>

theorem clear_screen_correct:
  assumes ok: "fb_ok fb" and ready: "is_ready fb"
  shows "(on_screen fb k \<longrightarrow> pixel_at fb (fb_clear_screen color fb m) k = Some (color_int color))
    \<and> (ucast x < width fb \<longrightarrow> ucast y < height fb \<longrightarrow> fb_get_pixel x y fb (fb_clear_screen color fb m) = color)
    \<and> (\<not> fb_byte fb a \<longrightarrow> fb_clear_screen color fb m a = m a)"
proof (intro conjI impI)
  show "pixel_at fb (fb_clear_screen color fb m) k = Some (color_int color)" if "on_screen fb k"
    by (rule fb_clear_screen_pixel [OF ok ready that])
  show "fb_get_pixel x y fb (fb_clear_screen color fb m) = color" if "ucast x < width fb" "ucast y < height fb"
  proof -
    from that have "on_screen fb (unat y, unat x)" by (auto simp: on_screen_def word_less_nat_alt unat_ucast_32_64)
    from fb_clear_screen_pixel [OF ok ready this, of color m] this that [unfolded not_le [symmetric]] ready show ?thesis
      by (simp add: pixel_at_def fb_get_pixel_def)
  qed
  show "fb_clear_screen color fb m a = m a" if "\<not> fb_byte fb a" by (rule fb_clear_screen_frame [OF ok that])
qed

theorem clear_screen_correct_witness:
  "fb_get_pixel 2 1 ex_fb (fb_clear_screen \<lparr>red = 40, green = 40, blue = 60\<rparr> ex_fb (\<lambda>_. 7)) = \<lparr>red = 40, green = 40, blue = 60\<rparr>
    \<and> fb_clear_screen \<lparr>red = 40, green = 40, blue = 60\<rparr> ex_fb (\<lambda>_. 7) 0x1000 = 7"
  using clear_screen_correct [OF ex_fb_ok, of _ "\<lparr>red = 40, green = 40, blue = 60\<rparr>" "\<lambda>_. 7" 2 1 "0x1000"]
  by (simp add: ex_fb_def fb_byte_def row_pixels_def)

section \<open>Images\<close>


lemma ex_drawable: "drawable 2 0 2 1 0x1000 ex_fb"
  unfolding drawable_def
proof (intro conjI ex_fb_ok allI impI)
  fix r c b :: nat assume "r < unat (1 :: u32)" "c < unat (2 :: u32)" "b < 4"
  then have k: "r = 0" "c = 0 \<or> c = 1" "b = 0 \<or> b = 1 \<or> b = 2 \<or> b = 3" by auto
  then show "\<not> fb_byte ex_fb (image_addr 0x1000 2 (r, c) + of_nat b)"
    by (elim disjE) (simp_all add: ex_fb_def fb_byte_def image_addr_def row_pixels_def)
qed simp_all


text \<open>
  The clipping is lost when the corner overflows 32 bits: an image of full width at column 1 is not
  clipped, so that the loop reaches columns far beyond any screen narrower than \<open>2\<^sup>3\<^sup>2\<close> pixels.
\<close>

lemma draw_extent_overflow: "draw_extent 1 0xFFFFFFFF fb_w = 0xFFFFFFFF"
  by (simp add: draw_extent_def)

end
