(* ===== verification/Sink.thy ===== *)
theory Sink
  imports Prelude
begin

text \<open>
  The output sinks of \<open>src/src/utils/sink.c\<close>: a table of 256 write callbacks and the index of the
  last registered one. A callback is a function pointer; the table is polymorphic in the callbacks,
  and \<open>None\<close> is the null pointer. An access outside the table has no defined result, which is the
  value \<open>None\<close> of the operation.
\<close>

section \<open>State and operations\<close>

definition SINK_MAX :: int where "SINK_MAX = 256"

record 'f sink_state =
  sinks :: "'f option list"
  curr_idx :: int

text \<open>
  \<open>memset(&sinks[0], 0, SINK_MAX)\<close> clears 256 bytes, which are the first 32 of the 256 pointers.
\<close>

definition clear_sinks :: "'f option list \<Rightarrow> 'f option list" where
  "clear_sinks fs = replicate 32 None @ drop 32 fs"

definition sink_register :: "'f option \<Rightarrow> ('f, 'a) sink_state_scheme \<Rightarrow> int \<times> ('f, 'a) sink_state_scheme" where
  "sink_register write_callback s =
     (let s1 = (if curr_idx s < 0 then s\<lparr>sinks := clear_sinks (sinks s)\<rparr> else s);
          i = curr_idx s1 + 1
      in if i \<ge> SINK_MAX \<or> sinks s1 ! nat i \<noteq> None then (- 1, s1)
         else (i, s1\<lparr>sinks := (sinks s1)[nat i := write_callback], curr_idx := i\<rparr>))"

definition sink_remove :: "int \<Rightarrow> ('f, 'a) sink_state_scheme \<Rightarrow> ('f, 'a) sink_state_scheme option" where
  "sink_remove i s =
     (if i \<ge> SINK_MAX then Some s
      else if i < 0 then None
      else Some (s\<lparr>sinks := (sinks s)[nat i := None]\<rparr>))"

text \<open>The callback is called through \<open>call\<close>, which may itself have no defined result.\<close>

definition sink_write ::
    "('f \<Rightarrow> char \<Rightarrow> ('f, 'a) sink_state_scheme \<Rightarrow> ('f, 'a) sink_state_scheme option) \<Rightarrow>
      int \<Rightarrow> char \<Rightarrow> ('f, 'a) sink_state_scheme \<Rightarrow> ('f, 'a) sink_state_scheme option" where
  "sink_write call i ch s =
     (if i \<ge> SINK_MAX then Some s
      else if i < 0 then None
      else (case sinks s ! nat i of None \<Rightarrow> Some s | Some f \<Rightarrow> call f ch s))"

section \<open>The table\<close>

text \<open>
  The invariant: the table has 256 slots, and the slots after the last registered one are free.
  \<open>sink_of\<close> is the callback of an identifier.
\<close>

definition sinks_ok :: "('f, 'a) sink_state_scheme \<Rightarrow> bool" where
  "sinks_ok s \<longleftrightarrow> length (sinks s) = 256 \<and> - 1 \<le> curr_idx s \<and> curr_idx s < SINK_MAX
     \<and> (\<forall>i<256. curr_idx s < int i \<longrightarrow> sinks s ! i = None)"

definition sink_of :: "('f, 'a) sink_state_scheme \<Rightarrow> int \<Rightarrow> 'f option" where
  "sink_of s i = (if 0 \<le> i \<and> i < SINK_MAX then sinks s ! nat i else None)"

lemma clear_sinks_ok: "sinks_ok s \<Longrightarrow> curr_idx s < 0 \<Longrightarrow> clear_sinks (sinks s) = sinks s"
  by (rule nth_equalityI) (auto simp: sinks_ok_def clear_sinks_def nth_append)

lemma sink_register_eq:
  assumes "sinks_ok s"
  shows "sink_register f s = (if curr_idx s + 1 < SINK_MAX
    then (curr_idx s + 1, s\<lparr>sinks := (sinks s)[nat (curr_idx s + 1) := f], curr_idx := curr_idx s + 1\<rparr>) else (- 1, s))"
proof -
  have "(if curr_idx s < 0 then s\<lparr>sinks := clear_sinks (sinks s)\<rparr> else s) = s"
    using clear_sinks_ok [OF assms] by simp
  moreover have "sinks s ! nat (curr_idx s + 1) = None" if "curr_idx s + 1 < SINK_MAX"
    using assms that by (auto simp: sinks_ok_def SINK_MAX_def nat_less_iff)
  ultimately show ?thesis by (simp only: sink_register_def Let_def) auto
qed

lemma sink_register_ok: "sinks_ok s \<Longrightarrow> sinks_ok (snd (sink_register f s))"
  by (simp add: sink_register_eq) (auto simp: sinks_ok_def SINK_MAX_def nth_list_update)

lemma nth_update_None: "xs ! j = None \<Longrightarrow> xs[i := None] ! j = None"
  by (cases "i < length xs") (auto simp: nth_list_update list_update_beyond)

lemma sink_remove_ok: "sinks_ok s \<Longrightarrow> sink_remove i s = Some s' \<Longrightarrow> sinks_ok s'"
  by (auto simp: sink_remove_def sinks_ok_def nth_update_None split: if_splits)

lemma sink_of_register:
  "sinks_ok s \<Longrightarrow> sink_register f s = (i, s') \<Longrightarrow> i \<noteq> - 1 \<Longrightarrow> sink_of s' j = (if j = i then f else sink_of s j)"
  by (auto simp: sink_register_eq sink_of_def sinks_ok_def SINK_MAX_def nth_list_update eq_nat_nat_iff split: if_splits)

lemma sink_of_remove:
  "sinks_ok s \<Longrightarrow> sink_remove i s = Some s' \<Longrightarrow> sink_of s' j = (if j = i then None else sink_of s j)"
  by (auto simp: sink_remove_def sink_of_def sinks_ok_def SINK_MAX_def nth_list_update eq_nat_nat_iff split: if_splits)

lemma sink_write_eq:
  "0 \<le> i \<Longrightarrow> sink_write call i ch s = (case sink_of s i of None \<Rightarrow> Some s | Some f \<Rightarrow> call f ch s)"
  by (auto simp: sink_write_def sink_of_def)

section \<open>Histories of the table\<close>

text \<open>
  A run of registrations and removals. An identifier is handed out once: it is one more than the
  identifier before, and a removed slot is not used again.
\<close>

inductive sink_run :: "('f, 'a) sink_state_scheme \<Rightarrow> ('f, 'a) sink_state_scheme \<Rightarrow> int list \<Rightarrow> bool" where
  sink_run_Nil: "sink_run s s []"
| sink_run_register: "sink_run s t ids \<Longrightarrow> sink_register f t = (i, u) \<Longrightarrow> i \<noteq> - 1 \<Longrightarrow> sink_run s u (ids @ [i])"
| sink_run_full: "sink_run s t ids \<Longrightarrow> sink_register f t = (- 1, u) \<Longrightarrow> sink_run s u ids"
| sink_run_remove: "sink_run s t ids \<Longrightarrow> sink_remove i t = Some u \<Longrightarrow> sink_run s u ids"

lemma sink_run_ok:
  "sink_run s t ids \<Longrightarrow> sinks_ok s \<Longrightarrow> sinks_ok t \<and> ids = [curr_idx s + 1..curr_idx t] \<and> curr_idx s \<le> curr_idx t"
proof (induction rule: sink_run.induct)
  case (sink_run_register s t ids f i u)
  then have t: "sinks_ok t" "ids = [curr_idx s + 1..curr_idx t]" "curr_idx s \<le> curr_idx t" by auto
  moreover have "sinks_ok u" using sink_register_ok [OF t(1), of f] sink_run_register.hyps(2) by simp
  moreover from sink_run_register.hyps(2,3) have "i = curr_idx t + 1" "curr_idx u = curr_idx t + 1"
    using t(1) by (auto simp: sink_register_eq split: if_splits)
  ultimately show ?case by (simp add: upto_rec2)
next
  case (sink_run_full s t ids f u)
  then have t: "sinks_ok t" "ids = [curr_idx s + 1..curr_idx t]" "curr_idx s \<le> curr_idx t" by auto
  moreover have "sinks_ok u" using sink_register_ok [OF t(1), of f] sink_run_full.hyps(2) by simp
  moreover from sink_run_full.hyps(2) have "u = t"
    using t(1) by (auto simp: sink_register_eq sinks_ok_def split: if_splits)
  ultimately show ?case by simp
next
  case (sink_run_remove s t ids i u)
  moreover from sink_run_remove.hyps(2) have "curr_idx u = curr_idx t" by (auto simp: sink_remove_def split: if_splits)
  ultimately show ?case by (auto dest: sink_remove_ok)
qed simp

end
