(* ===== verification/Serial.thy ===== *)
theory Serial
  imports Sink "HOL-Library.Word"
begin

text \<open>
  Port I/O (\<open>src/src/cpu/io.asm\<close>) and the serial driver (\<open>src/src/drivers/serial/serial.c\<close>). The
  device behind the ports is a parameter \<open>dev\<close>: what a read returns depends on the port and on all
  port accesses made before. The state keeps these accesses in order.
\<close>

section \<open>Ports\<close>

datatype io_event = Out u16 u8 | In u16 u8

type_synonym device = "io_event list \<Rightarrow> u16 \<Rightarrow> u8"

text \<open>The functions that are registered as sinks, by name (\<open>sink_write_fn\<close> is a function pointer).\<close>

datatype sink_write_fn = serial_sink_write_fn | debug_sink_write_fn

record serial_state = "sink_write_fn sink_state" +
  port_log :: "io_event list"
  isInitialied :: bool
  current_com :: u16

definition outb :: "u16 \<Rightarrow> u8 \<Rightarrow> 'a serial_state_scheme \<Rightarrow> 'a serial_state_scheme" where
  "outb port val s = s\<lparr>port_log := port_log s @ [Out port val]\<rparr>"

definition inb :: "device \<Rightarrow> u16 \<Rightarrow> 'a serial_state_scheme \<Rightarrow> u8 \<times> 'a serial_state_scheme" where
  "inb dev port s =
     (let val = dev (port_log s) port in (val, s\<lparr>port_log := port_log s @ [In port val]\<rparr>))"

definition io_wait :: "'a serial_state_scheme \<Rightarrow> 'a serial_state_scheme" where
  "io_wait s = outb 0x80 0 s"

section \<open>The driver\<close>

definition SERIAL_COM1_BASE :: u16 where "SERIAL_COM1_BASE = 0x3F8"
definition SERIAL_DATA_PORT :: "u16 \<Rightarrow> u16" where "SERIAL_DATA_PORT base = base"
definition SERIAL_FIFO_COMMAND_PORT :: "u16 \<Rightarrow> u16" where "SERIAL_FIFO_COMMAND_PORT base = base + 2"
definition SERIAL_LINE_COMMAND_PORT :: "u16 \<Rightarrow> u16" where "SERIAL_LINE_COMMAND_PORT base = base + 3"
definition SERIAL_MODEM_COMMAND_PORT :: "u16 \<Rightarrow> u16" where "SERIAL_MODEM_COMMAND_PORT base = base + 4"
definition SERIAL_LINE_STATUS_PORT :: "u16 \<Rightarrow> u16" where "SERIAL_LINE_STATUS_PORT base = base + 5"
definition SERIAL_LINE_ENABLE_DLAB :: u8 where "SERIAL_LINE_ENABLE_DLAB = 0x80"

lemmas serial_ports = SERIAL_DATA_PORT_def SERIAL_FIFO_COMMAND_PORT_def SERIAL_LINE_COMMAND_PORT_def
  SERIAL_MODEM_COMMAND_PORT_def SERIAL_LINE_STATUS_PORT_def

definition serial_configure_baud_rate :: "u16 \<Rightarrow> u16 \<Rightarrow> 'a serial_state_scheme \<Rightarrow> 'a serial_state_scheme" where
  "serial_configure_baud_rate com divisor s =
     (let s1 = outb (SERIAL_LINE_COMMAND_PORT com) SERIAL_LINE_ENABLE_DLAB s;
          s2 = outb (SERIAL_DATA_PORT com) (ucast (drop_bit 8 divisor) AND 0xff) s1
      in outb (SERIAL_DATA_PORT com) (ucast divisor AND 0xff) s2)"

definition serial_init :: "device \<Rightarrow> u16 \<Rightarrow> 'a serial_state_scheme \<Rightarrow> int \<times> 'a serial_state_scheme" where
  "serial_init dev com s =
     (if isInitialied s then (- 1, s)
      else
        let s1 = serial_configure_baud_rate com 3 s;
            s2 = outb (SERIAL_LINE_COMMAND_PORT com) 0x03 s1;
            s3 = outb (SERIAL_FIFO_COMMAND_PORT com) 0xc7 s2;
            s4 = outb (SERIAL_MODEM_COMMAND_PORT com) 0x03 s3;
            s5 = outb (SERIAL_MODEM_COMMAND_PORT com) 0x16 s4;
            s6 = outb (SERIAL_DATA_PORT com) 0xae s5;
            (val, s7) = inb dev (SERIAL_DATA_PORT com) s6
        in if val \<noteq> 0xae then (- 1, s7)
           else
             let s8 = outb (SERIAL_MODEM_COMMAND_PORT com) 0x7 s7
             in sink_register (Some serial_sink_write_fn) (s8\<lparr>isInitialied := True, current_com := com\<rparr>))"

definition is_transmit_empty :: "device \<Rightarrow> u16 \<Rightarrow> 'a serial_state_scheme \<Rightarrow> u8 \<times> 'a serial_state_scheme" where
  "is_transmit_empty dev com s =
     (let (val, s') = inb dev (SERIAL_LINE_STATUS_PORT com) s in (val AND 0x20, s'))"

text \<open>
  \<open>while (is_transmit_empty(current_com) == 0);\<close> polls until the device is ready; \<open>None\<close> when it
  never is.
\<close>

partial_function (option) serial_wait :: "device \<Rightarrow> 'a serial_state_scheme \<Rightarrow> 'a serial_state_scheme option" where
  "serial_wait dev s =
     (if fst (is_transmit_empty dev (current_com s) s) = 0
      then serial_wait dev (snd (is_transmit_empty dev (current_com s) s))
      else Some (snd (is_transmit_empty dev (current_com s) s)))"

definition serial_write :: "device \<Rightarrow> char \<Rightarrow> 'a serial_state_scheme \<Rightarrow> 'a serial_state_scheme option" where
  "serial_write dev ch s =
     (if \<not> isInitialied s then Some s
      else map_option (outb (SERIAL_DATA_PORT (current_com s)) (of_char ch)) (serial_wait dev s))"

definition serial_sink_write :: "device \<Rightarrow> char \<Rightarrow> 'a serial_state_scheme \<Rightarrow> 'a serial_state_scheme option" where
  "serial_sink_write dev ch s = (if \<not> isInitialied s then Some s else serial_write dev ch s)"

section \<open>Polling\<close>

text \<open>
  \<open>n\<close> reads of a port in a row, and what the driver relies on: the transmitter becomes empty after
  finitely many reads of the line status, whatever was done before.
\<close>

primrec polls :: "device \<Rightarrow> u16 \<Rightarrow> nat \<Rightarrow> io_event list \<Rightarrow> io_event list" where
  "polls dev port 0 log = log"
| "polls dev port (Suc n) log = polls dev port n (log @ [In port (dev log port)])"

definition tx_ready :: "device \<Rightarrow> u16 \<Rightarrow> io_event list \<Rightarrow> bool" where
  "tx_ready dev com log \<longleftrightarrow> dev log (SERIAL_LINE_STATUS_PORT com) AND 0x20 \<noteq> 0"

definition transmits :: "device \<Rightarrow> u16 \<Rightarrow> bool" where
  "transmits dev com \<longleftrightarrow> (\<forall>log. \<exists>n. tx_ready dev com (polls dev (SERIAL_LINE_STATUS_PORT com) n log))"

lemma serial_wait_step:
  "serial_wait dev s = (let s' = s\<lparr>port_log := polls dev (SERIAL_LINE_STATUS_PORT (current_com s)) 1 (port_log s)\<rparr>
     in if tx_ready dev (current_com s) (port_log s) then Some s' else serial_wait dev s')"
  by (subst serial_wait.simps) (simp add: is_transmit_empty_def inb_def tx_ready_def Let_def)

text \<open>The loop reads the line status until it is ready for the first time.\<close>

lemma serial_wait_ready:
  assumes "tx_ready dev (current_com s) (polls dev (SERIAL_LINE_STATUS_PORT (current_com s)) n (port_log s))"
    and "\<And>k. k < n \<Longrightarrow> \<not> tx_ready dev (current_com s) (polls dev (SERIAL_LINE_STATUS_PORT (current_com s)) k (port_log s))"
  shows "serial_wait dev s = Some (s\<lparr>port_log := polls dev (SERIAL_LINE_STATUS_PORT (current_com s)) (Suc n) (port_log s)\<rparr>)"
  using assms
proof (induction n arbitrary: s)
  case 0
  then show ?case by (subst serial_wait_step) simp
next
  case (Suc n)
  let ?s = "s\<lparr>port_log := polls dev (SERIAL_LINE_STATUS_PORT (current_com s)) 1 (port_log s)\<rparr>"
  have "serial_wait dev ?s = Some (?s\<lparr>port_log := polls dev (SERIAL_LINE_STATUS_PORT (current_com ?s)) (Suc n) (port_log ?s)\<rparr>)"
  proof (rule Suc.IH)
    show "tx_ready dev (current_com ?s) (polls dev (SERIAL_LINE_STATUS_PORT (current_com ?s)) n (port_log ?s))"
      using Suc.prems(1) by simp
    show "\<not> tx_ready dev (current_com ?s) (polls dev (SERIAL_LINE_STATUS_PORT (current_com ?s)) k (port_log ?s))"
      if "k < n" for k using Suc.prems(2) [of "Suc k"] that by simp
  qed
  moreover have "\<not> tx_ready dev (current_com s) (port_log s)" using Suc.prems(2) [of 0] by simp
  ultimately show ?case by (subst serial_wait_step) simp
qed

lemma serial_write_ready:
  assumes "isInitialied s" and "transmits dev (current_com s)"
  obtains n where "\<forall>k<n. \<not> tx_ready dev (current_com s) (polls dev (SERIAL_LINE_STATUS_PORT (current_com s)) k (port_log s))"
    and "tx_ready dev (current_com s) (polls dev (SERIAL_LINE_STATUS_PORT (current_com s)) n (port_log s))"
    and "serial_write dev ch s = Some (s\<lparr>port_log :=
      polls dev (SERIAL_LINE_STATUS_PORT (current_com s)) (Suc n) (port_log s) @ [Out (current_com s) (of_char ch)]\<rparr>)"
proof -
  let ?P = "\<lambda>n. tx_ready dev (current_com s) (polls dev (SERIAL_LINE_STATUS_PORT (current_com s)) n (port_log s))"
  from assms(2) have "\<exists>n. ?P n" by (simp add: transmits_def)
  then have n: "?P (LEAST n. ?P n)" "\<And>k. k < (LEAST n. ?P n) \<Longrightarrow> \<not> ?P k" by (auto intro: LeastI dest: not_less_Least)
  from serial_wait_ready [OF n] assms(1) show thesis
    by (intro that [of "LEAST n. ?P n"]) (simp_all add: serial_write_def outb_def SERIAL_DATA_PORT_def n)
qed

section \<open>The bytes on the line\<close>

text \<open>The bytes written to a data port, in order; reads do not count.\<close>

definition sent :: "u16 \<Rightarrow> io_event list \<Rightarrow> u8 list" where
  "sent port log = concat (map (\<lambda>e. case e of Out p v \<Rightarrow> if p = port then [v] else [] | In p v \<Rightarrow> []) log)"

lemma sent_simps [simp]:
  "sent port [] = []"
  "sent port (log @ [Out p v]) = sent port log @ (if p = port then [v] else [])"
  "sent port (log @ [In p v]) = sent port log"
  by (simp_all add: sent_def)

lemma sent_polls [simp]: "sent port (polls dev p n log) = sent port log"
  by (induction n arbitrary: log) simp_all

end
