(* ===== verification/Klog.thy ===== *)
theory Klog
  imports Serial Printf_Spec Framebuffer
begin

text \<open>
  The kernel log (\<open>src/src/utils/klog.c\<close>) with the character output below it: the default sink of
  \<open>printf.c\<close>, the sink table and the serial driver. A log call that is not filtered prints a line
  on the debug sink; a panic prints to it, clears the screen, dumps the stack and halts. An
  operation without a defined result (an access outside the sink table, an undefined format, a
  device that never becomes ready) is \<open>None\<close>.
\<close>

section \<open>Log levels\<close>

text \<open>The levels compare as the integers of the C enumeration.\<close>

definition level_num :: "klog_level \<Rightarrow> nat" where
  "level_num l = (case l of klog_level_debug \<Rightarrow> 0 | klog_level_info \<Rightarrow> 1 | klog_level_warn \<Rightarrow> 2
     | klog_level_error \<Rightarrow> 3 | klog_level_panic \<Rightarrow> 4)"

instantiation klog_level :: linorder
begin

definition less_eq_klog_level :: "klog_level \<Rightarrow> klog_level \<Rightarrow> bool" where
  "less_eq_klog_level a b \<longleftrightarrow> level_num a \<le> level_num b"

definition less_klog_level :: "klog_level \<Rightarrow> klog_level \<Rightarrow> bool" where
  "less_klog_level a b \<longleftrightarrow> level_num a < level_num b"

instance
proof
  fix a b c :: klog_level
  show "a \<le> b \<Longrightarrow> b \<le> a \<Longrightarrow> a = b"
    by (cases a; cases b) (simp_all add: less_eq_klog_level_def level_num_def)
qed (auto simp: less_eq_klog_level_def less_klog_level_def)

end

lemma not_panic_less [simp]: "\<not> klog_level_panic < l"
  by (cases l) (simp_all add: less_klog_level_def level_num_def)

definition log_labels :: "klog_level \<Rightarrow> string" where
  "log_labels l = (case l of klog_level_debug \<Rightarrow> ''[debug]: '' | klog_level_info \<Rightarrow> ''[info]: ''
     | klog_level_warn \<Rightarrow> ''[warn]: '' | klog_level_error \<Rightarrow> ''[ERROR]: '' | klog_level_panic \<Rightarrow> ''[PANIC]: '')"

section \<open>Character output\<close>

record klog_state = serial_state +
  default_sink :: int
  current_level :: klog_level
  debug_sink :: int
  framebuffer :: framebuffer_t
  interrupts :: bool

definition kprintf_set_default_sink :: "int \<Rightarrow> 'a klog_state_scheme \<Rightarrow> 'a klog_state_scheme" where
  "kprintf_set_default_sink i s = s\<lparr>default_sink := i\<rparr>"

definition kprintf_get_default_sink :: "'a klog_state_scheme \<Rightarrow> int" where
  "kprintf_get_default_sink s = default_sink s"

definition debug_sink_write :: "device \<Rightarrow> char \<Rightarrow> 'a klog_state_scheme \<Rightarrow> 'a klog_state_scheme option" where
  "debug_sink_write dev ch s = serial_write dev ch s"

text \<open>The call \<open>sinks[id](ch)\<close> through the function pointer.\<close>

definition call_sink :: "device \<Rightarrow> sink_write_fn \<Rightarrow> char \<Rightarrow> 'a klog_state_scheme \<Rightarrow> 'a klog_state_scheme option" where
  "call_sink dev f ch s = (case f of
     serial_sink_write_fn \<Rightarrow> serial_sink_write dev ch s
   | debug_sink_write_fn \<Rightarrow> debug_sink_write dev ch s)"

definition putchar :: "device \<Rightarrow> char \<Rightarrow> 'a klog_state_scheme \<Rightarrow> 'a klog_state_scheme option" where
  "putchar dev ch s = sink_write (call_sink dev) (default_sink s) ch s"

text \<open>\<open>kprintf\<close> and \<open>kvprintf\<close> with the kernel's \<open>_putchar\<close> as character output.\<close>

definition console_kprintf :: "device \<Rightarrow> string \<Rightarrow> vararg list \<Rightarrow> 'a klog_state_scheme \<Rightarrow> 'a klog_state_scheme option" where
  "console_kprintf dev format va s = Option.bind (kprintf (\<lambda>c os. Option.bind os (putchar dev c)) format va (Some s)) snd"

definition console_kvprintf :: "device \<Rightarrow> string \<Rightarrow> vararg list \<Rightarrow> 'a klog_state_scheme \<Rightarrow> 'a klog_state_scheme option" where
  "console_kvprintf dev format va s = Option.bind (kvprintf (\<lambda>c os. Option.bind os (putchar dev c)) format va (Some s)) snd"

section \<open>Logging\<close>

definition klog_set_level :: "klog_level \<Rightarrow> 'a klog_state_scheme \<Rightarrow> 'a klog_state_scheme" where
  "klog_set_level level s =
     (let s1 = s\<lparr>current_level := level\<rparr> in
      if debug_sink s1 < 0
      then (let (i, s2) = sink_register (Some debug_sink_write_fn) s1 in s2\<lparr>debug_sink := i\<rparr>)
      else s1)"

abbreviation nl :: string where "nl \<equiv> [CHR 0x0A]"

definition panic_color :: fb_color_t where
  "panic_color = \<lparr>red = 235, green = 52, blue = 76\<rparr>"

text \<open>The loop over at most 16 stack frames: \<open>rbp[1]\<close> is the return address, \<open>rbp[0]\<close> the next frame.\<close>

fun stack_trace :: "device \<Rightarrow> memory \<Rightarrow> nat list \<Rightarrow> u64 \<Rightarrow> 'a klog_state_scheme \<Rightarrow> 'a klog_state_scheme option" where
  "stack_trace dev m [] rbp s = Some s"
| "stack_trace dev m (i # is) rbp s =
     (if rbp = 0 then Some s
      else Option.bind (console_kprintf dev (''  [%d] 0x%016llx'' @ nl) [VInt (of_nat i), VInt (load64 m (rbp + 8))] s)
             (stack_trace dev m is (load64 m rbp)))"

text \<open>A log call returns to its caller, or stops the machine with the memory it has then.\<close>

datatype 's klog_result = Logged 's | Panicked 's memory

definition klogf ::
    "device \<Rightarrow> u64 \<Rightarrow> klog_level \<Rightarrow> string \<Rightarrow> vararg list \<Rightarrow> 'a klog_state_scheme \<Rightarrow> memory \<Rightarrow>
      'a klog_state_scheme klog_result option" where
  "klogf dev rbp level string args s m =
     (if level < current_level s then Some (Logged s)
      else if level = klog_level_panic then
        let s1 = kprintf_set_default_sink (debug_sink s) (s\<lparr>interrupts := False\<rparr>);
            m1 = fb_clear_screen panic_color (framebuffer s1) m
        in Option.bind (console_kprintf dev (nl @ ''--- KERNEL PANIC ---'' @ nl) [] s1) (\<lambda>s2.
           Option.bind (console_kvprintf dev string args s2) (\<lambda>s3.
           Option.bind (console_kprintf dev nl [] s3) (\<lambda>s4.
           Option.bind (console_kprintf dev (''Stack trace:'' @ nl) [] s4) (\<lambda>s5.
           Option.bind (stack_trace dev m1 [0..<16] rbp s5) (\<lambda>s6.
           Option.bind (console_kprintf dev (''--------------------'' @ nl) [] s6) (\<lambda>s7.
           Some (Panicked s7 m1)))))))
      else if debug_sink s < 0 then Some (Logged s)
      else
        let prev_sink = kprintf_get_default_sink s;
            s1 = kprintf_set_default_sink (debug_sink s) s
        in Option.bind (console_kprintf dev (log_labels level) [] s1) (\<lambda>s2.
           Option.bind (console_kvprintf dev string args s2) (\<lambda>s3.
           Option.bind (console_kprintf dev nl [] s3) (\<lambda>s4.
           Some (Logged (kprintf_set_default_sink prev_sink s4))))))"

text \<open>The steps of \<open>kmain\<close> that bring up the output path.\<close>

definition console_up :: "device \<Rightarrow> u16 \<Rightarrow> 'a klog_state_scheme \<Rightarrow> 'a klog_state_scheme" where
  "console_up dev com s =
     (let (i, s1) = serial_init dev com s in klog_set_level klog_level_debug (kprintf_set_default_sink i s1))"

section \<open>A working console\<close>

text \<open>
  The serial line works and the default sink leads to it. What is printed then appears on the line,
  and only the record of port accesses changes.
\<close>

definition serial_ok :: "device \<Rightarrow> 'a klog_state_scheme \<Rightarrow> bool" where
  "serial_ok dev s \<longleftrightarrow> isInitialied s \<and> transmits dev (current_com s)"

definition console_ok :: "device \<Rightarrow> 'a klog_state_scheme \<Rightarrow> bool" where
  "console_ok dev s \<longleftrightarrow> serial_ok dev s \<and> 0 \<le> default_sink s \<and> sink_of s (default_sink s) \<noteq> None"

definition line :: "'a klog_state_scheme \<Rightarrow> u8 list" where
  "line s = sent (current_com s) (port_log s)"

definition quiet :: "'a klog_state_scheme \<Rightarrow> 'a klog_state_scheme" where
  "quiet s = s\<lparr>port_log := []\<rparr>"

lemma sink_of_port_log [simp]: "sink_of (s\<lparr>port_log := l\<rparr>) i = sink_of (s :: 'a serial_state_scheme) i"
  by (simp add: sink_of_def)

lemma console_ok_port_log [simp]: "console_ok dev (s\<lparr>port_log := l\<rparr>) = console_ok dev s"
  by (simp add: console_ok_def serial_ok_def)

lemma putchar_ok:
  assumes "console_ok dev s"
  shows "\<exists>s'. putchar dev c s = Some s' \<and> console_ok dev s' \<and> line s' = line s @ [of_char c] \<and> quiet s' = quiet s"
proof -
  from assms obtain f where f: "sink_of s (default_sink s) = Some f" "0 \<le> default_sink s" by (auto simp: console_ok_def)
  have ser: "isInitialied s" "transmits dev (current_com s)" using assms by (simp_all add: console_ok_def serial_ok_def)
  then have "putchar dev c s = serial_write dev c s"
    using f by (cases f) (simp_all add: putchar_def sink_write_eq call_sink_def serial_sink_write_def debug_sink_write_def)
  moreover obtain l where "serial_write dev c s = Some (s\<lparr>port_log := l @ [Out (current_com s) (of_char c)]\<rparr>)"
      "sent (current_com s) l = sent (current_com s) (port_log s)"
    using ser by (rule serial_write_ready [of s dev c]) (metis sent_polls)
  ultimately show ?thesis using assms by (auto simp: line_def quiet_def)
qed

interpretation console: char_device "putchar dev" "console_ok dev" line quiet for dev
  by unfold_locales (rule putchar_ok)

lemma console_kprintf_eq: "console_kprintf dev = print_with (putchar dev)" "console_kvprintf dev = print_with (putchar dev)"
  by (simp_all add: fun_eq_iff console_kprintf_def console_kvprintf_def print_with_def kvprintf_eq)

lemmas console_print = console.print_text [folded console_kprintf_eq]

section \<open>What a log call prints\<close>

text \<open>The debug sink is registered and the serial line below it works.\<close>

definition klog_ready :: "device \<Rightarrow> 'a klog_state_scheme \<Rightarrow> bool" where
  "klog_ready dev s \<longleftrightarrow> serial_ok dev s \<and> 0 \<le> debug_sink s \<and> sink_of s (debug_sink s) \<noteq> None"

lemma klog_ready_console: "klog_ready dev s \<Longrightarrow> console_ok dev (kprintf_set_default_sink (debug_sink s) (s\<lparr>interrupts := b\<rparr>))"
    "klog_ready dev s \<Longrightarrow> console_ok dev (kprintf_set_default_sink (debug_sink s) s)"
  by (auto simp: klog_ready_def console_ok_def serial_ok_def kprintf_set_default_sink_def sink_of_def split: if_splits)

text \<open>Printing steps in a row, as they appear in \<open>klogf\<close>.\<close>

definition prints :: "device \<Rightarrow> string \<Rightarrow> 'a klog_state_scheme \<Rightarrow> 'a klog_state_scheme option \<Rightarrow> bool" where
  "prints dev cs s r \<longleftrightarrow> (\<exists>s'. r = Some s' \<and> console_ok dev s' \<and> line s' = line s @ visible cs \<and> quiet s' = quiet s)"

lemma prints_kprintf:
  "console_ok dev s \<Longrightarrow> render format va = Some cs \<Longrightarrow> prints dev cs s (console_kprintf dev format va s)"
  "console_ok dev s \<Longrightarrow> render format va = Some cs \<Longrightarrow> prints dev cs s (console_kvprintf dev format va s)"
  using console_print [of dev s format va cs] by (auto simp: prints_def console_kprintf_eq)

lemma prints_bind:
  assumes "prints dev cs s r" and "\<And>u. console_ok dev u \<Longrightarrow> prints dev cs' u (f u)"
  shows "prints dev (cs @ cs') s (Option.bind r f)"
proof -
  from assms(1) obtain u where u: "r = Some u" "console_ok dev u" "line u = line s @ visible cs" "quiet u = quiet s"
    by (auto simp: prints_def)
  from assms(2) [OF u(2)] u show ?thesis by (auto simp: prints_def)
qed

lemma prints_Some: "console_ok dev s \<Longrightarrow> prints dev [] s (Some s)"
  by (simp add: prints_def visible_def)

lemma render_label [simp]: "render (log_labels level) [] = Some (log_labels level)"
  by (cases level) (simp_all add: log_labels_def)

text \<open>The lines of the stack trace, one for each frame until the chain ends.\<close>

fun trace_text :: "memory \<Rightarrow> nat list \<Rightarrow> u64 \<Rightarrow> string" where
  "trace_text m [] rbp = []"
| "trace_text m (i # is) rbp =
     (if rbp = 0 then []
      else (''  ['' @ rev (ntoa_digits 32 0 10 (of_nat i)) @ ''] 0x'' @ hex16 0x301 (load64 m (rbp + 8)) @ nl)
           @ trace_text m is (load64 m rbp))"

lemma render_trace_line:
  "i < 2147483648 \<Longrightarrow> render (''  [%d] 0x%016llx'' @ nl) [VInt (of_nat i), VInt v]
    = Some (''  ['' @ rev (ntoa_digits 32 0 10 (of_nat i)) @ ''] 0x'' @ hex16 0x301 v @ nl)"
  using directive_d [of i "''] 0x%016llx'' @ nl" "[VInt v]"] directive_016llx [of nl v "[]"] by simp

lemma stack_trace_prints:
  "console_ok dev s \<Longrightarrow> (\<And>i. i \<in> set is \<Longrightarrow> i < 2147483648) \<Longrightarrow> prints dev (trace_text m is rbp) s (stack_trace dev m is rbp s)"
proof (induction "is" arbitrary: rbp s)
  case Nil
  then show ?case by (simp add: prints_Some)
next
  case (Cons i "is")
  show ?case
  proof (cases "rbp = 0")
    case True
    with Cons.prems show ?thesis by (simp add: prints_Some)
  next
    case False
    have "prints dev ((''  ['' @ rev (ntoa_digits 32 0 10 (of_nat i)) @ ''] 0x'' @ hex16 0x301 (load64 m (rbp + 8)) @ nl)
        @ trace_text m is (load64 m rbp)) s
      (Option.bind (console_kprintf dev (''  [%d] 0x%016llx'' @ nl) [VInt (of_nat i), VInt (load64 m (rbp + 8))] s)
         (stack_trace dev m is (load64 m rbp)))"
      by (intro prints_bind prints_kprintf render_trace_line Cons) (use Cons.prems in simp_all)
    with False show ?thesis by (simp only: stack_trace.simps trace_text.simps if_False)
  qed
qed

lemma klogf_silent:
  "level < current_level s \<or> level \<noteq> klog_level_panic \<and> debug_sink s < 0 \<Longrightarrow> klogf dev rbp level string args s m = Some (Logged s)"
  by (auto simp: klogf_def)

lemma quiet_restore:
  assumes "quiet u = quiet (kprintf_set_default_sink d s)"
  shows "quiet (kprintf_set_default_sink (kprintf_get_default_sink s) u) = quiet s"
proof -
  have "quiet (kprintf_set_default_sink p u) = kprintf_set_default_sink p (quiet u)" for p
    by (simp add: quiet_def kprintf_set_default_sink_def)
  moreover have "kprintf_set_default_sink (default_sink s) (quiet (kprintf_set_default_sink d s)) = quiet s"
    by (simp add: quiet_def kprintf_set_default_sink_def)
  ultimately show ?thesis by (simp only: assms kprintf_get_default_sink_def)
qed

lemma klogf_line:
  assumes ready: "klog_ready dev s" and level: "current_level s \<le> level" "level \<noteq> klog_level_panic"
    and cs: "render string args = Some cs"
  shows "\<exists>s'. klogf dev rbp level string args s m = Some (Logged s')
    \<and> line s' = line s @ visible (log_labels level @ cs @ nl) \<and> quiet s' = quiet s"
proof -
  let ?s1 = "kprintf_set_default_sink (debug_sink s) s"
  let ?r = "Option.bind (console_kprintf dev (log_labels level) [] ?s1) (\<lambda>s2.
      Option.bind (console_kvprintf dev string args s2) (\<lambda>s3. console_kprintf dev nl [] s3))"
  have "prints dev (log_labels level @ cs @ nl) ?s1 ?r"
    by (intro prints_bind prints_kprintf klog_ready_console ready render_label cs) simp_all
  then obtain u where u: "?r = Some u" "line u = line ?s1 @ visible (log_labels level @ cs @ nl)" "quiet u = quiet ?s1"
    by (auto simp: prints_def)
  have "klogf dev rbp level string args s m
      = map_option (\<lambda>u. Logged (kprintf_set_default_sink (kprintf_get_default_sink s) u)) ?r"
    using level ready
    by (auto simp: klogf_def klog_ready_def Let_def Option.map_conv_bind_option not_less [symmetric] Option.bind_assoc o_def)
  moreover have "quiet (kprintf_set_default_sink (kprintf_get_default_sink s) u) = quiet s"
    by (rule quiet_restore [OF u(3)])
  ultimately show ?thesis using u by (simp add: line_def kprintf_set_default_sink_def)
qed

text \<open>The text of a panic.\<close>

definition panic_text :: "memory \<Rightarrow> u64 \<Rightarrow> string \<Rightarrow> string" where
  "panic_text m rbp cs = (nl @ ''--- KERNEL PANIC ---'' @ nl) @ cs @ nl @ (''Stack trace:'' @ nl)
     @ trace_text m [0..<16] rbp @ (''--------------------'' @ nl)"

lemma klogf_panic:
  fixes m :: memory
  assumes ready: "klog_ready dev s" and cs: "render string args = Some cs"
  defines "m1 \<equiv> fb_clear_screen panic_color (framebuffer s) m"
  shows "\<exists>s'. klogf dev rbp klog_level_panic string args s m = Some (Panicked s' m1)
    \<and> line s' = line s @ visible (panic_text m1 rbp cs) \<and> \<not> interrupts s'"
proof -
  let ?s1 = "kprintf_set_default_sink (debug_sink s) (s\<lparr>interrupts := False\<rparr>)"
  let ?r = "Option.bind (console_kprintf dev (nl @ ''--- KERNEL PANIC ---'' @ nl) [] ?s1) (\<lambda>s2.
           Option.bind (console_kvprintf dev string args s2) (\<lambda>s3.
           Option.bind (console_kprintf dev nl [] s3) (\<lambda>s4.
           Option.bind (console_kprintf dev (''Stack trace:'' @ nl) [] s4) (\<lambda>s5.
           Option.bind (stack_trace dev m1 [0..<16] rbp s5) (\<lambda>s6.
           console_kprintf dev (''--------------------'' @ nl) [] s6)))))"
  have "prints dev (panic_text m1 rbp cs) ?s1 ?r"
    unfolding panic_text_def
    by (intro prints_bind prints_kprintf stack_trace_prints klog_ready_console ready cs) simp_all
  then obtain u where u: "?r = Some u" "line u = line ?s1 @ visible (panic_text m1 rbp cs)" "quiet u = quiet ?s1"
    by (auto simp: prints_def)
  have fb: "framebuffer ?s1 = framebuffer s" by (simp add: kprintf_set_default_sink_def)
  have "klogf dev rbp klog_level_panic string args s m = map_option (\<lambda>u. Panicked u m1) ?r"
    unfolding klogf_def Let_def fb m1_def [symmetric]
    by (simp only: not_panic_less if_False if_True refl Option.map_conv_bind_option Option.bind_assoc o_def)
  moreover have "\<not> interrupts u"
  proof -
    have "interrupts (quiet u) = interrupts (quiet ?s1)" using u(3) by simp
    then show ?thesis by (simp add: quiet_def kprintf_set_default_sink_def)
  qed
  ultimately show ?thesis using u by (simp add: line_def kprintf_set_default_sink_def)
qed

end
