(* ===== verification/Console_Properties.thy ===== *)
theory Console_Properties
  imports Klog
begin

text \<open>
  The properties of the output path of the kernel: the sink table, the serial line and the log,
  with a slow serial port as the concrete device.
\<close>

section \<open>An example device\<close>

text \<open>
  A serial port on \<open>COM1\<close> that echoes the test byte, is busy for two reads of its status after every
  byte, and then is ready.
\<close>

fun reads :: "io_event list \<Rightarrow> nat" where
  "reads [] = 0"
| "reads (In p v # log) = Suc (reads log)"
| "reads (Out p v # log) = 0"

definition ex_uart :: device where
  "ex_uart log port = (if port = 0x3F8 then 0xae else if reads (rev log) < 2 then 0 else 0x20)"

lemma reads_polls: "reads (rev (polls dev p n log)) = n + reads (rev log)"
  by (induction n arbitrary: log) simp_all

lemma ex_uart_transmits: "transmits ex_uart 0x3F8"
  unfolding transmits_def
proof (intro allI exI)
  show "tx_ready ex_uart 0x3F8 (polls ex_uart (SERIAL_LINE_STATUS_PORT 0x3F8) 2 log)" for log
    by (simp add: tx_ready_def ex_uart_def reads_polls SERIAL_LINE_STATUS_PORT_def)
qed

text \<open>The static variables of the output path as they are when the kernel starts.\<close>

definition boot_console :: klog_state where
  "boot_console = \<lparr>sinks = replicate 256 None, curr_idx = - 1, port_log = [], isInitialied = False, current_com = 0,
     default_sink = - 1, current_level = klog_level_info, debug_sink = - 1,
     framebuffer = \<lparr>address = 0, width = 0, height = 0, pitch = 0, is_ready = False\<rparr>, interrupts = False\<rparr>"

lemma boot_sinks_ok: "sinks_ok boot_console"
  by (simp add: boot_console_def sinks_ok_def SINK_MAX_def)

section \<open>Sinks\<close>

text \<open>C34: over every sequence of registrations and removals from a well-formed table, the table stays
  well-formed and the identifiers handed out are consecutive: none is handed out twice, and after 256
  registrations every further one fails, even when sinks were removed.\<close>

theorem sink_ids_fresh:
  assumes "sink_run s t ids" and "sinks_ok s"
  shows "sinks_ok t \<and> distinct ids \<and> (\<forall>i\<in>set ids. curr_idx s < i \<and> i < 256)
    \<and> (length ids = nat (255 - curr_idx s) \<longrightarrow> fst (sink_register f t) = - 1)"
proof -
  from sink_run_ok [OF assms] have t: "sinks_ok t" "ids = [curr_idx s + 1..curr_idx t]" "curr_idx s \<le> curr_idx t" by auto
  then have "curr_idx t < 256" by (simp add: sinks_ok_def SINK_MAX_def)
  moreover have "fst (sink_register f t) = - 1" if "length ids = nat (255 - curr_idx s)"
  proof -
    from t(1,3) have "curr_idx s \<le> curr_idx t" "curr_idx t \<le> 255" by (simp_all add: sinks_ok_def SINK_MAX_def)
    with that t(2) have "curr_idx t = 255" by simp
    with t(1) show ?thesis by (simp add: sink_register_eq SINK_MAX_def)
  qed
  ultimately show ?thesis using t by auto
qed

theorem sink_ids_fresh_witness:
  "\<exists>t. sink_run boot_console t [0, 1] \<and> sinks_ok t \<and> sink_of t 0 = None \<and> sink_of t 1 = Some debug_sink_write_fn"
proof -
  obtain a where a: "sink_register (Some serial_sink_write_fn) boot_console = (0, a)" "sinks_ok a" "curr_idx a = 0"
    using sink_register_ok [OF boot_sinks_ok, of "Some serial_sink_write_fn"]
    by (auto simp: sink_register_eq [OF boot_sinks_ok] SINK_MAX_def) (auto simp: boot_console_def)
  obtain b where b: "sink_remove 0 a = Some b" "sinks_ok b" "curr_idx b = 0" "sink_of b 0 = None"
    using a sink_remove_ok [OF a(2), of 0] sink_of_remove [OF a(2), of 0] by (auto simp: sink_remove_def SINK_MAX_def)
  obtain c where c: "sink_register (Some debug_sink_write_fn) b = (1, c)"
    using b by (simp add: sink_register_eq SINK_MAX_def)
  have "sink_run boot_console c ([0] @ [1])"
    using a(1) b(1) c by (intro sink_run_register [OF sink_run_remove]) (auto intro: sink_run_register [OF sink_run_Nil, of _ _ 0, simplified])
  moreover from sink_ids_fresh [OF this boot_sinks_ok] have "sinks_ok c" by blast
  ultimately show ?thesis using sink_of_register [OF b(2) c] b(4) by auto
qed

section \<open>The serial line\<close>

text \<open>C11: on a device whose transmitter becomes empty after finitely many reads of the line status,
  \<open>serial_write\<close> returns: it reads the status until it is ready for the first time, then writes the
  byte, and changes nothing else.\<close>

theorem serial_write_returns:
  assumes "isInitialied s" and "transmits dev (current_com s)"
  shows "\<exists>n. (\<forall>k<n. \<not> tx_ready dev (current_com s) (polls dev (current_com s + 5) k (port_log s)))
    \<and> tx_ready dev (current_com s) (polls dev (current_com s + 5) n (port_log s))
    \<and> serial_write dev ch s = Some (s\<lparr>port_log :=
        polls dev (current_com s + 5) (Suc n) (port_log s) @ [Out (current_com s) (of_char ch)]\<rparr>)"
  by (rule serial_write_ready [OF assms, of ch]) (unfold SERIAL_LINE_STATUS_PORT_def, blast)

theorem serial_write_returns_witness:
  "let s = boot_console\<lparr>isInitialied := True, current_com := 0x3F8\<rparr> in
    serial_write ex_uart (CHR ''A'') s = Some (s\<lparr>port_log := polls ex_uart 0x3FD 3 [] @ [Out 0x3F8 0x41]\<rparr>)"
proof -
  let ?s = "boot_console\<lparr>isInitialied := True, current_com := 0x3F8\<rparr>"
  from serial_write_returns [of ?s ex_uart "CHR ''A''"] ex_uart_transmits obtain n where
    n: "\<forall>k<n. \<not> tx_ready ex_uart 0x3F8 (polls ex_uart 0x3FD k [])" "tx_ready ex_uart 0x3F8 (polls ex_uart 0x3FD n [])"
      "serial_write ex_uart (CHR ''A'') ?s = Some (?s\<lparr>port_log := polls ex_uart 0x3FD (Suc n) [] @ [Out 0x3F8 0x41]\<rparr>)"
    by (auto simp: boot_console_def)
  have "tx_ready ex_uart 0x3F8 (polls ex_uart 0x3FD k []) \<longleftrightarrow> 2 \<le> k" for k
    by (simp add: tx_ready_def ex_uart_def reads_polls SERIAL_LINE_STATUS_PORT_def not_less)
  note ready = this
  have "\<not> 2 < n"
  proof
    assume "2 < n"
    with n(1) have "\<not> tx_ready ex_uart 0x3F8 (polls ex_uart 0x3FD 2 [])" by blast
    with ready show False by simp
  qed
  with n(2) ready have "n = 2" by (metis le_neq_implies_less)
  then have "Suc n = 3" by simp
  with n(3) show ?thesis by (simp only: Let_def)
qed

section \<open>Bringing up the console\<close>

text \<open>The ports \<open>serial_init\<close> writes before the loopback test, in order.\<close>

definition init_log :: "u16 \<Rightarrow> io_event list" where
  "init_log com = [Out (com + 3) 0x80, Out com 0, Out com 3, Out (com + 3) 0x03, Out (com + 2) 0xc7,
     Out (com + 4) 0x03, Out (com + 4) 0x16, Out com 0xae]"

lemma serial_init_eq:
  "\<not> isInitialied s \<Longrightarrow> serial_init dev com s =
    (let l = port_log s @ init_log com; s1 = s\<lparr>port_log := l @ [In com (dev l com)]\<rparr>
     in if dev l com \<noteq> 0xae then (- 1, s1)
        else sink_register (Some serial_sink_write_fn)
          (s1\<lparr>port_log := l @ [In com 0xae, Out (com + 4) 0x7], isInitialied := True, current_com := com\<rparr>))"
  by (simp add: serial_init_def serial_configure_baud_rate_def outb_def inb_def serial_ports SERIAL_LINE_ENABLE_DLAB_def
      init_log_def Let_def)

lemma console_up_effect:
  assumes boot: "sinks_ok s" "curr_idx s = - 1" "\<not> isInitialied s" "debug_sink s = - 1"
    and dev: "dev (port_log s @ init_log com) com = 0xae" "transmits dev com"
  shows "console_ok dev (console_up dev com s) \<and> klog_ready dev (console_up dev com s)
    \<and> default_sink (console_up dev com s) = 0 \<and> debug_sink (console_up dev com s) = 1
    \<and> current_level (console_up dev com s) = klog_level_debug
    \<and> port_log (console_up dev com s) = port_log s @ init_log com @ [In com 0xae, Out (com + 4) 0x7]"
proof -
  let ?l = "port_log s @ init_log com"
  let ?s1 = "s\<lparr>port_log := ?l @ [In com 0xae, Out (com + 4) 0x7], isInitialied := True, current_com := com\<rparr>"
  have ok1: "sinks_ok ?s1" using boot(1) by (simp add: sinks_ok_def)
  define s2 where s2_eq: "s2 = ?s1\<lparr>sinks := (sinks s)[0 := Some serial_sink_write_fn], curr_idx := 0\<rparr>"
  have s2: "sink_register (Some serial_sink_write_fn) ?s1 = (0, s2)"
    using boot(2) unfolding sink_register_eq [OF ok1] s2_eq by (simp add: SINK_MAX_def)
  have init: "serial_init dev com s = (0, s2)"
    unfolding serial_init_eq [OF boot(3)] Let_def by (simp add: dev(1) s2 del: append_assoc)
  let ?s3 = "s2\<lparr>default_sink := 0, current_level := klog_level_debug\<rparr>"
  have ok3: "sinks_ok ?s3" using sink_register_ok [OF ok1, of "Some serial_sink_write_fn"] s2 by (simp add: sinks_ok_def)
  define s4 where s4_eq: "s4 = ?s3\<lparr>sinks := (sinks s2)[1 := Some debug_sink_write_fn], curr_idx := 1\<rparr>"
  have "curr_idx ?s3 = 0" "sinks ?s3 = sinks s2" by (simp_all add: s2_eq)
  then have s4: "sink_register (Some debug_sink_write_fn) ?s3 = (1, s4)"
    unfolding sink_register_eq [OF ok3] s4_eq by (simp add: SINK_MAX_def)
  have up: "console_up dev com s = s4\<lparr>debug_sink := 1\<rparr>"
    using s4 boot(4) by (simp add: console_up_def init klog_set_level_def kprintf_set_default_sink_def s2_eq)
  have len: "length (sinks s) = 256" using boot(1) by (simp add: sinks_ok_def)
  show ?thesis unfolding up
    using dev(2) by (simp add: console_ok_def klog_ready_def serial_ok_def sink_of_def SINK_MAX_def s4_eq s2_eq len)
qed

lemma ex_console_ready:
  "klog_ready ex_uart (console_up ex_uart 0x3F8 boot_console)"
  "current_level (console_up ex_uart 0x3F8 boot_console) = klog_level_debug"
  "console_ok ex_uart (console_up ex_uart 0x3F8 boot_console)"
  using console_up_effect [OF boot_sinks_ok, of ex_uart "0x3F8"] ex_uart_transmits by (simp_all add: boot_console_def ex_uart_def)

text \<open>Bringing up the console at boot (\<open>serial_init\<close>, \<open>kprintf_set_default_sink\<close>,
  \<open>klog_set_level\<close>) on a serial port that passes the loopback test and transmits gives a console that
  prints and a log that is ready at debug level, on two different sinks, with the port written exactly
  in the order of \<open>serial_init\<close>.\<close>

theorem console_up_ready:
  assumes boot: "sinks_ok s" "curr_idx s = - 1" "\<not> isInitialied s" "debug_sink s = - 1"
    and dev: "dev (port_log s @ init_log com) com = 0xae" "transmits dev com"
  shows "console_ok dev (console_up dev com s) \<and> klog_ready dev (console_up dev com s)
    \<and> default_sink (console_up dev com s) = 0 \<and> debug_sink (console_up dev com s) = 1
    \<and> current_level (console_up dev com s) = klog_level_debug
    \<and> port_log (console_up dev com s) = port_log s @ init_log com @ [In com 0xae, Out (com + 4) 0x7]"
  by (rule console_up_effect [OF assms])

theorem console_up_ready_witness:
  "console_ok ex_uart (console_up ex_uart 0x3F8 boot_console) \<and> klog_ready ex_uart (console_up ex_uart 0x3F8 boot_console)"
  using console_up_ready [OF boot_sinks_ok, of ex_uart "0x3F8"] ex_uart_transmits
  by (simp add: boot_console_def ex_uart_def)

text \<open>C35: when the serial port fails the loopback test, \<open>serial_init\<close> reports it by \<open>-1\<close> and
  registers nothing, but the caller makes \<open>-1\<close> the default sink: the first character printed then
  reads the sink table out of bounds, so that \<open>kprintf\<close> has no defined result.\<close>

theorem console_up_dead_line:
  assumes "\<not> isInitialied s" and "dev (port_log s @ init_log com) com \<noteq> 0xae" and "sinks_ok s" "debug_sink s = - 1"
    and "render format va = Some (c # cs)" "c \<noteq> CHR 0x00"
  shows "fst (serial_init dev com s) = - 1 \<and> sinks (snd (serial_init dev com s)) = sinks s
    \<and> console_kprintf dev format va (console_up dev com s) = None"
proof -
  let ?l = "port_log s @ init_log com"
  let ?s1 = "s\<lparr>port_log := ?l @ [In com (dev ?l com)]\<rparr>"
  have init: "serial_init dev com s = (- 1, ?s1)"
    unfolding serial_init_eq [OF assms(1)] Let_def by (simp add: assms(2) del: append_assoc)
  have "default_sink (klog_set_level l u) = default_sink u" for l and u :: "'a klog_state_scheme"
    by (simp add: klog_set_level_def sink_register_def Let_def split: prod.split)
  then have "default_sink (console_up dev com s) = - 1"
    by (simp add: console_up_def init kprintf_set_default_sink_def)
  then have "putchar dev c (console_up dev com s) = None" by (simp add: putchar_def sink_write_def SINK_MAX_def)
  moreover have "fold (\<lambda>c os. Option.bind os (f c)) xs None = None" for f :: "char \<Rightarrow> 'a klog_state_scheme \<Rightarrow> _" and xs
    by (induction xs) simp_all
  ultimately show ?thesis using assms(5,6) by (simp add: init console_kprintf_eq print_with_eq)
qed

theorem console_up_dead_line_witness:
  "console_kprintf (\<lambda>log port. 0) ''Hello'' [] (console_up (\<lambda>log port. 0) 0x3F8 boot_console) = None"
  using console_up_dead_line [of boot_console "\<lambda>log port. 0" "0x3F8" "''Hello''" "[]" "CHR ''H''" "''ello''"] boot_sinks_ok
  by (simp add: boot_console_def)

section \<open>Log lines and panics\<close>

text \<open>C31: on a ready log, a call at or above the current level (other than a panic) prints its label,
  its message and a newline on the serial line and leaves everything else as it was, the default sink
  included; a call below the current level, or before the debug sink is registered, does nothing at
  all.\<close>

theorem klogf_prints_line:
  assumes "level \<noteq> klog_level_panic" and "render string args = Some cs"
  shows "(klog_ready dev s \<and> current_level s \<le> level \<longrightarrow>
      (\<exists>s'. klogf dev rbp level string args s m = Some (Logged s')
        \<and> line s' = line s @ visible (log_labels level @ cs @ nl) \<and> quiet s' = quiet s))
    \<and> (level < current_level s \<or> debug_sink s < 0 \<longrightarrow> klogf dev rbp level string args s m = Some (Logged s))"
  using klogf_line [OF _ _ assms] klogf_silent [of level s] assms(1) by blast

theorem klogf_prints_line_witness:
  "\<exists>s'. klogf ex_uart 0 klog_level_warn ''low'' [] (console_up ex_uart 0x3F8 boot_console) (\<lambda>_. 0) = Some (Logged s')
    \<and> line s' = line (console_up ex_uart 0x3F8 boot_console) @ visible (''[warn]: low'' @ nl)"
proof -
  let ?s = "console_up ex_uart 0x3F8 boot_console"
  have "klog_ready ex_uart ?s \<and> current_level ?s \<le> klog_level_warn"
    by (simp add: ex_console_ready less_eq_klog_level_def level_num_def)
  with klogf_prints_line [of klog_level_warn "''low''" "[]" "''low''" ex_uart ?s 0 "\<lambda>_. 0"] show ?thesis
    by (auto simp: log_labels_def visible_def)
qed



end
