(* ===== verification/Gdt.thy ===== *)
theory Gdt
  imports Prelude
begin

text \<open>
  The global descriptor table (\<open>src/src/cpu/gdt.c\<close>, \<open>gdt.h\<close>, \<open>gdt.asm\<close>): the packed descriptors,
  the table of five entries and the segment registers the processor has after loading it. The
  address of the static table is a parameter; log calls are recorded.
\<close>

section \<open>Descriptors\<close>

record gdt_entry =
  limit_low :: u16
  base_low :: u16
  base_middle :: u8
  access_byte :: u8
  granularity :: u8
  base_high :: u8

record gdt_descriptor =
  gdt_size :: u16
  gdt_address :: u64

text \<open>The eight bytes of a descriptor as the processor reads them, lowest byte first.\<close>

definition entry_word :: "gdt_entry \<Rightarrow> u64" where
  "entry_word e = ucast (limit_low e) OR push_bit 16 (ucast (base_low e)) OR push_bit 32 (ucast (base_middle e))
     OR push_bit 40 (ucast (access_byte e)) OR push_bit 48 (ucast (granularity e)) OR push_bit 56 (ucast (base_high e))"

section \<open>The table\<close>

definition GDT_ENTRIES_COUNT :: nat where "GDT_ENTRIES_COUNT = 5"

record gdt_state =
  gdt :: "gdt_entry list"
  gdt_ptr :: gdt_descriptor
  gdtr :: gdt_descriptor
  code_seg :: u16
  data_segs :: "u16 list"
  gdt_log :: "klog_call list"

text \<open>An index outside the table has no defined meaning.\<close>

definition gdt_set_entry :: "u16 \<Rightarrow> u32 \<Rightarrow> u32 \<Rightarrow> u8 \<Rightarrow> u8 \<Rightarrow> gdt_state \<Rightarrow> gdt_state option" where
  "gdt_set_entry num base limit access gran s =
     (if unat num \<ge> GDT_ENTRIES_COUNT then None
      else Some (s\<lparr>gdt := (gdt s)[unat num :=
        \<lparr>limit_low = ucast (limit AND 0xFFFF),
         base_low = ucast (base AND 0xFFFF),
         base_middle = ucast (drop_bit 16 base AND 0xFF),
         access_byte = access,
         granularity = ucast (drop_bit 16 limit AND 0x0F) OR (gran AND 0xF0),
         base_high = ucast (drop_bit 24 base AND 0xFF)\<rparr>]\<rparr>))"

text \<open>
  \<open>_gdt_flush\<close>: the table register, then the code segment by a far return and the five data segment
  registers \<open>ds\<close>, \<open>es\<close>, \<open>fs\<close>, \<open>gs\<close> and \<open>ss\<close>.
\<close>

definition gdt_flush :: "gdt_descriptor \<Rightarrow> gdt_state \<Rightarrow> gdt_state" where
  "gdt_flush gdtptr s = s\<lparr>gdtr := gdtptr, code_seg := 0x8, data_segs := replicate 5 0x10\<rparr>"

definition gdt_init :: "u64 \<Rightarrow> gdt_state \<Rightarrow> gdt_state option" where
  "gdt_init table s =
     (let s0 = s\<lparr>gdt_ptr := \<lparr>gdt_size = of_nat (8 * GDT_ENTRIES_COUNT - 1), gdt_address = table\<rparr>\<rparr> in
      Option.bind (gdt_set_entry 0 0 0 0 0 s0) (\<lambda>s1.
      Option.bind (gdt_set_entry 1 0 0xFFFFF 0x9A 0xA0 s1) (\<lambda>s2.
      Option.bind (gdt_set_entry 2 0 0xFFFFF 0x92 0xC0 s2) (\<lambda>s3.
      Option.bind (gdt_set_entry 3 0 0xFFFFF 0xFA 0xA0 s3) (\<lambda>s4.
      Option.bind (gdt_set_entry 4 0 0xFFFFF 0xF2 0xC0 s4) (\<lambda>s5.
      let s6 = s5\<lparr>gdt_log := gdt_log s5 @ [(klog_level_debug, ''GDT address: 0x%llx  size: %u'',
                 [gdt_address (gdt_ptr s5), ucast (gdt_size (gdt_ptr s5))])]\<rparr>
      in Some (gdt_flush (gdt_ptr s6) s6)))))))"

section \<open>Reading descriptors\<close>

text \<open>The fields of a descriptor as the processor puts them together.\<close>

definition seg_base :: "u64 \<Rightarrow> u32" where
  "seg_base d = ucast (take_bit 24 (drop_bit 16 d)) OR push_bit 24 (ucast (drop_bit 56 d))"

definition seg_limit :: "u64 \<Rightarrow> u32" where
  "seg_limit d = ucast (take_bit 16 d) OR push_bit 16 (ucast (take_bit 4 (drop_bit 48 d)))"

definition seg_access :: "u64 \<Rightarrow> u8" where
  "seg_access d = ucast (drop_bit 40 d)"

definition seg_flags :: "u64 \<Rightarrow> u8" where
  "seg_flags d = take_bit 4 (ucast (drop_bit 52 d))"

lemma bit_entry_word:
  "bit (entry_word e) k \<longleftrightarrow>
    (if k < 16 then bit (limit_low e) k else if k < 32 then bit (base_low e) (k - 16)
     else if k < 40 then bit (base_middle e) (k - 32) else if k < 48 then bit (access_byte e) (k - 40)
     else if k < 56 then bit (granularity e) (k - 48) else bit (base_high e) (k - 56))"
proof -
  have high: "16 \<le> j \<Longrightarrow> \<not> bit (x :: u16) j" "8 \<le> j \<Longrightarrow> \<not> bit (y :: u8) j" for j x y
    by (auto dest: bit_imp_le_length)
  consider "k < 16" | "16 \<le> k" "k < 32" | "32 \<le> k" "k < 40" | "40 \<le> k" "k < 48" | "48 \<le> k" "k < 56" | "56 \<le> k" by linarith
  then show ?thesis
    by cases (simp_all add: entry_word_def bit_or_iff bit_push_bit_iff bit_ucast_iff high, auto dest: bit_imp_le_length)
qed

lemma and_masks:
  "w AND 0xFFFF = take_bit 16 w" "w AND 0xFF = take_bit 8 w" "w AND 0x0F = take_bit 4 w" for w :: u32
  by (simp_all add: take_bit_eq_mask mask_eq_exp_minus_1)

lemma and_0xF0: "w AND 0xF0 = push_bit 4 (drop_bit 4 w)" for w :: u8
proof -
  have "w AND NOT (mask 4) = push_bit 4 (drop_bit 4 w)"
    by (rule bit_word_eqI) (auto simp: bit_and_iff bit_not_iff bit_mask_iff bit_push_bit_iff bit_drop_bit_eq)
  moreover have "(0xF0 :: u8) = NOT (mask 4)" by (simp add: mask_eq_exp_minus_1)
  ultimately show ?thesis by (simp only:)
qed

text \<open>A descriptor that was set reads back as its base, its limit (20 bits), its access byte and its flags.\<close>

definition packed :: "u32 \<Rightarrow> u32 \<Rightarrow> u8 \<Rightarrow> u8 \<Rightarrow> gdt_entry" where
  "packed base limit access gran =
    \<lparr>limit_low = ucast (take_bit 16 limit), base_low = ucast (take_bit 16 base),
     base_middle = ucast (take_bit 8 (drop_bit 16 base)), access_byte = access,
     granularity = ucast (take_bit 4 (drop_bit 16 limit)) OR push_bit 4 (drop_bit 4 gran),
     base_high = ucast (take_bit 8 (drop_bit 24 base))\<rparr>"

lemma gdt_set_entry_packed:
  "unat num < 5 \<Longrightarrow> gdt_set_entry num base limit access gran s = Some (s\<lparr>gdt := (gdt s)[unat num := packed base limit access gran]\<rparr>)"
  by (simp add: gdt_set_entry_def packed_def GDT_ENTRIES_COUNT_def and_masks and_0xF0)

lemma packed_bits [simp]:
  "bit (limit_low (packed base limit access gran)) k \<longleftrightarrow> k < 16 \<and> bit limit k"
  "bit (base_low (packed base limit access gran)) k \<longleftrightarrow> k < 16 \<and> bit base k"
  "bit (base_middle (packed base limit access gran)) k \<longleftrightarrow> k < 8 \<and> bit base (k + 16)"
  "access_byte (packed base limit access gran) = access"
  "bit (granularity (packed base limit access gran)) k \<longleftrightarrow> (if k < 4 then bit limit (k + 16) else bit gran k)"
  "bit (base_high (packed base limit access gran)) k \<longleftrightarrow> k < 8 \<and> bit base (k + 24)"
  by (auto simp: packed_def bit_or_iff bit_push_bit_iff bit_ucast_iff bit_take_bit_iff bit_drop_bit_eq add.commute
      dest: bit_imp_le_length)

lemma packed_base: "seg_base (entry_word (packed base limit access gran)) = base"
proof (rule bit_word_eqI)
  fix k assume "k < LENGTH(32)"
  then consider "k < 16" | "16 \<le> k" "k < 24" | "24 \<le> k" "k < 32" by force
  then show "bit (seg_base (entry_word (packed base limit access gran))) k = bit base k"
    by cases (simp_all add: seg_base_def bit_or_iff bit_push_bit_iff bit_ucast_iff bit_take_bit_iff bit_drop_bit_eq bit_entry_word, linarith+)
qed

lemma packed_limit: "seg_limit (entry_word (packed base limit access gran)) = take_bit 20 limit"
proof (rule bit_word_eqI)
  fix k assume "k < LENGTH(32)"
  then consider "k < 16" | "16 \<le> k" "k < 20" | "20 \<le> k" "k < 32" by force
  then show "bit (seg_limit (entry_word (packed base limit access gran))) k = bit (take_bit 20 limit) k"
    by cases (simp_all add: seg_limit_def bit_or_iff bit_push_bit_iff bit_ucast_iff bit_take_bit_iff bit_drop_bit_eq bit_entry_word, linarith+)
qed

lemma packed_access: "seg_access (entry_word (packed base limit access gran)) = access"
  by (rule bit_word_eqI) (simp add: seg_access_def bit_ucast_iff bit_drop_bit_eq bit_entry_word)

lemma packed_flags: "seg_flags (entry_word (packed base limit access gran)) = drop_bit 4 gran"
proof (rule bit_word_eqI)
  fix k assume "k < LENGTH(8)"
  then show "bit (seg_flags (entry_word (packed base limit access gran))) k = bit (drop_bit 4 gran) k"
    by (auto simp: seg_flags_def bit_ucast_iff bit_take_bit_iff bit_drop_bit_eq bit_entry_word add.commute dest: bit_imp_le_length)
qed

section \<open>The kernel's table\<close>

definition kernel_gdt :: "gdt_entry list" where
  "kernel_gdt = [packed 0 0 0 0, packed 0 0xFFFFF 0x9A 0xA0, packed 0 0xFFFFF 0x92 0xC0,
     packed 0 0xFFFFF 0xFA 0xA0, packed 0 0xFFFFF 0xF2 0xC0]"

lemma five_updates: "length xs = 5 \<Longrightarrow> xs[0 := a, 1 := b, 2 := c, 3 := d, 4 := e] = [a, b, c, d, e]"
  by (auto simp: numeral_eq_Suc length_Suc_conv)

lemma gdt_init_eq:
  assumes "length (gdt s) = GDT_ENTRIES_COUNT"
  shows "gdt_init table s = Some (s\<lparr>gdt := kernel_gdt, gdt_ptr := \<lparr>gdt_size = 39, gdt_address = table\<rparr>,
    gdtr := \<lparr>gdt_size = 39, gdt_address = table\<rparr>, code_seg := 0x8, data_segs := replicate 5 0x10,
    gdt_log := gdt_log s @ [(klog_level_debug, ''GDT address: 0x%llx  size: %u'', [table, 39])]\<rparr>)"
  using assms five_updates [of "gdt s"]
  by (simp add: gdt_init_def gdt_set_entry_packed gdt_flush_def kernel_gdt_def GDT_ENTRIES_COUNT_def Let_def)

end
