(* ===== verification/Idt.thy ===== *)
theory Idt
  imports Gdt Loops
begin

text \<open>
  The interrupt descriptor table (\<open>src/src/cpu/idt.c\<close>, \<open>idt.h\<close>, \<open>idt.asm\<close>) and its generated
  initialisation (\<open>src/src/cpu/isr_gen.c\<close>). The addresses of the table and of the entry stubs
  \<open>_isr0\<close> to \<open>_isr255\<close> are parameters.
\<close>

section \<open>Gates\<close>

record idt_entry_t =
  addr_low :: u16
  kernel_cs :: u16
  ist :: u8
  gate_flags :: u8
  addr_mid :: u16
  addr_high :: u32
  reserved :: u32

record idt_descriptor_t =
  idt_size :: u16
  idt_address :: u64

definition IDT_FLAG_INTERRUPT_GATE_64 :: u8 where "IDT_FLAG_INTERRUPT_GATE_64 = 0x0E"
definition IDT_FLAG_TRAP_GATE64 :: u8 where "IDT_FLAG_TRAP_GATE64 = 0x0F"
definition IDT_FLAG_RING_0 :: u8 where "IDT_FLAG_RING_0 = push_bit 5 0"
definition IDT_FLAG_RING_1 :: u8 where "IDT_FLAG_RING_1 = push_bit 5 1"
definition IDT_FLAG_RING_2 :: u8 where "IDT_FLAG_RING_2 = push_bit 5 2"
definition IDT_FLAG_RING_3 :: u8 where "IDT_FLAG_RING_3 = push_bit 5 3"
definition IDT_FLAG_PRESENT :: u8 where "IDT_FLAG_PRESENT = 0x80"

section \<open>The table\<close>

record idt_state =
  idt :: "idt_entry_t list"
  idtPtr :: idt_descriptor_t
  idtr :: idt_descriptor_t

definition null_gate :: idt_entry_t where
  "null_gate = \<lparr>addr_low = 0, kernel_cs = 0, ist = 0, gate_flags = 0, addr_mid = 0, addr_high = 0, reserved = 0\<rparr>"

definition idt_set_gate :: "u8 \<Rightarrow> u64 \<Rightarrow> u8 \<Rightarrow> idt_state \<Rightarrow> idt_state" where
  "idt_set_gate num addr flags s =
     s\<lparr>idt := (idt s)[unat num := (idt s ! unat num)
       \<lparr>addr_low := ucast (addr AND 0xFFFF),
        addr_mid := ucast (drop_bit 16 addr AND 0xFFFF),
        addr_high := ucast (drop_bit 32 addr AND 0xFFFFFFFF),
        kernel_cs := 0x08,
        gate_flags := flags\<rparr>]\<rparr>"

text \<open>
  The calls of \<open>isr_init\<close>, one per vector: those for the processor exceptions, for the vectors up to
  127 and for the upper half.
\<close>

definition isr_gate :: "(nat \<Rightarrow> u64) \<Rightarrow> nat \<Rightarrow> idt_state \<Rightarrow> idt_state" where
  "isr_gate isr i = idt_set_gate (of_nat i) (isr i) (IDT_FLAG_INTERRUPT_GATE_64 OR IDT_FLAG_RING_0 OR IDT_FLAG_PRESENT)"

definition isr_init_exceptions :: "(nat \<Rightarrow> u64) \<Rightarrow> idt_state \<Rightarrow> idt_state" where
  "isr_init_exceptions isr = fold (isr_gate isr) [0..<32]"

definition isr_init_low :: "(nat \<Rightarrow> u64) \<Rightarrow> idt_state \<Rightarrow> idt_state" where
  "isr_init_low isr = fold (isr_gate isr) [32..<128]"

definition isr_init_high :: "(nat \<Rightarrow> u64) \<Rightarrow> idt_state \<Rightarrow> idt_state" where
  "isr_init_high isr = fold (isr_gate isr) [128..<256]"

definition isr_init :: "(nat \<Rightarrow> u64) \<Rightarrow> idt_state \<Rightarrow> idt_state" where
  "isr_init isr s = isr_init_high isr (isr_init_low isr (isr_init_exceptions isr s))"

definition idt_load :: "idt_descriptor_t \<Rightarrow> idt_state \<Rightarrow> idt_state" where
  "idt_load idtptr s = s\<lparr>idtr := idtptr\<rparr>"

text \<open>\<open>memset\<close> over the table gives 256 gates of zero bytes.\<close>

definition idt_init :: "(nat \<Rightarrow> u64) \<Rightarrow> u64 \<Rightarrow> idt_state \<Rightarrow> idt_state" where
  "idt_init isr table s =
     (let s1 = s\<lparr>idtPtr := \<lparr>idt_size = of_nat (16 * 256 - 1), idt_address = table\<rparr>\<rparr>;
          s2 = s1\<lparr>idt := replicate 256 null_gate\<rparr>;
          s3 = isr_init isr s2
      in idt_load (idtPtr s3) s3)"

section \<open>Reading gates\<close>

text \<open>The entry point of a gate as the processor puts it together.\<close>

definition gate_offset :: "idt_entry_t \<Rightarrow> u64" where
  "gate_offset g = ucast (addr_low g) OR push_bit 16 (ucast (addr_mid g)) OR push_bit 32 (ucast (addr_high g))"

lemma and_gate_masks:
  "w AND 0xFFFF = take_bit 16 w" "w AND 0xFFFFFFFF = take_bit 32 w" for w :: u64
  by (simp_all add: take_bit_eq_mask mask_eq_exp_minus_1)

definition gate_for :: "u64 \<Rightarrow> u8 \<Rightarrow> idt_entry_t \<Rightarrow> idt_entry_t" where
  "gate_for addr flags g = g\<lparr>addr_low := ucast (take_bit 16 addr), addr_mid := ucast (take_bit 16 (drop_bit 16 addr)),
     addr_high := ucast (take_bit 32 (drop_bit 32 addr)), kernel_cs := 0x08, gate_flags := flags\<rparr>"

lemma gate_offset_for: "gate_offset (gate_for addr flags g) = addr"
proof (rule bit_word_eqI)
  fix k assume "k < LENGTH(64)"
  then consider "k < 16" | "16 \<le> k" "k < 32" | "32 \<le> k" "k < 64" by force
  then show "bit (gate_offset (gate_for addr flags g)) k = bit addr k"
    by cases (simp_all add: gate_offset_def gate_for_def bit_or_iff bit_push_bit_iff bit_ucast_iff bit_take_bit_iff bit_drop_bit_eq, linarith+)
qed

lemma idt_set_gate_eq:
  "idt_set_gate num addr flags s = s\<lparr>idt := (idt s)[unat num := gate_for addr flags (idt s ! unat num)]\<rparr>"
  by (simp add: idt_set_gate_def gate_for_def and_gate_masks)

section \<open>The whole table\<close>

text \<open>What a gate says to the processor: entry point, code segment, type, and the fields that stay zero.\<close>

definition gate_view :: "idt_state \<Rightarrow> nat \<Rightarrow> (u64 \<times> u16 \<times> u8 \<times> u8 \<times> u32) option" where
  "gate_view s v = (if v < 256 then
     (let g = idt s ! v in Some (gate_offset g, kernel_cs g, gate_flags g, ist g, reserved g)) else None)"

definition idt_ok :: "idt_state \<Rightarrow> bool" where
  "idt_ok s \<longleftrightarrow> length (idt s) = 256 \<and> (\<forall>v<256. ist (idt s ! v) = 0 \<and> reserved (idt s ! v) = 0)"

interpretation gates: keyed_updates idt_ok "\<lambda>i s s'. i < 256 \<and> s' = isr_gate isr i s" gate_view
    "\<lambda>i v. v = i \<and> v < 256" "\<lambda>i. Some (isr i, 0x08, 0x8E, 0, 0)" for isr
proof unfold_locales
  fix s i s' assume "idt_ok s" "i < 256 \<and> s' = isr_gate isr i s"
  then show "idt_ok s'"
    by (auto simp: idt_ok_def isr_gate_def idt_set_gate_eq gate_for_def nth_list_update)
next
  fix s i s' v assume ok: "idt_ok s" and step: "i < 256 \<and> s' = isr_gate isr i s"
  have "unat (of_nat i :: u8) = i" using step by (simp add: unat_of_nat)
  moreover have "kernel_cs (gate_for a f g) = 0x08" "gate_flags (gate_for a f g) = f"
      "ist (gate_for a f g) = ist g" "reserved (gate_for a f g) = reserved g" for a f g by (simp_all add: gate_for_def)
  ultimately show "gate_view s' v = (if v = i \<and> v < 256 then Some (isr i, 0x08, 0x8E, 0, 0) else gate_view s v)"
    using ok step by (auto simp: gate_view_def idt_ok_def isr_gate_def idt_set_gate_eq gate_offset_for nth_list_update
        IDT_FLAG_INTERRUPT_GATE_64_def IDT_FLAG_RING_0_def IDT_FLAG_PRESENT_def Let_def)
qed

lemma isr_init_fold: "isr_init isr s = fold (isr_gate isr) [0..<256] s"
proof -
  have "[0..<256] = [0..<32] @ [32..<128] @ [128..<256]"
    using upt_add_eq_append [of 0 32 96] upt_add_eq_append [of 0 128 128] by simp
  then show ?thesis by (simp only: isr_init_def isr_init_exceptions_def isr_init_low_def isr_init_high_def fold_append o_apply)
qed

lemma isr_init_gate: "idt_ok s \<Longrightarrow> v < 256 \<Longrightarrow> gate_view (isr_init isr s) v = Some (isr v, 0x08, 0x8E, 0, 0)"
proof -
  assume ok: "idt_ok s" and v: "v < 256"
  have "run (\<lambda>i s s'. i < 256 \<and> s' = isr_gate isr i s) [0..<256] s (isr_init isr s)"
    unfolding isr_init_fold by (rule run_fold_guard) simp
  from gates.run_hit [OF ok this, of v v] v show ?thesis by auto
qed

lemma isr_gate_ptr [simp]: "idtPtr (isr_gate isr i s) = idtPtr s"
  by (simp add: isr_gate_def idt_set_gate_def)

lemma isr_init_ptr [simp]: "idtPtr (isr_init isr s) = idtPtr s"
proof -
  have "idtPtr (fold (isr_gate isr) is s) = idtPtr s" for "is" by (induction "is" arbitrary: s) simp_all
  then show ?thesis by (simp add: isr_init_fold)
qed

lemma gate_view_load: "gate_view (idt_load p s) v = gate_view s v"
  by (simp add: gate_view_def idt_load_def)

lemma idt_init_gate:
  assumes "v < 256"
  shows "gate_view (idt_init isr table s) v = Some (isr v, 0x08, 0x8E, 0, 0)"
proof -
  let ?s = "s\<lparr>idtPtr := \<lparr>idt_size = of_nat (16 * 256 - 1), idt_address = table\<rparr>, idt := replicate 256 null_gate\<rparr>"
  have "idt_ok ?s" by (simp add: idt_ok_def null_gate_def)
  from isr_init_gate [OF this assms, of isr] show ?thesis unfolding idt_init_def Let_def gate_view_load .
qed

lemma idt_init_idtr: "idtr (idt_init isr table s) = \<lparr>idt_size = 4095, idt_address = table\<rparr>"
  by (simp add: idt_init_def idt_load_def Let_def)

end
