(* ===== verification/Isr_Stubs.thy ===== *)
theory Isr_Stubs
  imports Memory
begin

text \<open>
  The interrupt entry of \<open>src/src/cpu/isr.asm\<close> with the vector table \<open>src/src/cpu/isr_gen.inc\<close>: the
  stubs push an error code and the vector, the common part saves the general registers, calls the C
  handler with a pointer to the frame (\<open>struct Registers\<close> of \<open>src/src/cpu/isr.h\<close>), restores the
  registers and returns from the interrupt.
\<close>

section \<open>The processor\<close>

datatype reg = RAX | RBX | RCX | RDX | RSI | RDI | RBP | R8 | R9 | R10 | R11 | R12 | R13 | R14 | R15

record processor =
  gpr :: "reg \<Rightarrow> u64"
  p_rsp :: u64
  p_rip :: u64
  p_cs :: u64
  p_rflags :: u64
  p_ss :: u64
  ram :: memory

definition push :: "u64 \<Rightarrow> processor \<Rightarrow> processor" where
  "push v s = s\<lparr>p_rsp := p_rsp s - 8, ram := store64 (p_rsp s - 8) v (ram s)\<rparr>"

definition pop_reg :: "reg \<Rightarrow> processor \<Rightarrow> processor" where
  "pop_reg r s = s\<lparr>gpr := (gpr s)(r := load64 (ram s) (p_rsp s)), p_rsp := p_rsp s + 8\<rparr>"

text \<open>
  What the processor does on an interrupt in 64-bit mode before the first instruction of the stub:
  it aligns the stack, pushes \<open>ss\<close>, \<open>rsp\<close>, \<open>rflags\<close>, \<open>cs\<close> and \<open>rip\<close>, and the error code of the
  exceptions that have one.
\<close>

definition cpu_interrupt :: "u64 option \<Rightarrow> processor \<Rightarrow> processor" where
  "cpu_interrupt err s =
     (let s1 = s\<lparr>p_rsp := p_rsp s AND NOT 0xF\<rparr>;
          s2 = push (p_rip s) (push (p_cs s) (push (p_rflags s) (push (p_rsp s) (push (p_ss s) s1))))
      in case err of None \<Rightarrow> s2 | Some e \<Rightarrow> push e s2)"

definition iretq :: "processor \<Rightarrow> processor" where
  "iretq s = s\<lparr>p_rip := load64 (ram s) (p_rsp s), p_cs := load64 (ram s) (p_rsp s + 8), p_rflags := load64 (ram s) (p_rsp s + 16),
     p_rsp := load64 (ram s) (p_rsp s + 24), p_ss := load64 (ram s) (p_rsp s + 32)\<rparr>"

section \<open>The stubs\<close>

text \<open>The vectors of the macro \<open>ISR_ERROR\<close>; all others use \<open>ISR_NO_ERROR\<close>.\<close>

definition isr_error_vectors :: "nat list" where
  "isr_error_vectors = [8, 10, 11, 12, 13, 14, 17, 21]"

definition isr_stub :: "nat \<Rightarrow> processor \<Rightarrow> processor" where
  "isr_stub v s =
     (if v \<in> set isr_error_vectors then push (of_nat v) s
      else push (of_nat v) (push 0 s))"

definition saved_regs :: "reg list" where
  "saved_regs = [RAX, RBX, RCX, RDX, RSI, RDI, RBP, R8, R9, R10, R11, R12, R13, R14, R15]"

definition restored_regs :: "reg list" where
  "restored_regs = [R15, R14, R13, R12, R11, R10, R9, R8, RBP, RDI, RSI, RDX, RCX, RBX, RAX]"

text \<open>
  The call of the handler: it gets the stack pointer in \<open>rdi\<close> and may change memory; the registers it
  leaves behind are arbitrary, except for the stack pointer.
\<close>

definition call_handler :: "(u64 \<Rightarrow> memory \<Rightarrow> memory) \<Rightarrow> (reg \<Rightarrow> u64) \<Rightarrow> processor \<Rightarrow> processor" where
  "call_handler h clobber s =
     (let s1 = s\<lparr>gpr := (gpr s)(RDI := p_rsp s)\<rparr>
      in s1\<lparr>gpr := clobber, ram := h (gpr s1 RDI) (ram s1)\<rparr>)"

definition isr_common :: "(u64 \<Rightarrow> memory \<Rightarrow> memory) \<Rightarrow> (reg \<Rightarrow> u64) \<Rightarrow> processor \<Rightarrow> processor" where
  "isr_common h clobber s =
     (let s1 = fold (\<lambda>r s. push (gpr s r) s) saved_regs s;
          s2 = call_handler h clobber s1;
          s3 = fold pop_reg restored_regs s2;
          s4 = s3\<lparr>p_rsp := p_rsp s3 + 16\<rparr>
      in iretq s4)"

definition interrupt :: "(u64 \<Rightarrow> memory \<Rightarrow> memory) \<Rightarrow> (reg \<Rightarrow> u64) \<Rightarrow> nat \<Rightarrow> u64 option \<Rightarrow> processor \<Rightarrow> processor" where
  "interrupt h clobber v err s = isr_common h clobber (isr_stub v (cpu_interrupt err s))"

section \<open>The frame\<close>

record Registers =
  r15 :: u64
  r14 :: u64
  r13 :: u64
  r12 :: u64
  r11 :: u64
  r10 :: u64
  r9 :: u64
  r8 :: u64
  rbp :: u64
  rdi :: u64
  rsi :: u64
  rdx :: u64
  rcx :: u64
  rbx :: u64
  rax :: u64
  interrupt_num :: u64
  error_code :: u64
  rip :: u64
  cs :: u64
  rflags :: u64
  rsp :: u64
  ss :: u64

text \<open>The packed structure in memory: word \<open>i\<close> of the frame at \<open>p\<close>.\<close>

definition word_at :: "memory \<Rightarrow> u64 \<Rightarrow> nat \<Rightarrow> u64" where
  "word_at m p i = load64 m (p + of_nat (8 * i))"

definition read_registers :: "memory \<Rightarrow> u64 \<Rightarrow> Registers" where
  "read_registers m p =
     \<lparr>r15 = word_at m p 0, r14 = word_at m p 1, r13 = word_at m p 2, r12 = word_at m p 3, r11 = word_at m p 4,
      r10 = word_at m p 5, r9 = word_at m p 6, r8 = word_at m p 7, rbp = word_at m p 8, rdi = word_at m p 9,
      rsi = word_at m p 10, rdx = word_at m p 11, rcx = word_at m p 12, rbx = word_at m p 13, rax = word_at m p 14,
      interrupt_num = word_at m p 15, error_code = word_at m p 16, rip = word_at m p 17, cs = word_at m p 18,
      rflags = word_at m p 19, rsp = word_at m p 20, ss = word_at m p 21\<rparr>"

text \<open>The frame of a processor that takes vector \<open>v\<close>.\<close>

definition frame_of :: "processor \<Rightarrow> nat \<Rightarrow> u64 option \<Rightarrow> Registers" where
  "frame_of s v err =
     \<lparr>r15 = gpr s R15, r14 = gpr s R14, r13 = gpr s R13, r12 = gpr s R12, r11 = gpr s R11, r10 = gpr s R10,
      r9 = gpr s R9, r8 = gpr s R8, rbp = gpr s RBP, rdi = gpr s RDI, rsi = gpr s RSI, rdx = gpr s RDX,
      rcx = gpr s RCX, rbx = gpr s RBX, rax = gpr s RAX, interrupt_num = of_nat v,
      error_code = (case err of None \<Rightarrow> 0 | Some e \<Rightarrow> e), rip = p_rip s, cs = p_cs s, rflags = p_rflags s,
      rsp = p_rsp s, ss = p_ss s\<rparr>"

section \<open>Pushing and popping\<close>

lemma word_store_load:
  assumes "i < 1000000" and "k < 1000000"
  shows "load64 (store64 (a + of_nat (8 * k)) v m) (a + of_nat (8 * i)) = (if i = k then v else load64 m (a + of_nat (8 * i)))"
proof (cases "i = k")
  case False
  have "8 \<le> unat (a + of_nat (8 * i) + of_nat j - (a + of_nat (8 * k)))" if "j < 8" for j
  proof -
    have "a + of_nat (8 * i) + of_nat j - (a + of_nat (8 * k)) = of_nat (8 * i + j) - of_nat (8 * k)" by simp
    moreover have "unat (of_nat (8 * i + j) :: u64) = 8 * i + j" "unat (of_nat (8 * k) :: u64) = 8 * k"
      using assms that by (intro unat_of_nat_u64; simp)+
    ultimately show ?thesis using False assms that by (simp only: unat_sub_if') (simp add: not_le, linarith)
  qed
  then have "load_le 8 (store_le 8 (a + of_nat (8 * k)) v m) (a + of_nat (8 * i)) = (load_le 8 m (a + of_nat (8 * i)) :: u64)"
    by (rule load_store_le_other)
  with False show ?thesis by (simp add: load64_def store64_def)
qed simp

lemma fold_push_rsp: "p_rsp (fold push vs s) = p_rsp s - of_nat (8 * length vs)"
proof (induction vs arbitrary: s)
  case (Cons v vs)
  have "p_rsp (push v s) = p_rsp s - 8" by (simp add: push_def)
  with Cons.IH [of "push v s"] show ?case by simp
qed simp

text \<open>The stack after a sequence of pushes holds the pushed values, the last one on top.\<close>

lemma fold_push_word:
  assumes "length vs < 1000000" and "i < length vs"
  shows "word_at (ram (fold push vs s)) (p_rsp s - of_nat (8 * length vs)) i = rev vs ! i"
  using assms
proof (induction vs arbitrary: i rule: rev_induct)
  case (snoc v vs)
  let ?n = "length vs" and ?m = "ram (fold push vs s)"
  let ?p = "p_rsp s - of_nat (8 * Suc ?n)"
  have p: "p_rsp (fold push vs s) - 8 = ?p" by (simp add: fold_push_rsp algebra_simps)
  have q: "?p + of_nat (8 * Suc j) = p_rsp s - of_nat (8 * ?n) + of_nat (8 * j)" for j by (simp add: algebra_simps)
  have st: "ram (fold push (vs @ [v]) s) = store64 (?p + of_nat (8 * 0)) v ?m" by (simp add: push_def p)
  show ?case
  proof (cases i)
    case 0
    then show ?thesis unfolding word_at_def st by (simp add: st)
  next
    case (Suc j)
    then have j: "j < ?n" "Suc j < 1000000" using snoc.prems by auto
    have "load64 (store64 (?p + of_nat (8 * 0)) v ?m) (?p + of_nat (8 * Suc j)) = load64 ?m (?p + of_nat (8 * Suc j))"
      using word_store_load [of "Suc j" 0 ?p v ?m] j(2) by simp
    also have "\<dots> = rev vs ! j" using snoc.IH [of j] snoc.prems(1) j(1) unfolding word_at_def q by simp
    finally show ?thesis using Suc unfolding word_at_def st by (simp only: length_append_singleton rev_append rev_singleton_conv list.size) (simp add: nth_Cons)
  qed
qed simp

lemma fold_push_frame:
  "length vs < 1000000 \<Longrightarrow> 8 * length vs \<le> unat (x - (p_rsp s - of_nat (8 * length vs))) \<Longrightarrow> ram (fold push vs s) x = ram s x"
proof (induction vs arbitrary: s)
  case (Cons v vs)
  let ?n = "length vs"
  let ?p = "p_rsp s - of_nat (8 * Suc ?n)"
  have n: "8 * Suc ?n \<le> unat (x - ?p)" using Cons.prems(2) by simp
  have p: "p_rsp (push v s) - of_nat (8 * ?n) = ?p" by (simp add: push_def algebra_simps)
  have "ram (fold push vs (push v s)) x = ram (push v s) x"
    using Cons.prems(1) n by (intro Cons.IH) (simp_all only: p, simp_all)
  moreover have "unat (x - (?p + of_nat (8 * ?n))) \<ge> 8"
  proof -
    have "unat (of_nat (8 * ?n) :: u64) = 8 * ?n" using Cons.prems(1) by (intro unat_of_nat_u64) simp
    with n show ?thesis by (simp only: unat_sub_add_u64) simp
  qed
  then have "unat (x - (p_rsp s - 8)) \<ge> 8" by (simp add: algebra_simps)
  then have "ram (push v s) x = ram s x" by (simp add: push_def store64_def store_le_out)
  ultimately show ?case by simp
qed simp

lemma fold_push_rest:
  "gpr (fold push vs s) = gpr s" "p_rip (fold push vs s) = p_rip s" "p_cs (fold push vs s) = p_cs s"
  "p_rflags (fold push vs s) = p_rflags s" "p_ss (fold push vs s) = p_ss s"
  by (induction vs arbitrary: s) (simp_all add: push_def)

lemma fold_push_regs: "fold (\<lambda>r s. push (gpr s r) s) rs s = fold push (map (gpr s) rs) s"
proof (induction rs arbitrary: s)
  case (Cons r rs)
  have "gpr (push v s) = gpr s" for v by (simp add: push_def)
  with Cons show ?case by simp
qed simp

lemma fold_pop_rest:
  "ram (fold pop_reg rs s) = ram s" "p_rsp (fold pop_reg rs s) = p_rsp s + of_nat (8 * length rs)"
  "p_rip (fold pop_reg rs s) = p_rip s" "p_cs (fold pop_reg rs s) = p_cs s"
  "p_rflags (fold pop_reg rs s) = p_rflags s" "p_ss (fold pop_reg rs s) = p_ss s"
  "r \<notin> set rs \<Longrightarrow> gpr (fold pop_reg rs s) r = gpr s r"
  by (induction rs arbitrary: s) (simp_all add: pop_reg_def algebra_simps)

lemma fold_pop_reg:
  "distinct rs \<Longrightarrow> i < length rs \<Longrightarrow> gpr (fold pop_reg rs s) (rs ! i) = word_at (ram s) (p_rsp s) i"
proof (induction rs arbitrary: i s)
  case (Cons r rs)
  show ?case
  proof (cases i)
    case 0
    with Cons.prems show ?thesis by (simp add: fold_pop_rest) (simp add: pop_reg_def word_at_def)
  next
    case (Suc j)
    with Cons.IH [of j "pop_reg r s"] Cons.prems show ?thesis
      by (simp add: pop_reg_def word_at_def algebra_simps)
  qed
qed simp

section \<open>Entry and return\<close>

text \<open>The words pushed from the aligned stack up to the call of the handler.\<close>

definition pushed :: "processor \<Rightarrow> nat \<Rightarrow> u64 option \<Rightarrow> u64 list" where
  "pushed s v err = [p_ss s, p_rsp s, p_rflags s, p_cs s, p_rip s, (case err of None \<Rightarrow> 0 | Some e \<Rightarrow> e), of_nat v]
     @ map (gpr s) saved_regs"

definition frame_ptr :: "processor \<Rightarrow> u64" where
  "frame_ptr s = (p_rsp s AND NOT 0xF) - 176"

definition entry_state :: "nat \<Rightarrow> u64 option \<Rightarrow> processor \<Rightarrow> processor" where
  "entry_state v err s = fold push (pushed s v err) (s\<lparr>p_rsp := p_rsp s AND NOT 0xF\<rparr>)"

text \<open>The processor pushes an error code exactly for the vectors whose stub expects one.\<close>

definition err_matches :: "nat \<Rightarrow> u64 option \<Rightarrow> bool" where
  "err_matches v err \<longleftrightarrow> (err \<noteq> None \<longleftrightarrow> v \<in> set isr_error_vectors)"

lemma stub_entry:
  assumes "err_matches v err"
  shows "fold (\<lambda>r s. push (gpr s r) s) saved_regs (isr_stub v (cpu_interrupt err s)) = entry_state v err s"
proof -
  have "gpr (push w u) = gpr u" for w u by (simp add: push_def)
  then have "isr_stub v (cpu_interrupt err s) = fold push [p_ss s, p_rsp s, p_rflags s, p_cs s, p_rip s,
      (case err of None \<Rightarrow> 0 | Some e \<Rightarrow> e), of_nat v] (s\<lparr>p_rsp := p_rsp s AND NOT 0xF\<rparr>)"
    using assms by (cases err) (simp_all add: err_matches_def isr_stub_def cpu_interrupt_def Let_def)
  then show ?thesis unfolding fold_push_regs entry_state_def pushed_def fold_append o_apply
    by (simp only: fold_push_rest) simp
qed

lemma pushed_length: "length (pushed s v err) = 22"
  by (simp add: pushed_def saved_regs_def)

lemma entry_rsp: "p_rsp (entry_state v err s) = frame_ptr s"
  by (simp add: entry_state_def fold_push_rsp pushed_length frame_ptr_def)

lemma entry_words: "i < 22 \<Longrightarrow> word_at (ram (entry_state v err s)) (frame_ptr s) i = rev (pushed s v err) ! i"
  using fold_push_word [of "pushed s v err" i "s\<lparr>p_rsp := p_rsp s AND NOT 0xF\<rparr>"]
  by (simp add: entry_state_def pushed_length frame_ptr_def)

lemma entry_frame: "read_registers (ram (entry_state v err s)) (frame_ptr s) = frame_of s v err"
  unfolding read_registers_def frame_of_def by (simp add: entry_words pushed_def saved_regs_def)

lemma entry_outside: "176 \<le> unat (x - frame_ptr s) \<Longrightarrow> ram (entry_state v err s) x = ram s x"
  using fold_push_frame [of "pushed s v err" x "s\<lparr>p_rsp := p_rsp s AND NOT 0xF\<rparr>"]
  by (simp add: entry_state_def pushed_length frame_ptr_def)

text \<open>The general registers a frame holds.\<close>

definition regs_of :: "Registers \<Rightarrow> reg \<Rightarrow> u64" where
  "regs_of r x = (case x of RAX \<Rightarrow> rax r | RBX \<Rightarrow> rbx r | RCX \<Rightarrow> rcx r | RDX \<Rightarrow> rdx r | RSI \<Rightarrow> rsi r | RDI \<Rightarrow> rdi r
     | RBP \<Rightarrow> rbp r | R8 \<Rightarrow> r8 r | R9 \<Rightarrow> r9 r | R10 \<Rightarrow> r10 r | R11 \<Rightarrow> r11 r | R12 \<Rightarrow> r12 r | R13 \<Rightarrow> r13 r
     | R14 \<Rightarrow> r14 r | R15 \<Rightarrow> r15 r)"

lemma restore_regs: "gpr (fold pop_reg restored_regs s) x = regs_of (read_registers (ram s) (p_rsp s)) x"
proof -
  have "gpr (fold pop_reg restored_regs s) (restored_regs ! i) = word_at (ram s) (p_rsp s) i" if "i < 15" for i
    using that by (intro fold_pop_reg) (simp_all add: restored_regs_def)
  from this [of 0] this [of 1] this [of 2] this [of 3] this [of 4] this [of 5] this [of 6] this [of 7] this [of 8]
    this [of 9] this [of 10] this [of 11] this [of 12] this [of 13] this [of 14]
  show ?thesis by (cases x) (simp_all add: restored_regs_def regs_of_def read_registers_def del: fold_simps)
qed

text \<open>The processor continues with what the frame holds when the handler returns.\<close>

lemma interrupt_result:
  fixes h :: "u64 \<Rightarrow> memory \<Rightarrow> memory" and s :: processor
  assumes "err_matches v err"
  defines "m \<equiv> h (frame_ptr s) (ram (entry_state v err s))"
  shows "interrupt h clobber v err s =
    \<lparr>gpr = regs_of (read_registers m (frame_ptr s)), p_rsp = rsp (read_registers m (frame_ptr s)),
     p_rip = rip (read_registers m (frame_ptr s)), p_cs = cs (read_registers m (frame_ptr s)),
     p_rflags = rflags (read_registers m (frame_ptr s)), p_ss = ss (read_registers m (frame_ptr s)), ram = m\<rparr>"
proof -
  let ?c = "call_handler h clobber (entry_state v err s)"
  have c: "ram ?c = m" "p_rsp ?c = frame_ptr s" by (simp_all add: call_handler_def Let_def entry_rsp m_def)
  let ?q = "fold pop_reg restored_regs ?c"
  have q: "ram ?q = m" "p_rsp ?q = frame_ptr s + 120" "gpr ?q = regs_of (read_registers m (frame_ptr s))"
    by (simp_all add: fold_pop_rest c fun_eq_iff restore_regs) (simp add: restored_regs_def)
  have "interrupt h clobber v err s = iretq (?q\<lparr>p_rsp := p_rsp ?q + 16\<rparr>)"
    unfolding interrupt_def isr_common_def Let_def stub_entry [OF assms(1)] ..
  also have "\<dots> = \<lparr>gpr = gpr ?q, p_rsp = load64 (ram ?q) (p_rsp ?q + 16 + 24), p_rip = load64 (ram ?q) (p_rsp ?q + 16),
      p_cs = load64 (ram ?q) (p_rsp ?q + 16 + 8), p_rflags = load64 (ram ?q) (p_rsp ?q + 16 + 16),
      p_ss = load64 (ram ?q) (p_rsp ?q + 16 + 32), ram = ram ?q\<rparr>"
    by (simp add: iretq_def)
  finally show ?thesis unfolding q by (simp add: read_registers_def word_at_def add.assoc)
qed

lemma regs_of_frame: "regs_of (frame_of s v err) = gpr s"
  by (rule ext) (auto simp: regs_of_def frame_of_def split: reg.split)

end
