(* ===== verification/Isr.thy ===== *)
theory Isr
  imports Isr_Stubs Klog
begin

text \<open>
  Interrupt dispatch of \<open>src/src/cpu/isr.c\<close>: the table of registered handlers and \<open>isr_handler\<close>,
  which calls the handler of the vector, warns about an interrupt nobody handles, and dumps the
  registers and panics on an exception nobody handles.
\<close>

section \<open>State and operations\<close>

definition exceptions :: "string list" where
  "exceptions =
    [''Divide by zero error'',
     ''Debug'',
     ''Non-maskable Interrupt'',
     ''Breakpoint'',
     ''Overflow'',
     ''Bound Range Exceeded'',
     ''Invalid Opcode'',
     ''Device Not Available'',
     ''Double Fault'',
     ''Coprocessor Segment Overrun'',
     ''Invalid TSS'',
     ''Segment Not Present'',
     ''Stack-Segment Fault'',
     ''General Protection Fault'',
     ''Page Fault'',
     '''',
     ''x87 Floating-Point Exception'',
     ''Alignment Check'',
     ''Machine Check'',
     ''SIMD Floating-Point Exception'',
     ''Virtualization Exception'',
     ''Control Protection Exception '',
     '''',
     '''',
     '''',
     '''',
     '''',
     '''',
     ''Hypervisor Injection Exception'',
     ''VMM Communication Exception'',
     ''Security Exception'',
     '''']"

text \<open>
  A handler is a function pointer; calling it with the frame pointer is \<open>call\<close>, which may change the
  console and memory. The result of an interrupt: the handler returns, or the kernel has stopped.
\<close>

type_synonym 'h handler_call = "'h \<Rightarrow> u64 \<Rightarrow> klog_state \<Rightarrow> memory \<Rightarrow> (klog_state \<times> memory) option"

datatype isr_result = Returned klog_state memory | Stopped klog_state memory

definition isr_register_handler :: "u8 \<Rightarrow> 'h option \<Rightarrow> 'h option list \<Rightarrow> 'h option list" where
  "isr_register_handler isr handler handlers = handlers[unat isr := handler]"

definition log_then_return :: "memory \<Rightarrow> klog_state klog_result option \<Rightarrow> isr_result option" where
  "log_then_return m r = map_option (\<lambda>x. case x of Logged s \<Rightarrow> Returned s m | Panicked s m' \<Rightarrow> Stopped s m') r"

text \<open>The calls of \<open>kprintf\<close> that dump the registers, in order.\<close>

definition dump_calls :: "Registers \<Rightarrow> u64 \<Rightarrow> (string \<times> vararg list) list" where
  "dump_calls regs cr2 =
    [(nl @ ''--- EXCEPTION: %s (vector=0x%llx) ---'' @ nl,
        [VStr (exceptions ! unat (interrupt_num regs)), VInt (interrupt_num regs)]),
     (''RIP=0x%016llx  RSP=0x%016llx  RBP=0x%016llx'' @ nl, [VInt (rip regs), VInt (rsp regs), VInt (rbp regs)]),
     (''RAX=0x%016llx  RBX=0x%016llx  RCX=0x%016llx  RDX=0x%016llx'' @ nl,
        [VInt (rax regs), VInt (rbx regs), VInt (rcx regs), VInt (rdx regs)]),
     (''RSI=0x%016llx  RDI=0x%016llx'' @ nl, [VInt (rsi regs), VInt (rdi regs)]),
     (''R8 =0x%016llx  R9 =0x%016llx  R10=0x%016llx  R11=0x%016llx'' @ nl,
        [VInt (r8 regs), VInt (r9 regs), VInt (r10 regs), VInt (r11 regs)]),
     (''R12=0x%016llx  R13=0x%016llx  R14=0x%016llx  R15=0x%016llx'' @ nl,
        [VInt (r12 regs), VInt (r13 regs), VInt (r14 regs), VInt (r15 regs)]),
     (''CS =0x%04llx  SS =0x%04llx  RFLAGS=0x%016llx'' @ nl, [VInt (cs regs), VInt (ss regs), VInt (rflags regs)]),
     (''CR2=0x%016llx  ERR=0x%016llx'' @ nl, [VInt cr2, VInt (error_code regs)])]"

fun kprintf_calls :: "device \<Rightarrow> (string \<times> vararg list) list \<Rightarrow> klog_state \<Rightarrow> klog_state option" where
  "kprintf_calls dev [] s = Some s"
| "kprintf_calls dev ((format, va) # calls) s = Option.bind (console_kprintf dev format va s) (kprintf_calls dev calls)"

text \<open>
  \<open>int_num\<close> is the low byte of the vector, but the name of the exception is looked up by the whole
  64-bit vector, which has no defined result outside the 32 names. \<open>regs->interrupt_num\<close> is read again
  after the handler has run.
\<close>

definition isr_handler ::
    "'h handler_call \<Rightarrow> device \<Rightarrow> u64 \<Rightarrow> u64 \<Rightarrow> 'h option list \<Rightarrow> u64 \<Rightarrow> klog_state \<Rightarrow> memory \<Rightarrow> isr_result option" where
  "isr_handler call dev cur_rbp cr2 isr_handlers p s m =
     (let regs = read_registers m p; int_num = ucast (interrupt_num regs) :: u8 in
      case isr_handlers ! unat int_num of
        Some h \<Rightarrow>
          Option.bind (call h p s m) (\<lambda>(s1, m1).
            log_then_return m1 (klogf dev cur_rbp klog_level_debug ''interrupt received %llu''
              [VInt (interrupt_num (read_registers m1 p))] s1 m1))
      | None \<Rightarrow>
          if int_num \<ge> 0x20 then
            log_then_return m (klogf dev cur_rbp klog_level_warn ''Unhandled Interrupt: %d'' [VInt (ucast int_num)] s m)
          else if unat (interrupt_num regs) \<ge> length exceptions then None
          else
            Option.bind (kprintf_calls dev (dump_calls regs cr2) s) (\<lambda>s1.
              log_then_return m (klogf dev cur_rbp klog_level_panic ''unhandled exception'' [] s1 m)))"

section \<open>The text of the dump\<close>

definition reg_text :: "string \<Rightarrow> u64 \<Rightarrow> string" where
  "reg_text name v = name @ ''=0x'' @ hex16 0x301 v"

definition dump_lines :: "Registers \<Rightarrow> u64 \<Rightarrow> string list" where
  "dump_lines regs cr2 =
    [nl @ ''--- EXCEPTION: '' @ exceptions ! unat (interrupt_num regs) @ '' (vector=0x'' @ hex_text (interrupt_num regs) @ '') ---'' @ nl,
     reg_text ''RIP'' (rip regs) @ ''  '' @ reg_text ''RSP'' (rsp regs) @ ''  '' @ reg_text ''RBP'' (rbp regs) @ nl,
     reg_text ''RAX'' (rax regs) @ ''  '' @ reg_text ''RBX'' (rbx regs) @ ''  '' @ reg_text ''RCX'' (rcx regs) @ ''  '' @ reg_text ''RDX'' (rdx regs) @ nl,
     reg_text ''RSI'' (rsi regs) @ ''  '' @ reg_text ''RDI'' (rdi regs) @ nl,
     reg_text ''R8 '' (r8 regs) @ ''  '' @ reg_text ''R9 '' (r9 regs) @ ''  '' @ reg_text ''R10'' (r10 regs) @ ''  '' @ reg_text ''R11'' (r11 regs) @ nl,
     reg_text ''R12'' (r12 regs) @ ''  '' @ reg_text ''R13'' (r13 regs) @ ''  '' @ reg_text ''R14'' (r14 regs) @ ''  '' @ reg_text ''R15'' (r15 regs) @ nl,
     ''CS =0x'' @ hex4_text (cs regs) @ ''  SS =0x'' @ hex4_text (ss regs) @ ''  '' @ reg_text ''RFLAGS'' (rflags regs) @ nl,
     reg_text ''CR2'' cr2 @ ''  '' @ reg_text ''ERR'' (error_code regs) @ nl]"

lemma exception_length: "i < 32 \<Longrightarrow> length (exceptions ! i) < 4294967296"
proof -
  assume "i < 32"
  then have "exceptions ! i \<in> set exceptions" by (intro nth_mem) (simp add: exceptions_def)
  moreover have "\<forall>e\<in>set exceptions. length e < 100" by (simp add: exceptions_def)
  ultimately show ?thesis by fastforce
qed

lemma dump_renders:
  assumes "unat (interrupt_num regs) < 32"
  shows "list_all2 (\<lambda>call cs. render (fst call) (snd call) = Some cs) (dump_calls regs cr2) (dump_lines regs cr2)"
  unfolding dump_calls_def dump_lines_def list_all2_Cons list_all2_Nil fst_conv snd_conv
  by (intro conjI TrueI) (simp_all add: directive_texts exception_length [OF assms] reg_text_def)

lemma kprintf_calls_prints:
  "list_all2 (\<lambda>call cs. render (fst call) (snd call) = Some cs) calls texts \<Longrightarrow> console_ok dev s \<Longrightarrow>
    prints dev (concat texts) s (kprintf_calls dev calls s)"
proof (induction calls texts arbitrary: s rule: list_all2_induct)
  case Nil
  then show ?case by (simp add: prints_Some)
next
  case (Cons call calls t ts)
  then show ?case by (cases call) (auto intro!: prints_bind prints_kprintf)
qed

lemma klog_ready_quiet: "klog_ready dev (quiet s) = klog_ready dev s"
  by (simp add: klog_ready_def serial_ok_def quiet_def)

lemma framebuffer_quiet: "framebuffer (quiet s) = framebuffer s"
  by (simp add: quiet_def)

text \<open>An exception without a handler.\<close>

lemma isr_unhandled_exception:
  fixes m :: memory
  assumes ready: "klog_ready dev s" "console_ok dev s" and n: "interrupt_num (read_registers m p) = of_nat v" "v < 32"
    and none: "handlers ! v = None"
  defines "m1 \<equiv> fb_clear_screen panic_color (framebuffer s) m"
  shows "\<exists>s'. isr_handler call dev cur_rbp cr2 handlers p s m = Some (Stopped s' m1) \<and> \<not> interrupts s'
    \<and> line s' = line s @ visible (concat (dump_lines (read_registers m p) cr2)) @ visible (panic_text m1 cur_rbp ''unhandled exception'')"
proof -
  let ?regs = "read_registers m p"
  have v: "unat (of_nat v :: u64) = v" "unat (ucast (of_nat v :: u64) :: u8) = v" "\<not> (0x20 :: u8) \<le> ucast (of_nat v :: u64)"
    using n(2) by (simp_all add: unat_of_nat_u64 word_le_nat_alt unat_of_nat unsigned_ucast_eq take_bit_nat_eq_self)
  have len: "length exceptions = 32" by (simp add: exceptions_def)
  from kprintf_calls_prints [OF dump_renders ready(2), of ?regs cr2] obtain s1 where
    s1: "kprintf_calls dev (dump_calls ?regs cr2) s = Some s1" "line s1 = line s @ visible (concat (dump_lines ?regs cr2))" "quiet s1 = quiet s"
    using n v by (auto simp: prints_def)
  have "klog_ready dev s1" using ready(1) s1(3) by (metis klog_ready_quiet)
  moreover have "render ''unhandled exception'' [] = Some ''unhandled exception''" by simp
  moreover have "framebuffer s1 = framebuffer s" using s1(3) by (metis framebuffer_quiet)
  ultimately obtain s2 where "klogf dev cur_rbp klog_level_panic ''unhandled exception'' [] s1 m = Some (Panicked s2 m1)"
      "line s2 = line s1 @ visible (panic_text m1 cur_rbp ''unhandled exception'')" "\<not> interrupts s2"
    using klogf_panic [of dev s1 "''unhandled exception''" "[]" "''unhandled exception''" cur_rbp m] unfolding m1_def by auto
  with s1 none n v len show ?thesis by (simp add: isr_handler_def Let_def log_then_return_def)
qed

end
