(* ===== verification/Cpu_Properties.thy ===== *)
theory Cpu_Properties
  imports Idt Isr Console_Properties
begin

text \<open>The properties of the descriptor tables and of interrupt handling.\<close>

section \<open>Descriptor tables\<close>

text \<open>C33: \<open>gdt_init\<close> returns with the table loaded; the five descriptors have base 0 and the access
  bytes and flags of the null, kernel code, kernel data, user code and user data segments, the code
  segment register selects the 64-bit kernel code segment and all data segment registers the kernel
  data segment.\<close>

theorem gdt_init_correct:
  assumes "length (gdt s) = 5"
  shows "\<exists>s'. gdt_init table s = Some s' \<and> gdtr s' = \<lparr>gdt_size = 39, gdt_address = table\<rparr>
    \<and> map (\<lambda>e. (seg_base (entry_word e), seg_limit (entry_word e), seg_access (entry_word e), seg_flags (entry_word e))) (gdt s')
      = [(0, 0, 0, 0), (0, 0xFFFFF, 0x9A, 0xA), (0, 0xFFFFF, 0x92, 0xC), (0, 0xFFFFF, 0xFA, 0xA), (0, 0xFFFFF, 0xF2, 0xC)]
    \<and> code_seg s' = 8 * 1 \<and> set (data_segs s') = {8 * 2}"
proof -
  have "map (\<lambda>e. (seg_base (entry_word e), seg_limit (entry_word e), seg_access (entry_word e), seg_flags (entry_word e))) kernel_gdt
      = [(0, 0, 0, 0), (0, 0xFFFFF, 0x9A, 0xA), (0, 0xFFFFF, 0x92, 0xC), (0, 0xFFFFF, 0xFA, 0xA), (0, 0xFFFFF, 0xF2, 0xC)]"
    by (simp add: kernel_gdt_def packed_base packed_limit packed_access packed_flags take_bit_eq_mod drop_bit_eq_div)
  with gdt_init_eq [of s table] assms show ?thesis by (simp add: GDT_ENTRIES_COUNT_def)
qed

definition boot_gdt :: gdt_state where
  "boot_gdt = \<lparr>gdt = replicate 5 \<lparr>limit_low = 0, base_low = 0, base_middle = 0, access_byte = 0, granularity = 0, base_high = 0\<rparr>,
     gdt_ptr = \<lparr>gdt_size = 0, gdt_address = 0\<rparr>, gdtr = \<lparr>gdt_size = 0, gdt_address = 0\<rparr>, code_seg = 0, data_segs = [], gdt_log = []\<rparr>"

theorem gdt_init_correct_witness:
  "\<exists>s'. gdt_init 0xFFFFFFFF80001000 boot_gdt = Some s' \<and> code_seg s' = 8 \<and> seg_access (entry_word (gdt s' ! 1)) = 0x9A"
proof -
  from gdt_init_correct [of boot_gdt "0xFFFFFFFF80001000"] obtain s' where
    s': "gdt_init 0xFFFFFFFF80001000 boot_gdt = Some s'" "code_seg s' = 8"
      "map (\<lambda>e. (seg_base (entry_word e), seg_limit (entry_word e), seg_access (entry_word e), seg_flags (entry_word e))) (gdt s')
        = [(0, 0, 0, 0), (0, 0xFFFFF, 0x9A, 0xA), (0, 0xFFFFF, 0x92, 0xC), (0, 0xFFFFF, 0xFA, 0xA), (0, 0xFFFFF, 0xF2, 0xC)]"
    by (auto simp: boot_gdt_def)
  from s'(3) have "seg_access (entry_word (gdt s' ! 1)) = 0x9A" by (auto simp: map_eq_Cons_conv)
  with s' show ?thesis by blast
qed

text \<open>C9: after \<open>idt_init\<close> the table register points to all 256 gates, and every gate leads to the entry
  stub of its own vector, as a present 64-bit interrupt gate of ring 0 in the kernel code segment of
  the descriptor table, without an interrupt stack.\<close>

theorem idt_init_correct:
  assumes "length (gdt g) = 5" and "gdt_init gtable g = Some g'"
  shows "idtr (idt_init isr table s) = \<lparr>idt_size = 16 * 256 - 1, idt_address = table\<rparr>
    \<and> (\<forall>v<256. gate_view (idt_init isr table s) v = Some (isr v, code_seg g', 0x8E, 0, 0)
      \<and> seg_access (entry_word (gdt g' ! (unat (code_seg g') div 8))) = 0x9A)"
proof -
  from assms have "g' = g\<lparr>gdt := kernel_gdt, gdt_ptr := \<lparr>gdt_size = 39, gdt_address = gtable\<rparr>,
      gdtr := \<lparr>gdt_size = 39, gdt_address = gtable\<rparr>, code_seg := 0x8, data_segs := replicate 5 0x10,
      gdt_log := gdt_log g @ [(klog_level_debug, ''GDT address: 0x%llx  size: %u'', [gtable, 39])]\<rparr>"
    by (simp add: gdt_init_eq GDT_ENTRIES_COUNT_def)
  then have "code_seg g' = 8" "seg_access (entry_word (gdt g' ! 1)) = 0x9A" by (simp_all add: kernel_gdt_def packed_access)
  then show ?thesis using idt_init_gate idt_init_idtr by simp
qed

theorem idt_init_correct_witness:
  "\<exists>g'. gdt_init 0x1000 boot_gdt = Some g' \<and>
    gate_view (idt_init (\<lambda>v. 0xFFFFFFFF80000000 + 16 * of_nat v) 0x2000
      \<lparr>idt = [], idtPtr = \<lparr>idt_size = 0, idt_address = 0\<rparr>, idtr = \<lparr>idt_size = 0, idt_address = 0\<rparr>\<rparr>) 14
      = Some (0xFFFFFFFF800000E0, code_seg g', 0x8E, 0, 0)"
proof -
  have len: "length (gdt boot_gdt) = 5" by (simp add: boot_gdt_def)
  obtain g' where g': "gdt_init 0x1000 boot_gdt = Some g'" using gdt_init_eq [of boot_gdt] len by (simp add: GDT_ENTRIES_COUNT_def)
  with idt_init_correct [OF len g', of "\<lambda>v. 0xFFFFFFFF80000000 + 16 * of_nat v" "0x2000"
      "\<lparr>idt = [], idtPtr = \<lparr>idt_size = 0, idt_address = 0\<rparr>, idtr = \<lparr>idt_size = 0, idt_address = 0\<rparr>\<rparr>"]
  show ?thesis by auto
qed

section \<open>Interrupts\<close>


definition ex_processor :: processor where
  "ex_processor = \<lparr>gpr = (\<lambda>r. if r = RAX then 7 else 9), p_rsp = 0x8008, p_rip = 0x4000, p_cs = 8, p_rflags = 0x202, p_ss = 0x10, ram = (\<lambda>_. 0)\<rparr>"


section \<open>Dispatch\<close>

text \<open>A vector with a registered handler runs exactly that handler on the frame, then logs the
  vector at debug level; an interrupt without a handler is logged as a warning and nothing else
  happens.\<close>

theorem isr_dispatch:
  assumes "interrupt_num (read_registers m p) = of_nat v" and "v < 256" and "length handlers = 256"
  shows "isr_handler call dev cur_rbp cr2 (isr_register_handler (of_nat v) (Some h) handlers) p s m =
      Option.bind (call h p s m) (\<lambda>(s1, m1). log_then_return m1 (klogf dev cur_rbp klog_level_debug
        ''interrupt received %llu'' [VInt (interrupt_num (read_registers m1 p))] s1 m1))
    \<and> (32 \<le> v \<longrightarrow> isr_handler call dev cur_rbp cr2 (isr_register_handler (of_nat v) None handlers) p s m =
      log_then_return m (klogf dev cur_rbp klog_level_warn ''Unhandled Interrupt: %d'' [VInt (of_nat v)] s m))"
proof -
  have v: "unat (of_nat v :: u8) = v" "ucast (of_nat v :: u64) = (of_nat v :: u8)" "ucast (of_nat v :: u8) = (of_nat v :: u64)"
    using assms(2) by (simp_all add: unat_of_nat unsigned_of_nat take_bit_nat_eq_self)
  moreover have "32 \<le> v \<longleftrightarrow> (0x20 :: u8) \<le> of_nat v" using v(1) by (simp add: word_le_nat_alt)
  ultimately show ?thesis using assms by (simp add: isr_handler_def isr_register_handler_def Let_def)
qed

theorem isr_dispatch_witness:
  "isr_handler (\<lambda>h p s m. Some (s, m)) ex_uart 0 0 (isr_register_handler 0x21 (Some ()) (replicate 256 None)) 0x1000
      boot_console (\<lambda>a. if a = 0x1078 then 0x21 else 0) = Some (Returned boot_console (\<lambda>a. if a = 0x1078 then 0x21 else 0))"
proof -
  let ?m = "\<lambda>a :: u64. if a = 0x1078 then 0x21 else 0 :: u8"
  have eight: "(8 :: nat) = Suc (Suc (Suc (Suc (Suc (Suc (Suc (Suc 0)))))))" by simp
  have "interrupt_num (read_registers ?m 0x1000) = of_nat 0x21"
    unfolding read_registers_def word_at_def load64_def eight load_le.simps by simp
  from isr_dispatch [OF this, of "replicate 256 None" "\<lambda>h p s m. Some (s, m)" ex_uart 0 0 "()" boot_console]
  show ?thesis by (simp add: klogf_def log_then_return_def boot_console_def less_klog_level_def level_num_def)
qed



end
