(* ===== verification/Boot_Memory.thy ===== *)
theory Boot_Memory
  imports Paging_Init
begin

text \<open>
  How the parts of memory management fit together at the start (\<open>memory_init\<close> of
  \<open>src/src/kernel_entry.c\<close>): what \<open>pmm_init\<close> leaves is what \<open>paging_init\<close> starts from, and memory that
  the frame allocator does not manage, such as that of the screen, is written without harm.
\<close>

section \<open>From the memory map to the first address space\<close>

definition init_bitmap_frames :: "limine_memmap_entry list \<Rightarrow> nat" where
  "init_bitmap_frames memmap = (unat (init_bitmap_size memmap) + 4095) div 4096"

text \<open>The bitmap lies in managed frames.\<close>

definition bitmap_tracked :: "'a mm_state_scheme \<Rightarrow> bool" where
  "bitmap_tracked s \<longleftrightarrow> bitmap_frames s \<subseteq> {..<unat (total_frames s)}"

lemma bitmap_region:
  assumes ok: "memmap_ok memmap" and "bitmap_region_exists memmap"
  defines "b \<equiv> find_bitmap_region (init_bitmap_size memmap) memmap"
  shows "IS_PAGE_ALIGNED b" and "unat b \<le> 2 ^ 52"
    and "frame_of b + init_bitmap_frames memmap \<le> unat (init_total_frames memmap)"
proof -
  have "b \<noteq> 0" using assms(2) find_bitmap_region_finds [OF ok] by (auto simp: b_def bitmap_region_exists_def list_ex_iff)
  then obtain e where e: "e \<in> set memmap" "is_usable e" "init_bitmap_size memmap \<le> entry_length e" "entry_base e = b"
    unfolding b_def using find_bitmap_region_found by blast
  note d = memmap_okD [OF ok e(1)]
  show "IS_PAGE_ALIGNED b" "unat b \<le> 2 ^ 52" using d(2,3) e by auto
  obtain l where l: "unat (entry_length e) = 4096 * l" using d(4) e(2) by (auto simp: page_aligned_iff elim!: dvdE)
  have "init_bitmap_frames memmap \<le> (4096 * l + 4095) div 4096"
    unfolding init_bitmap_frames_def using e(3) l by (intro div_le_mono) (simp add: word_le_nat_alt)
  then have "init_bitmap_frames memmap \<le> unat (entry_length e) div 4096" by (simp add: l)
  then show "frame_of b + init_bitmap_frames memmap \<le> unat (init_total_frames memmap)"
    using init_total_frames_bounds(2) [OF ok e(1,2)] e(4) by simp
qed

text \<open>
  What the start of the kernel needs: a memory map as the boot protocol promises it, ranges that are
  mapped apart from each other in the kernel half, and room for the bitmap, the root, the tables of the
  kernel half and those of the ranges.
\<close>

definition boot_ready :: "limine_memmap_entry list \<Rightarrow> range list \<Rightarrow> bool" where
  "boot_ready memmap rs \<longleftrightarrow> memmap_ok memmap \<and> bitmap_region_exists memmap
     \<and> list_all range_good rs \<and> ranges_apart rs
     \<and> init_bitmap_frames memmap + 257 + sum_list (map range_cost rs) \<le> card (usable_frames memmap)"

lemma ranges_apart_append:
  "ranges_apart (xs @ ys) \<longleftrightarrow> ranges_apart xs \<and> ranges_apart ys \<and> (\<forall>x\<in>set xs. \<forall>y\<in>set ys. range_apart x y)"
  by (induction xs) (auto simp: list_all_iff)

lemma pmm_init_ready:
  fixes s0 :: "'a vm_state_scheme"
  assumes ready: "boot_ready memmap (start_ranges pb vb seg hhdm (init_total_frames memmap) @ xs)"
    (is "boot_ready memmap (?rs @ xs)") and tlb: "local_tlb s0"
  shows "\<exists>t. pmm_init memmap hhdm s0 = Some (Inr ((), t)) \<and> init_ready pb vb seg t \<and> init_ranges pb vb seg t = ?rs
    \<and> bitmap_tracked t \<and> g_hhdm_offset t = hhdm \<and> total_frames t = init_total_frames memmap
    \<and> 257 + sum_list (map range_cost (?rs @ xs)) \<le> card (free_frames t)"
proof -
  from ready have ok: "memmap_ok memmap" "bitmap_region_exists memmap" by (simp_all add: boot_ready_def)
  from pmm_init_effect [OF this, of hhdm s0] obtain t where t: "pmm_init memmap hhdm s0 = Some (Inr ((), t))" "pmm_wf t"
    "g_hhdm_offset t = hhdm" "total_frames t = init_total_frames memmap" "bitmap_size t = init_bitmap_size memmap"
    "HHDM_VIRT_TO_PHYS t (bitmap_start t) = find_bitmap_region (init_bitmap_size memmap) memmap"
    "mm_state.more t = mm_state.more s0" "free_frames t = usable_frames memmap - bitmap_frames t" by blast
  note b = bitmap_region [OF ok, folded t(4,6)]
  let ?b = "frame_of (HHDM_VIRT_TO_PHYS t (bitmap_start t))"
  have frames: "bitmap_frames t = {?b..<?b + init_bitmap_frames memmap}"
    by (simp add: bitmap_frames_def Let_def init_bitmap_frames_def t(5))
  have rs: "init_ranges pb vb seg t = ?rs" using t(3,4) by (simp add: init_ranges_def)
  have "tlb t = tlb s0" using t(7) by (cases t, cases s0, simp)
  then have "local_tlb t" using tlb by (simp add: local_tlb_def)
  have "finite (usable_frames memmap)" by (simp add: usable_frames_def entry_frames_def)
  then have "card (usable_frames memmap) \<le> card (free_frames t) + init_bitmap_frames memmap"
    using diff_card_le_card_Diff [of "bitmap_frames t" "usable_frames memmap"] by (simp add: t(8) frames)
  then have room: "257 + sum_list (map range_cost (?rs @ xs)) \<le> card (free_frames t)"
    using ready by (simp add: boot_ready_def)
  moreover have "init_ready pb vb seg t"
    using ready room t(2,8) b(1,2) \<open>local_tlb t\<close> by (auto simp: init_ready_def rs boot_ready_def ranges_apart_append bitmap_ok_def Let_def)
  moreover have "bitmap_tracked t" using b(3) by (auto simp: bitmap_tracked_def frames)
  ultimately show ?thesis using t(1,3,4) rs by blast
qed

section \<open>Memory outside the managed frames\<close>

definition tracked_byte :: "'a mm_state_scheme \<Rightarrow> u64 \<Rightarrow> bool" where
  "tracked_byte s a \<longleftrightarrow> unat (a - g_hhdm_offset s) < 4096 * unat (total_frames s)"

lemma tracked_table:
  assumes "table_ok s t" and "n < 4096"
  shows "tracked_byte s (t + g_hhdm_offset s + of_nat n)"
proof -
  note t = table_okD [OF assms(1)]
  have "t + g_hhdm_offset s + of_nat n - g_hhdm_offset s = t + of_nat n" by simp
  moreover have "unat (t + of_nat n) = unat t + n" by (rule page_offset_unat [OF t(1) assms(2)])
  moreover have "unat t div 4096 < unat (total_frames s)" "4096 dvd unat t" using t(1,2) by (auto simp: frame_of_eq page_aligned_iff)
  ultimately show ?thesis using assms(2) by (auto simp: tracked_byte_def elim!: dvdE)
qed

lemma tracked_bitmap:
  assumes "pmm_wf s" and "bitmap_ok s" and "bitmap_tracked s" and "y < unat (bitmap_size s)"
  shows "tracked_byte s (bitmap_start s + of_nat y)"
proof -
  let ?b = "HHDM_VIRT_TO_PHYS s (bitmap_start s)"
  have b: "4096 dvd unat ?b" "unat ?b \<le> 2 ^ 52" using assms(2) by (auto simp: bitmap_ok_def Let_def page_aligned_iff)
  have "y < 2 ^ 52" using assms(4) pmm_wf_size_bound [OF assms(1)] by simp
  then have "unat (?b + of_nat y) = unat ?b + y" using b(2) by (simp add: unat_add_u64 unat_of_nat_u64)
  moreover have at: "bitmap_start s + of_nat y - g_hhdm_offset s = ?b + of_nat y" by (simp add: HHDM_VIRT_TO_PHYS_def)
  moreover have "frame_of ?b + y div 4096 \<in> bitmap_frames s" using assms(4) by (simp add: bitmap_frames_def Let_def)
  then have "unat ?b div 4096 + y div 4096 < unat (total_frames s)" using assms(3) by (auto simp: bitmap_tracked_def frame_of_eq)
  ultimately show ?thesis unfolding tracked_byte_def at using b(1) by (auto elim!: dvdE)
qed

lemma node_used: "r \<in> R \<Longrightarrow> node P r q = Some t \<Longrightarrow> path_ok q \<Longrightarrow> length q \<le> 3 \<Longrightarrow> t \<in> used_tables P R"
  by (auto simp: used_tables_def is_node_def)

text \<open>Two tables of entries that agree on the tables in use have the same nodes and leaves.\<close>

lemma agree_node:
  assumes "\<And>t i. t \<in> used_tables P R \<Longrightarrow> i < 512 \<Longrightarrow> P' t i = P t i" and "r \<in> R"
  shows "path_ok q \<Longrightarrow> length q \<le> 3 \<Longrightarrow> node P' r q = node P r q"
proof (induction q rule: rev_induct)
  case (snoc i q)
  then have eq: "node P' r q = node P r q" by simp
  have "P' t i = P t i" if "node P r q = Some t" for t
    by (rule assms(1) [OF node_used [OF assms(2) that]]) (use snoc.prems in auto)
  with eq show ?case by (simp add: node_snoc split: option.split)
qed simp

lemma untracked_write:
  assumes ok: "vm_ok (s, R)" and b: "bitmap_tracked s" and m: "\<And>a. tracked_byte s a \<Longrightarrow> m a = mem s a"
  shows "vm_ok (s\<lparr>mem := m\<rparr>, R)" and "r \<in> R \<Longrightarrow> page_entry (s\<lparr>mem := m\<rparr>) r w = page_entry s r w"
    and "free_frames (s\<lparr>mem := m\<rparr>) = free_frames s"
proof -
  let ?s = "s\<lparr>mem := m\<rparr>"
  note d = vm_okD [OF ok] and p = paging_invD [OF vm_okD(1) [OF ok]]
  have P: "ptes ?s t i = ptes s t i" if "t \<in> used_tables (ptes s) R" "i < 512" for t i
  proof -
    let ?a = "t + g_hhdm_offset s + of_nat (8 * i)"
    have "m (?a + of_nat k) = mem s (?a + of_nat k)" if "k < 8" for k
      using m [OF tracked_table [OF p(4), of t "8 * i + k"]] that \<open>i < 512\<close> \<open>t \<in> used_tables (ptes s) R\<close> by (simp add: add.assoc)
    then have "load_le 8 m ?a = (load_le 8 (mem s) ?a :: u64)" by (rule load_le_cong)
    then show ?thesis by (simp add: ptes_def entry_get_def load64_def HHDM_PHYS_TO_VIRT_def)
  qed
  have nodes: "node (ptes ?s) r q = node (ptes s) r q" if "r \<in> R" "path_ok q" "length q \<le> 3" for r q
    by (rule agree_node [of "ptes s" R, OF _ that]) (rule P)
  note n = same_nodes [of R "ptes ?s" "ptes s", OF nodes]
  have roots: "ptes ?s r i = ptes s r i" if "r \<in> R" "i < 512" for r i using P that roots_used by blast
  have entry: "page_entry ?s r w = page_entry s r w" if "r \<in> R" for r w
  proof (cases "node (ptes s) r (vpath w)")
    case (Some t)
    with that have "t \<in> used_tables (ptes s) R" by (rule node_used) simp_all
    with Some that P nodes show ?thesis by (simp add: page_entry_def leaf_def)
  qed (use that nodes in \<open>simp add: page_entry_def leaf_def\<close>)
  then show "r \<in> R \<Longrightarrow> page_entry ?s r w = page_entry s r w" by blast
  have "bitmap_byte ?s y = bitmap_byte s y" if "y < unat (bitmap_size s)" for y
    using m [OF tracked_bitmap [OF p(1,2) b that]] by (simp add: bitmap_byte_def)
  then have fa: "frame_allocated ?s f = frame_allocated s f" if "f < 8 * unat (bitmap_size s)" for f
    using that by (simp add: frame_allocated_def)
  have wf: "pmm_wf ?s" using p(1) fa by (auto simp: pmm_wf_def list_all_iff)
  have "unat (total_frames s) \<le> 8 * unat (bitmap_size s)" using p(1) by (simp add: pmm_wf_def)
  then show free: "free_frames ?s = free_frames s" using fa by (auto simp: free_frames_iff)
  have "bitmap_frames ?s = bitmap_frames s" by (simp add: bitmap_frames_def HHDM_VIRT_TO_PHYS_def)
  then have "bitmap_ok ?s" "table_ok ?s = table_ok s" using p(2) free by (simp_all add: fun_eq_iff bitmap_ok_def table_ok_def HHDM_VIRT_TO_PHYS_def)
  then have "paging_inv ?s R" using wf p(3) d(1) n by (simp add: paging_inv_def)
  moreover have "kernel_half_shared (ptes ?s) R"
    by (rule shared_cong [OF d(2)]) (simp add: roots)
  moreover have "kernel_entries_ok ?s R" using d(3) roots by (simp add: kernel_entries_ok_def)
  moreover have "tlb_ok ?s" using d(4,5) entry by (simp add: tlb_ok_def)
  moreover have "global_ok ?s R" using d(6) entry by (simp add: global_ok_def)
  ultimately show "vm_ok (?s, R)" using d(4) by (simp add: vm_ok_def)
qed

end
