(* ===== verification/Kernel_Entry.thy ===== *)
theory Kernel_Entry
  imports Paging Klog Idt
begin

text \<open>
  The start of the kernel (\<open>src/src/kernel_entry.c\<close>): the boot loader's requests and responses
  (\<open>src/src/limine.h\<close>), their validation, and the order in which \<open>kmain\<close> brings up the console, the
  descriptor tables, memory management and the screen. The responses, the link-time addresses and the
  serial device are parameters. The memory management code records its log calls; here they are
  delivered to the console in order, which is the same because the console does not use its state.
\<close>

section \<open>Requests and responses\<close>

record limine_framebuffer =
  lfb_address :: u64
  lfb_width :: u64
  lfb_height :: u64
  lfb_pitch :: u64
  lfb_bpp :: u16
  lfb_memory_model :: u8

record limine_framebuffer_response =
  framebuffer_count :: u64
  framebuffers :: "limine_framebuffer list"

record limine_memmap_response =
  entries :: "limine_memmap_entry list"

record limine_hhdm_response =
  offset :: u64

record limine_executable_address_response =
  physical_base :: u64
  virtual_base :: u64

definition LIMINE_COMMON_MAGIC :: "u64 list" where
  "LIMINE_COMMON_MAGIC = [0xc7b1dd30df4c8b88, 0x0a82e883a194f07b]"

definition LIMINE_FRAMEBUFFER_REQUEST_ID :: "u64 list" where
  "LIMINE_FRAMEBUFFER_REQUEST_ID = LIMINE_COMMON_MAGIC @ [0x9d5827dcd881dd75, 0xa3148604f6fab11b]"

definition LIMINE_MEMMAP_REQUEST_ID :: "u64 list" where
  "LIMINE_MEMMAP_REQUEST_ID = LIMINE_COMMON_MAGIC @ [0x67cf3d9d378a806f, 0xe304acdfc50c3c62]"

definition LIMINE_HHDM_REQUEST_ID :: "u64 list" where
  "LIMINE_HHDM_REQUEST_ID = LIMINE_COMMON_MAGIC @ [0x48dcf1cb8ad2b852, 0x63984e959a98244b]"

definition LIMINE_EXECUTABLE_ADDRESS_REQUEST_ID :: "u64 list" where
  "LIMINE_EXECUTABLE_ADDRESS_REQUEST_ID = LIMINE_COMMON_MAGIC @ [0x71ba76863cc55f63, 0xb2644a48c516a487]"

definition LIMINE_BASE_REVISION :: "u64 \<Rightarrow> u64 list" where
  "LIMINE_BASE_REVISION n = [0xf9562b2d5c95a6c8, 0x6a7b384944536bdc, n]"

definition LIMINE_BASE_REVISION_SUPPORTED :: "u64 list \<Rightarrow> bool" where
  "LIMINE_BASE_REVISION_SUPPORTED var \<longleftrightarrow> var ! 2 = 0"

text \<open>A request structure: identifier, revision and the response, \<open>None\<close> for the null pointer.\<close>

record 'r limine_request =
  request_id :: "u64 list"
  revision :: u64
  response :: "'r option"

record limine_requests =
  limine_base_revision :: "u64 list"
  fb_request :: "limine_framebuffer_response limine_request"
  memmap_request :: "limine_memmap_response limine_request"
  hhdm_request :: "limine_hhdm_response limine_request"
  address_request :: "limine_executable_address_response limine_request"

text \<open>The requests as they are in the executable, before the boot loader has answered.\<close>

definition initial_requests :: limine_requests where
  "initial_requests =
     \<lparr>limine_base_revision = LIMINE_BASE_REVISION 5,
      fb_request = \<lparr>request_id = LIMINE_FRAMEBUFFER_REQUEST_ID, revision = 0, response = None\<rparr>,
      memmap_request = \<lparr>request_id = LIMINE_MEMMAP_REQUEST_ID, revision = 0, response = None\<rparr>,
      hhdm_request = \<lparr>request_id = LIMINE_HHDM_REQUEST_ID, revision = 0, response = None\<rparr>,
      address_request = \<lparr>request_id = LIMINE_EXECUTABLE_ADDRESS_REQUEST_ID, revision = 0, response = None\<rparr>\<rparr>"

text \<open>The addresses the linker script defines, and those of the static tables and the entry stubs.\<close>

record link_symbols =
  bss_start :: u64
  bss_end :: u64
  LIMINE_BEGIN :: u64
  LIMINE_END :: u64
  TEXT_BEGIN :: u64
  TEXT_END :: u64
  RODATA_BEGIN :: u64
  RODATA_END :: u64
  DATA_BEGIN :: u64
  DATA_END :: u64
  gdt_table :: u64
  idt_table :: u64
  isr_stubs :: "nat \<Rightarrow> u64"

section \<open>The state of the kernel\<close>

record kernel =
  con :: klog_state
  vm :: vm_state
  gdts :: gdt_state
  idts :: idt_state

text \<open>A step of the start sequence goes on with a value, or stops the machine by \<open>halt\<close> or by a panic.\<close>

datatype 'a boot = Goes 'a kernel | Halted kernel | Panicking kernel

definition bbind :: "'a boot option \<Rightarrow> ('a \<Rightarrow> kernel \<Rightarrow> 'b boot option) \<Rightarrow> 'b boot option" where
  "bbind r f = (case r of None \<Rightarrow> None | Some (Goes x k) \<Rightarrow> f x k | Some (Halted k) \<Rightarrow> Some (Halted k)
     | Some (Panicking k) \<Rightarrow> Some (Panicking k))"

definition halt :: "kernel \<Rightarrow> 'a boot option" where
  "halt k = Some (Halted (k\<lparr>con := con k\<lparr>interrupts := False\<rparr>\<rparr>))"

text \<open>A log call with integer arguments, on the console and the memory of the kernel.\<close>

definition boot_klogf :: "device \<Rightarrow> u64 \<Rightarrow> klog_call \<Rightarrow> kernel \<Rightarrow> unit boot option" where
  "boot_klogf dev cur_rbp call k =
     (case call of (level, format, args) \<Rightarrow>
        map_option (\<lambda>r. case r of
            Logged c \<Rightarrow> Goes () (k\<lparr>con := c\<rparr>)
          | Panicked c m \<Rightarrow> Panicking (k\<lparr>con := c, vm := vm k\<lparr>mem := m\<rparr>\<rparr>))
          (klogf dev cur_rbp level format (map VInt args) (con k) (mem (vm k))))"

fun deliver :: "device \<Rightarrow> u64 \<Rightarrow> klog_call list \<Rightarrow> kernel \<Rightarrow> unit boot option" where
  "deliver dev cur_rbp [] k = Some (Goes () k)"
| "deliver dev cur_rbp (call # calls) k = bbind (boot_klogf dev cur_rbp call k) (\<lambda>_. deliver dev cur_rbp calls)"

text \<open>\<open>kpanic\<close>: the compiler may assume that the log call does not return.\<close>

definition boot_kpanic :: "device \<Rightarrow> u64 \<Rightarrow> string \<Rightarrow> u64 list \<Rightarrow> kernel \<Rightarrow> 'a boot option" where
  "boot_kpanic dev cur_rbp format args k = bbind (boot_klogf dev cur_rbp (klog_level_panic, format, args) k) (\<lambda>_ k. None)"

text \<open>A memory management operation: its log calls are delivered, then it goes on or panics.\<close>

definition run_mm :: "device \<Rightarrow> u64 \<Rightarrow> (vm_state \<Rightarrow> ('a, vm_state) kres option) \<Rightarrow> kernel \<Rightarrow> 'a boot option" where
  "run_mm dev cur_rbp f k =
     (case f (vm k\<lparr>klog_calls := []\<rparr>) of
        None \<Rightarrow> None
      | Some (Inr (x, s)) \<Rightarrow> bbind (deliver dev cur_rbp (klog_calls s) (k\<lparr>vm := s\<rparr>)) (\<lambda>_ k. Some (Goes x k))
      | Some (Inl ((format, args), s)) \<Rightarrow>
          bbind (deliver dev cur_rbp (klog_calls s) (k\<lparr>vm := s\<rparr>)) (\<lambda>_. boot_kpanic dev cur_rbp format args))"

section \<open>The start sequence\<close>

definition validate_limine_or_halt :: "limine_requests \<Rightarrow> kernel \<Rightarrow> unit boot option" where
  "validate_limine_or_halt req k =
     (if \<not> LIMINE_BASE_REVISION_SUPPORTED (limine_base_revision req) then halt k
      else if (case response (fb_request req) of None \<Rightarrow> True | Some r \<Rightarrow> framebuffer_count r < 1) then halt k
      else if response (memmap_request req) = None then halt k
      else if response (hhdm_request req) = None then halt k
      else if response (address_request req) = None then halt k
      else Some (Goes () k))"

definition segment_info :: "link_symbols \<Rightarrow> kernel_segment_info" where
  "segment_info link =
     \<lparr>limine_start = LIMINE_BEGIN link, limine_end = PAGE_ALIGN_UP (LIMINE_END link),
      text_start = TEXT_BEGIN link, text_end = PAGE_ALIGN_UP (TEXT_END link),
      rodata_start = RODATA_BEGIN link, rodata_end = PAGE_ALIGN_UP (RODATA_END link),
      data_start = DATA_BEGIN link, data_end = PAGE_ALIGN_UP (DATA_END link)\<rparr>"

text \<open>Following a null response has no defined result.\<close>

definition memory_init :: "device \<Rightarrow> u64 \<Rightarrow> link_symbols \<Rightarrow> limine_requests \<Rightarrow> kernel \<Rightarrow> phys_addr_t boot option" where
  "memory_init dev cur_rbp link req k0 =
     (case (response (memmap_request req), response (hhdm_request req), response (address_request req)) of
        (Some memmap, Some hhdm, Some addr) \<Rightarrow>
          bbind (run_mm dev cur_rbp (pmm_init (entries memmap) (offset hhdm)) k0) (\<lambda>_ k1.
          let kernel_physical_base = physical_base addr; kernel_virtual_base = virtual_base addr in
          bbind (boot_klogf dev cur_rbp (klog_level_debug, ''kernel_virtual_base=0x%p, kernel_physical_base=0x%p'',
                   [kernel_virtual_base, kernel_physical_base]) k1) (\<lambda>_ k2.
          bbind (run_mm dev cur_rbp (\<lambda>s. Some (paging_init kernel_physical_base kernel_virtual_base (segment_info link) s)) k2)
            (\<lambda>kernel_pml4 k3.
          bbind (boot_klogf dev cur_rbp (klog_level_info, ''Memory management stuff is working'', []) k3) (\<lambda>_ k4.
          Some (Goes kernel_pml4 k4)))))
      | _ \<Rightarrow> None)"

definition fb_flags :: u64 where
  "fb_flags = PAGE_CACHE_DISABLE OR PAGE_WRITABLE OR PAGE_NO_EXECUTE OR PAGE_GLOBAL OR PAGE_PRESENT"

text \<open>The calls of \<open>fb_init\<close> and \<open>fb_clear_screen\<close>.\<close>

definition screen_up :: "limine_framebuffer \<Rightarrow> kernel \<Rightarrow> kernel" where
  "screen_up fb k =
     (let f = fb_init \<lparr>address = lfb_address fb, width = lfb_width fb, height = lfb_height fb,
                pitch = lfb_pitch fb, is_ready = False\<rparr>
      in k\<lparr>con := con k\<lparr>framebuffer := f\<rparr>,
            vm := vm k\<lparr>mem := fb_clear_screen \<lparr>red = 40, green = 40, blue = 60\<rparr> f (mem (vm k))\<rparr>\<rparr>)"

definition screen_init :: "device \<Rightarrow> u64 \<Rightarrow> limine_requests \<Rightarrow> phys_addr_t \<Rightarrow> kernel \<Rightarrow> unit boot option" where
  "screen_init dev cur_rbp req kernel_pml4 k0 =
     (case map_option framebuffers (response (fb_request req)) of
        Some (fb # fbs) \<Rightarrow>
          if lfb_memory_model fb \<noteq> 1 then
            boot_kpanic dev cur_rbp ''screen_init: framebuffer memory_model is %u, expected 1''
              [ucast (lfb_memory_model fb)] k0
          else
            let fb_size = lfb_pitch fb * lfb_height fb;
                fb_phys = HHDM_VIRT_TO_PHYS (vm k0) (lfb_address fb) in
            bbind (run_mm dev cur_rbp (\<lambda>s. Some (Inr (pmm_is_frame_free fb_phys s))) k0) (\<lambda>free k1.
            if free then boot_kpanic dev cur_rbp ''screen_init: framebuffer memory is free'' [] k1
            else
              bbind (run_mm dev cur_rbp (\<lambda>s. Some (paging_map_range kernel_pml4 (lfb_address fb)
                       (HHDM_VIRT_TO_PHYS (vm k1) (lfb_address fb)) fb_size fb_flags s)) k1) (\<lambda>_ k2.
              boot_klogf dev cur_rbp (klog_level_info, ''Framebuffer up and working'', []) (screen_up fb k2)))
      | _ \<Rightarrow> None)"

definition boot_kprintf :: "device \<Rightarrow> string \<Rightarrow> kernel \<Rightarrow> unit boot option" where
  "boot_kprintf dev format k = map_option (\<lambda>c. Goes () (k\<lparr>con := c\<rparr>)) (console_kprintf dev format [] (con k))"

definition boot_gdt_init :: "device \<Rightarrow> u64 \<Rightarrow> link_symbols \<Rightarrow> kernel \<Rightarrow> unit boot option" where
  "boot_gdt_init dev cur_rbp link k =
     Option.bind (gdt_init (gdt_table link) (gdts k\<lparr>gdt_log := []\<rparr>)) (\<lambda>g.
       deliver dev cur_rbp (gdt_log g) (k\<lparr>gdts := g\<rparr>))"

definition boot_clear_bss :: "link_symbols \<Rightarrow> kernel \<Rightarrow> kernel" where
  "boot_clear_bss link k =
     (let bss_size = bss_end link - bss_start link
      in k\<lparr>vm := vm k\<lparr>mem := snd (memset (bss_start link) 0 bss_size (mem (vm k)))\<rparr>\<rparr>)"

definition kmain :: "device \<Rightarrow> u64 \<Rightarrow> link_symbols \<Rightarrow> limine_requests \<Rightarrow> kernel \<Rightarrow> unit boot option" where
  "kmain dev cur_rbp link req k0 =
     bbind (validate_limine_or_halt req (boot_clear_bss link k0)) (\<lambda>_ k1.
     let k2 = k1\<lparr>con := console_up dev SERIAL_COM1_BASE (con k1)\<rparr> in
     bbind (boot_kprintf dev (''Hello from RainstormOS :)'' @ nl) k2) (\<lambda>_ k3.
     bbind (boot_gdt_init dev cur_rbp link k3) (\<lambda>_ k4.
     let k5 = k4\<lparr>idts := idt_init (isr_stubs link) (idt_table link) (idts k4)\<rparr> in
     bbind (boot_klogf dev cur_rbp (klog_level_info, ''gdt and idt are working'', []) k5) (\<lambda>_ k6.
     bbind (memory_init dev cur_rbp link req k6) (\<lambda>kernel_pml4 k7.
     bbind (screen_init dev cur_rbp req kernel_pml4 k7) (\<lambda>_ k8.
     bbind (boot_klogf dev cur_rbp (klog_level_info, ''Halting....'', []) k8) (\<lambda>_ k9.
     halt k9)))))))"

end
