(* ===== verification/Log_Calls.thy ===== *)
theory Log_Calls
  imports Paging Printf_Spec
begin

text \<open>
  The log calls of the memory management code fit the formatter: every call passes the arguments its
  format string asks for, so that printing it is defined, and none has the level that stops the machine.
  The predicate is carried through all
  operations.
\<close>

section \<open>Well-formed log calls\<close>

definition fmt_ok :: "string \<Rightarrow> u64 list \<Rightarrow> bool" where
  "fmt_ok format args \<longleftrightarrow> render format (map VInt args) \<noteq> None"

definition logs_ok :: "'a mm_state_scheme \<Rightarrow> bool" where
  "logs_ok s \<longleftrightarrow> (\<forall>(l, format, args)\<in>set (klog_calls s). l \<noteq> klog_level_panic \<and> fmt_ok format args)"

text \<open>An operation that may panic: its log calls and its panic message are well formed.\<close>

definition kres_ok :: "('b, 'a mm_state_scheme) kres \<Rightarrow> bool" where
  "kres_ok r \<longleftrightarrow> (case r of Inr (x, s) \<Rightarrow> logs_ok s | Inl ((format, args), s) \<Rightarrow> logs_ok s \<and> fmt_ok format args)"

named_theorems logsok \<open>operations keep the log well formed\<close>

lemma logs_ok_klog [simp]: "logs_ok (klog l f a s) \<longleftrightarrow> logs_ok s \<and> l \<noteq> klog_level_panic \<and> fmt_ok f a"
  by (auto simp: logs_ok_def)

lemma kres_ok_simps [simp]:
  "kres_ok (Inr (x, s)) \<longleftrightarrow> logs_ok s" "kres_ok (kpanic f a s) \<longleftrightarrow> logs_ok s \<and> fmt_ok f a"
  by (simp_all add: kres_ok_def kpanic_def)

lemma kres_ok_kbind: "kres_ok r \<Longrightarrow> (\<And>x s. logs_ok s \<Longrightarrow> kres_ok (f x s)) \<Longrightarrow> kres_ok (kbind r f)"
  by (cases r) (auto simp: kres_ok_def [of r] kbind_def, auto simp: kres_ok_def)

lemma kres_ok_kfor: "logs_ok s \<Longrightarrow> (\<And>i s. logs_ok s \<Longrightarrow> kres_ok (body i s)) \<Longrightarrow> kres_ok (kfor is body s)"
  by (induction "is" arbitrary: s) (auto intro: kres_ok_kbind)

lemma logs_ok_fold: "logs_ok s \<Longrightarrow> (\<And>i s. logs_ok s \<Longrightarrow> logs_ok (f i s)) \<Longrightarrow> logs_ok (fold f is s)"
  by (induction "is" arbitrary: s) auto

lemma logs_ok_updates [simp]:
  "logs_ok (s\<lparr>mem := m\<rparr>) = logs_ok s" "logs_ok (s\<lparr>g_hhdm_offset := h\<rparr>) = logs_ok s"
  "logs_ok (s\<lparr>bitmap_start := h\<rparr>) = logs_ok s" "logs_ok (s\<lparr>bitmap_size := h\<rparr>) = logs_ok s"
  "logs_ok (s\<lparr>total_frames := h\<rparr>) = logs_ok s"
  by (simp_all add: logs_ok_def)

lemma logs_ok_vm_updates [simp]:
  "logs_ok (v\<lparr>kernel_pml4_entries := es\<rparr>) = logs_ok v" "logs_ok (v\<lparr>cr3 := h\<rparr>) = logs_ok v"
  "logs_ok (v\<lparr>efer := h\<rparr>) = logs_ok v" "logs_ok (v\<lparr>tlb := h'\<rparr>) = logs_ok v" for v :: "'a vm_state_scheme"
  by (simp_all add: logs_ok_def)

section \<open>The physical memory manager\<close>

lemma logs_ok_prims [simp]:
  "logs_ok (bitmap_set_bit i b s) = logs_ok s" "logs_ok (bitmap_clear_bit i b s) = logs_ok s"
  "logs_ok (entry_set t j v s) = logs_ok s" "logs_ok (zero_frame f s) = logs_ok s"
  by (simp_all add: bitmap_set_bit_def bitmap_clear_bit_def bitmap_write_def entry_set_def zero_frame_def)

lemmas fmt_texts = fmt_ok_def directive_texts

lemma pmm_alloc_frame_logs [logsok]: "logs_ok s \<Longrightarrow> kres_ok (pmm_alloc_frame s)"
  by (simp add: pmm_alloc_frame_def fmt_texts split: option.split)

lemma pmm_alloc_frames_logs [logsok]: "logs_ok s \<Longrightarrow> kres_ok (pmm_alloc_frames n s)"
  by (auto simp: pmm_alloc_frames_def fmt_texts logsok intro!: logs_ok_fold split: option.split)

lemma pmm_free_frame_logs [logsok]: "logs_ok s \<Longrightarrow> logs_ok (pmm_free_frame a s)"
  by (simp add: pmm_free_frame_def Let_def fmt_texts)

lemma pmm_free_frames_logs [logsok]: "logs_ok s \<Longrightarrow> logs_ok (pmm_free_frames a n s)"
  by (auto simp: pmm_free_frames_def intro!: logs_ok_fold logsok)

lemma pmm_mark_allocated_logs [logsok]: "logs_ok s \<Longrightarrow> logs_ok (pmm_mark_allocated a s)"
  by (simp add: pmm_mark_allocated_def Let_def fmt_texts)

lemma pmm_is_frame_free_logs [logsok]: "logs_ok s \<Longrightarrow> logs_ok (snd (pmm_is_frame_free a s))"
  by (simp add: pmm_is_frame_free_def Let_def fmt_texts)

lemma free_region_logs: "free_region e j s = Some t \<Longrightarrow> logs_ok s \<Longrightarrow> logs_ok t"
proof -
  have "logs_ok s \<longrightarrow> logs_ok t" if "free_region e j s = Some t"
    using _ that by (rule free_region.raw_induct) (auto split: if_splits, blast intro: pmm_free_frame_logs)
  then show "free_region e j s = Some t \<Longrightarrow> logs_ok s \<Longrightarrow> logs_ok t" by blast
qed

lemma free_usable_logs: "free_usable es s = Some t \<Longrightarrow> logs_ok s \<Longrightarrow> logs_ok t"
  by (induction es arbitrary: s) (auto split: if_splits bind_splits dest: free_region_logs)

lemma pmm_init_logs: "pmm_init memmap h s = Some r \<Longrightarrow> logs_ok s \<Longrightarrow> kres_ok r"
  by (auto simp: pmm_init_def Let_def fmt_texts split: if_splits option.splits
      intro!: logs_ok_fold pmm_mark_allocated_logs dest!: free_usable_logs)

section \<open>Paging\<close>

lemma paging_next_table_logs [logsok]: "logs_ok s \<Longrightarrow> kres_ok (paging_next_table t i fl s)"
  by (auto simp: paging_next_table_def Let_def intro!: kres_ok_kbind logsok)

lemma paging_invalidate_logs [simp]:
  "logs_ok (paging_invalidate_page a s) = logs_ok s" "logs_ok (paging_switch_dir a s) = logs_ok s" "logs_ok (paging_enable_nxe s) = logs_ok s"
  by (simp_all add: paging_invalidate_page_def paging_switch_dir_def paging_enable_nxe_def)

lemma paging_map_logs [logsok]: "logs_ok s \<Longrightarrow> kres_ok (paging_map r v p fl s)"
  by (auto simp: paging_map_def Let_def fmt_texts intro!: kres_ok_kbind logsok)

lemma paging_map_range_logs [logsok]: "logs_ok s \<Longrightarrow> kres_ok (paging_map_range r v p sz fl s)"
  by (auto simp: paging_map_range_def fmt_texts intro!: kres_ok_kfor logsok)

lemma paging_unmap_logs [logsok]: "logs_ok s \<Longrightarrow> logs_ok (paging_unmap r v s)"
  by (simp add: paging_unmap_def fmt_texts split: option.split)

lemma paging_unmap_range_logs [logsok]: "logs_ok s \<Longrightarrow> logs_ok (paging_unmap_range r v sz s)"
  by (auto simp: paging_unmap_range_def fmt_texts intro!: logs_ok_fold logsok)

lemma paging_is_mapped_logs [logsok]: "logs_ok s \<Longrightarrow> logs_ok (snd (paging_is_mapped r v s))"
  by (simp add: paging_is_mapped_def fmt_texts split: option.split)

lemma paging_get_physical_logs [logsok]: "logs_ok s \<Longrightarrow> logs_ok (snd (paging_get_physical r v s))"
  by (simp add: paging_get_physical_def Let_def fmt_texts split: option.split)

lemma paging_switch_pml4_logs [logsok]: "logs_ok s \<Longrightarrow> logs_ok (paging_switch_pml4 r s)"
  by (simp add: paging_switch_pml4_def fmt_texts)

lemma paging_create_pml4_logs [logsok]: "logs_ok s \<Longrightarrow> kres_ok (paging_create_pml4 s)"
  by (auto simp: paging_create_pml4_def Let_def intro!: kres_ok_kbind logs_ok_fold logsok)

lemma paging_destroy_pml4_logs [logsok]: "logs_ok s \<Longrightarrow> logs_ok (paging_destroy_pml4 r s)"
  by (auto simp: paging_destroy_pml4_def destroy_pdpt_def destroy_pd_def Let_def fmt_texts intro!: logs_ok_fold logsok)

lemma paging_init_logs [logsok]: "logs_ok s \<Longrightarrow> kres_ok (paging_init pb vb seg s)"
  unfolding paging_init_def init_kernel_pdpts_def Let_def
  by (intro kres_ok_kbind kres_ok_kfor logsok) (simp_all add: fmt_texts)

end
