(* ===== verification/Kernel_Properties.thy ===== *)
theory Kernel_Properties
  imports Kernel_Entry Log_Calls Cpu_Properties Pmm_Properties
begin

text \<open>
  The start of the kernel as a whole: the log calls of memory management are well formed, a kernel
  without the answers of the boot loader stops silently, and with them \<open>kmain\<close> always reaches a
  defined end.
\<close>

section \<open>Log calls\<close>



section \<open>Steps of the start sequence\<close>

text \<open>
  What a step of the start sequence may do on a working console: go on with a working console, having
  only added to the serial line, or panic. \<open>Q\<close> says more about the state it goes on with.
\<close>

definition console_works :: "device \<Rightarrow> kernel \<Rightarrow> bool" where
  "console_works dev k \<longleftrightarrow> klog_ready dev (con k) \<and> console_ok dev (con k)"

definition said :: "u8 list \<Rightarrow> kernel \<Rightarrow> bool" where
  "said l k \<longleftrightarrow> (\<exists>rest. line (con k) = l @ rest)"

definition goes_on :: "device \<Rightarrow> u8 list \<Rightarrow> ('a \<Rightarrow> kernel \<Rightarrow> bool) \<Rightarrow> 'a boot option \<Rightarrow> bool" where
  "goes_on dev l Q r \<longleftrightarrow> (\<exists>x k. r = Some (Goes x k) \<and> console_works dev k \<and> said l k \<and> Q x k)
     \<or> (\<exists>k. r = Some (Panicking k) \<and> \<not> interrupts (con k) \<and> said l k)"

lemma goes_on_bbind:
  assumes "goes_on dev l P r" and "\<And>x k. console_works dev k \<Longrightarrow> said l k \<Longrightarrow> P x k \<Longrightarrow> goes_on dev l Q (f x k)"
  shows "goes_on dev l Q (bbind r f)"
  using assms by (auto simp: goes_on_def [of dev l P] bbind_def) (auto simp: goes_on_def)

lemma goes_on_Goes: "console_works dev k \<Longrightarrow> said l k \<Longrightarrow> Q x k \<Longrightarrow> goes_on dev l Q (Some (Goes x k))"
  by (simp add: goes_on_def)

lemma goes_on_mono: "goes_on dev l P r \<Longrightarrow> (\<And>x k. P x k \<Longrightarrow> Q x k) \<Longrightarrow> goes_on dev l Q r"
  by (auto simp: goes_on_def)

text \<open>A step that does not panic.\<close>

definition succeeds :: "device \<Rightarrow> u8 list \<Rightarrow> ('a \<Rightarrow> kernel \<Rightarrow> bool) \<Rightarrow> 'a boot option \<Rightarrow> bool" where
  "succeeds dev l Q r \<longleftrightarrow> (\<exists>x k. r = Some (Goes x k) \<and> console_works dev k \<and> said l k \<and> Q x k)"

lemma succeeds_bbind:
  assumes "succeeds dev l P r" and "\<And>x k. console_works dev k \<Longrightarrow> said l k \<Longrightarrow> P x k \<Longrightarrow> succeeds dev l Q (f x k)"
  shows "succeeds dev l Q (bbind r f)"
  using assms by (auto simp: succeeds_def [of dev l P] bbind_def)

lemma succeeds_Goes: "console_works dev k \<Longrightarrow> said l k \<Longrightarrow> Q x k \<Longrightarrow> succeeds dev l Q (Some (Goes x k))"
  by (simp add: succeeds_def)

lemma succeeds_mono: "succeeds dev l P r \<Longrightarrow> (\<And>x k. P x k \<Longrightarrow> Q x k) \<Longrightarrow> succeeds dev l Q r"
  by (auto simp: succeeds_def)

lemma succeeds_goes_on: "succeeds dev l Q r \<Longrightarrow> goes_on dev l Q r"
  by (auto simp: succeeds_def goes_on_def)

lemma goes_on_succeeds: "goes_on dev l Q r \<Longrightarrow> (\<And>k. r \<noteq> Some (Panicking k)) \<Longrightarrow> succeeds dev l Q r"
  by (auto simp: succeeds_def goes_on_def)

text \<open>What log calls and memory management leave alone: the tables and the console but its output.\<close>

definition same_tables :: "kernel \<Rightarrow> kernel \<Rightarrow> bool" where
  "same_tables k k' \<longleftrightarrow> gdts k' = gdts k \<and> idts k' = idts k \<and> quiet (con k') = quiet (con k)"

lemma same_tables_refl [simp]: "same_tables k k" by (simp add: same_tables_def)

lemma same_tables_trans: "same_tables k k' \<Longrightarrow> same_tables k' k'' \<Longrightarrow> same_tables k k''" by (simp add: same_tables_def)

lemma console_ok_quiet: "console_ok dev (quiet s) = console_ok dev s"
  by (simp add: quiet_def)

lemma console_works_quiet: "quiet c = quiet (con k) \<Longrightarrow> console_works dev k \<Longrightarrow> klog_ready dev c \<and> console_ok dev c"
  unfolding console_works_def by (metis klog_ready_quiet console_ok_quiet)

lemma said_append: "said l k \<Longrightarrow> line c = line (con k) @ tx \<Longrightarrow> \<exists>rest. line c = l @ rest"
  by (auto simp: said_def)

lemma boot_klogf_goes_on:
  assumes up: "console_works dev k" "said l k" and fmt: "fmt_ok format args"
  shows "goes_on dev l (\<lambda>_ k'. same_tables k k' \<and> vm k' = vm k) (boot_klogf dev cur (level, format, args) k)"
proof -
  from fmt obtain tx where tx: "render format (map VInt args) = Some tx" by (auto simp: fmt_ok_def)
  have ready: "klog_ready dev (con k)" using up(1) by (simp add: console_works_def)
  consider "level = klog_level_panic" | "level < current_level (con k)"
    | "level \<noteq> klog_level_panic" "current_level (con k) \<le> level" by (meson not_le)
  then show ?thesis
  proof cases
    case 1
    from klogf_panic [OF ready tx, of cur "mem (vm k)"] obtain c m where
      c: "klogf dev cur klog_level_panic format (map VInt args) (con k) (mem (vm k)) = Some (Panicked c m)"
        "line c = line (con k) @ visible (panic_text m cur tx)" "\<not> interrupts c" by blast
    from said_append [OF up(2) c(2)] c 1 show ?thesis by (simp add: goes_on_def boot_klogf_def said_def)
  next
    case 2
    with up klogf_silent [of level "con k" dev cur] show ?thesis by (simp add: goes_on_def boot_klogf_def)
  next
    case 3
    from klogf_line [OF ready 3(2,1) tx, of cur "mem (vm k)"] obtain c where
      c: "klogf dev cur level format (map VInt args) (con k) (mem (vm k)) = Some (Logged c)"
        "line c = line (con k) @ visible (log_labels level @ tx @ nl)" "quiet c = quiet (con k)" by blast
    from said_append [OF up(2) c(2)] console_works_quiet [OF c(3) up(1)] c show ?thesis
      by (simp add: goes_on_def boot_klogf_def said_def console_works_def same_tables_def)
  qed
qed

lemma boot_kpanic_goes_on:
  assumes "console_works dev k" "said l k" "fmt_ok format args"
  shows "goes_on dev l Q (boot_kpanic dev cur format args k)"
proof -
  from assms(3) obtain tx where tx: "render format (map VInt args) = Some tx" by (auto simp: fmt_ok_def)
  have "klog_ready dev (con k)" using assms(1) by (simp add: console_works_def)
  from klogf_panic [OF this tx, of cur "mem (vm k)"] obtain c m where
    c: "klogf dev cur klog_level_panic format (map VInt args) (con k) (mem (vm k)) = Some (Panicked c m)"
      "line c = line (con k) @ visible (panic_text m cur tx)" "\<not> interrupts c" by blast
  from said_append [OF assms(2) c(2)] c show ?thesis
    by (simp add: goes_on_def boot_kpanic_def boot_klogf_def bbind_def said_def)
qed

text \<open>Only a panic stops: any other log call returns.\<close>

lemma klogf_Panicked: "klogf dev cur level f args s m = Some (Panicked c m') \<Longrightarrow> level = klog_level_panic"
  by (auto simp: klogf_def Let_def split: if_splits bind_splits)

lemma boot_klogf_succeeds:
  assumes "console_works dev k" "said l k" "fmt_ok format args" and "level \<noteq> klog_level_panic"
  shows "succeeds dev l (\<lambda>_ k'. same_tables k k' \<and> vm k' = vm k) (boot_klogf dev cur (level, format, args) k)"
proof (rule goes_on_succeeds [OF boot_klogf_goes_on [OF assms(1-3)]])
  show "boot_klogf dev cur (level, format, args) k \<noteq> Some (Panicking k')" for k'
    using klogf_Panicked [of dev cur level format "map VInt args"] assms(4)
    by (auto simp: boot_klogf_def split: klog_result.splits)
qed

lemma deliver_succeeds:
  "console_works dev k \<Longrightarrow> said l k \<Longrightarrow> (\<And>lv f a. (lv, f, a) \<in> set calls \<Longrightarrow> lv \<noteq> klog_level_panic \<and> fmt_ok f a) \<Longrightarrow>
    succeeds dev l (\<lambda>_ k'. same_tables k k' \<and> vm k' = vm k) (deliver dev cur calls k)"
proof (induction calls arbitrary: k)
  case (Cons call calls)
  obtain lv f a where call: "call = (lv, f, a)" by (cases call)
  show ?case unfolding deliver.simps call
  proof (rule succeeds_bbind [OF boot_klogf_succeeds [OF Cons.prems(1,2)]])
    show "fmt_ok f a" "lv \<noteq> klog_level_panic" using Cons.prems(3) call by auto
    fix x k1 assume k1: "console_works dev k1" "said l k1" "same_tables k k1 \<and> vm k1 = vm k"
    show "succeeds dev l (\<lambda>_ k'. same_tables k k' \<and> vm k' = vm k) (deliver dev cur calls k1)"
      by (rule succeeds_mono [OF Cons.IH [OF k1(1,2)]]) (use Cons.prems(3) k1(3) in \<open>auto intro: same_tables_trans\<close>)
  qed
qed (simp add: succeeds_def)

lemma deliver_state_succeeds:
  assumes up: "console_works dev k" "said l k" and ok: "logs_ok s"
  shows "succeeds dev l (\<lambda>_ k'. same_tables k k' \<and> vm k' = s) (deliver dev cur (klog_calls s) (k\<lparr>vm := s\<rparr>))"
proof (rule succeeds_mono [OF deliver_succeeds])
  show "console_works dev (k\<lparr>vm := s\<rparr>)" "said l (k\<lparr>vm := s\<rparr>)" using up by (simp_all add: console_works_def said_def)
qed (use ok in \<open>auto simp: logs_ok_def same_tables_def\<close>)

lemma run_mm_succeeds:
  assumes up: "console_works dev k" "said l k" and f: "f (vm k\<lparr>klog_calls := []\<rparr>) = Some (Inr (x, s))" and ok: "logs_ok s"
  shows "succeeds dev l (\<lambda>x' k'. x' = x \<and> same_tables k k' \<and> vm k' = s) (run_mm dev cur f k)"
  using f unfolding run_mm_def
  by (auto intro!: succeeds_bbind [OF deliver_state_succeeds [OF up ok]] succeeds_Goes)

lemma run_mm_goes_on:
  assumes up: "console_works dev k" "said l k" and f: "f (vm k\<lparr>klog_calls := []\<rparr>) = Some r" "kres_ok r"
  shows "goes_on dev l (\<lambda>x k'. same_tables k k') (run_mm dev cur f k)"
proof (cases r)
  case (Inl e)
  obtain format args s where e: "e = ((format, args), s)" by (metis prod.collapse)
  with Inl f(2) have ok: "logs_ok s" "fmt_ok format args" by (auto simp: kres_ok_def)
  from Inl e f(1) show ?thesis
    unfolding run_mm_def
    by (auto intro!: goes_on_bbind [OF succeeds_goes_on [OF deliver_state_succeeds [OF up ok(1)]]] boot_kpanic_goes_on ok(2))
next
  case (Inr e)
  with f show ?thesis
    by (cases e) (auto simp: kres_ok_def intro!: succeeds_goes_on succeeds_mono [OF run_mm_succeeds [OF up]])
qed

section \<open>Memory and screen\<close>

lemma pmm_init_defined: "memmap_ok memmap \<Longrightarrow> \<exists>r. pmm_init memmap h s = Some r"
  using pmm_init_effect [of memmap h s] pmm_init_no_region [of memmap h s] by (cases "bitmap_region_exists memmap") blast+

lemma logs_ok_start: "logs_ok (s\<lparr>klog_calls := []\<rparr>)"
  by (simp add: logs_ok_def)

lemma memory_init_goes_on:
  assumes up: "console_works dev k" "said l k"
    and req: "response (memmap_request req) = Some mm" "memmap_ok (entries mm)" "response (hhdm_request req) = Some hh"
      "response (address_request req) = Some addr"
  shows "goes_on dev l (\<lambda>_ k'. same_tables k k') (memory_init dev cur lk req k)"
proof -
  from pmm_init_defined [OF req(2)] obtain r where r: "pmm_init (entries mm) (offset hh) (vm k\<lparr>klog_calls := []\<rparr>) = Some r" by blast
  note pmm = run_mm_goes_on [OF up, of "pmm_init (entries mm) (offset hh)", OF r pmm_init_logs [OF r logs_ok_start]]
  have pag: "goes_on dev l (\<lambda>x k'. same_tables k1 k') (run_mm dev cur (\<lambda>s. Some (paging_init pb vb seg s)) k1)"
    if "console_works dev k1" "said l k1" for k1 pb vb seg
    by (rule run_mm_goes_on [OF that refl]) (rule logsok, rule logs_ok_start)
  show ?thesis
    unfolding memory_init_def req option.case prod.case Let_def
  proof (rule goes_on_bbind [OF pmm])
    fix u k1 assume 1: "console_works dev k1" "said l k1" "same_tables k k1"
    show "goes_on dev l (\<lambda>_ k'. same_tables k k')
       (bbind (boot_klogf dev cur (klog_level_debug, ''kernel_virtual_base=0x%p, kernel_physical_base=0x%p'', [virtual_base addr, physical_base addr]) k1)
         (\<lambda>_ k2. bbind (run_mm dev cur (\<lambda>s. Some (paging_init (physical_base addr) (virtual_base addr) (segment_info lk) s)) k2)
           (\<lambda>kernel_pml4 k3. bbind (boot_klogf dev cur (klog_level_info, ''Memory management stuff is working'', []) k3)
             (\<lambda>_ k4. Some (Goes kernel_pml4 k4)))))"
    proof (rule goes_on_bbind [OF boot_klogf_goes_on [OF 1(1,2)]])
      show "fmt_ok ''kernel_virtual_base=0x%p, kernel_physical_base=0x%p'' [virtual_base addr, physical_base addr]" by (simp add: fmt_texts)
      fix v k2 assume 2: "console_works dev k2" "said l k2" "same_tables k1 k2 \<and> vm k2 = vm k1"
      show "goes_on dev l (\<lambda>_ k'. same_tables k k')
         (bbind (run_mm dev cur (\<lambda>s. Some (paging_init (physical_base addr) (virtual_base addr) (segment_info lk) s)) k2)
           (\<lambda>kernel_pml4 k3. bbind (boot_klogf dev cur (klog_level_info, ''Memory management stuff is working'', []) k3)
             (\<lambda>_ k4. Some (Goes kernel_pml4 k4))))"
        by (rule goes_on_bbind [OF pag [OF 2(1,2)]], rule goes_on_bbind [OF boot_klogf_goes_on], assumption+)
           (simp add: fmt_texts, rule goes_on_Goes, assumption+, use 1(3) 2(3) in \<open>auto intro: same_tables_trans\<close>)
    qed
  qed
qed

text \<open>After the screen is up the tables are as before, and the driver has the boot loader's screen.\<close>

definition screen_of :: "limine_framebuffer \<Rightarrow> framebuffer_t" where
  "screen_of fb = \<lparr>address = lfb_address fb, width = lfb_width fb, height = lfb_height fb, pitch = lfb_pitch fb, is_ready = True\<rparr>"

definition tables_and_screen :: "kernel \<Rightarrow> limine_framebuffer \<Rightarrow> kernel \<Rightarrow> bool" where
  "tables_and_screen k fb k' \<longleftrightarrow> gdts k' = gdts k \<and> idts k' = idts k \<and> framebuffer (con k') = screen_of fb"

lemma screen_up_works:
  "console_works dev k \<Longrightarrow> console_works dev (screen_up fb k)" "said l k \<Longrightarrow> said l (screen_up fb k)"
  "same_tables k k' \<Longrightarrow> tables_and_screen k fb (screen_up fb k')"
  by (auto simp: screen_up_def console_works_def klog_ready_def console_ok_def serial_ok_def sink_of_def said_def line_def
      same_tables_def tables_and_screen_def screen_of_def fb_init_def Let_def split: if_splits)

lemma tables_and_screen_trans: "tables_and_screen k fb k' \<Longrightarrow> same_tables k' k'' \<Longrightarrow> tables_and_screen k fb k''"
  using framebuffer_quiet unfolding tables_and_screen_def same_tables_def by metis

lemma screen_init_goes_on:
  assumes up: "console_works dev k" "said l k" and req: "response (fb_request req) = Some resp" "framebuffers resp = fb # fbs"
  shows "goes_on dev l (\<lambda>_ k'. tables_and_screen k fb k') (screen_init dev cur req p k)"
proof -
  have free: "goes_on dev l (\<lambda>x k'. same_tables k1 k') (run_mm dev cur (\<lambda>s. Some (Inr (pmm_is_frame_free a s))) k1)"
    if "console_works dev k1" "said l k1" for k1 a
    by (rule run_mm_goes_on [OF that refl]) (metis kres_ok_simps(1) logs_ok_start pmm_is_frame_free_logs prod.collapse)
  have map: "goes_on dev l (\<lambda>x k'. same_tables k1 k') (run_mm dev cur (\<lambda>s. Some (paging_map_range p v a sz fl s)) k1)"
    if "console_works dev k1" "said l k1" for k1 v a sz fl
    by (rule run_mm_goes_on [OF that refl]) (rule logsok, rule logs_ok_start)
  have last: "goes_on dev l (\<lambda>_ k'. tables_and_screen k fb k') (boot_klogf dev cur (klog_level_info, ''Framebuffer up and working'', []) (screen_up fb k2))"
    if "console_works dev k2" "said l k2" "same_tables k k2" for k2
  proof (rule goes_on_mono [OF boot_klogf_goes_on])
    show "console_works dev (screen_up fb k2)" "said l (screen_up fb k2)" by (simp_all only: screen_up_works that(1,2))
    show "fmt_ok ''Framebuffer up and working'' []" by (simp add: fmt_texts)
    show "tables_and_screen k fb k'" if "same_tables (screen_up fb k2) k' \<and> vm k' = vm (screen_up fb k2)" for k'
      using tables_and_screen_trans [OF screen_up_works(3) [OF \<open>same_tables k k2\<close>]] that by blast
  qed
  have drawn: "goes_on dev l (\<lambda>_ k'. tables_and_screen k fb k') (bbind (run_mm dev cur (\<lambda>s. Some (paging_map_range p v a sz fl s)) k1)
      (\<lambda>_ k2. boot_klogf dev cur (klog_level_info, ''Framebuffer up and working'', []) (screen_up fb k2)))"
    if "console_works dev k1" "said l k1" "same_tables k k1" for k1 v a sz fl
    by (rule goes_on_bbind [OF map [OF that(1,2)]], rule last) (auto intro: same_tables_trans [OF that(3)])
  show ?thesis
    unfolding screen_init_def req option.map option.case list.case Let_def
    by (auto simp: fmt_texts intro!: boot_kpanic_goes_on up goes_on_bbind [OF free [OF up]] drawn)
qed

section \<open>The start of the kernel\<close>

definition responses_present :: "limine_requests \<Rightarrow> bool" where
  "responses_present req \<longleftrightarrow> limine_base_revision req ! 2 = 0
     \<and> (\<exists>r. response (fb_request req) = Some r \<and> 1 \<le> framebuffer_count r) \<and> response (memmap_request req) \<noteq> None
     \<and> response (hhdm_request req) \<noteq> None \<and> response (address_request req) \<noteq> None"

lemma validate_cases:
  "validate_limine_or_halt req k = (if responses_present req then Some (Goes () k) else halt k)"
  by (auto simp: validate_limine_or_halt_def responses_present_def LIMINE_BASE_REVISION_SUPPORTED_def not_less not_le split: option.split)

text \<open>When the boot loader does not support the base revision or an answer is missing (as in the
  requests before it has answered), \<open>kmain\<close> halts with interrupts disabled after clearing the zero
  section, without touching a port, a table or any other memory.\<close>

theorem kmain_halts_unanswered:
  assumes "\<not> responses_present req"
  shows "\<exists>k'. kmain dev cur lk req k = Some (Halted k') \<and> con k' = con k\<lparr>interrupts := False\<rparr> \<and> gdts k' = gdts k \<and> idts k' = idts k
    \<and> (\<forall>a. unat (bss_end lk - bss_start lk) \<le> unat (a - bss_start lk) \<longrightarrow> mem (vm k') a = mem (vm k) a)"
  using assms by (auto simp: kmain_def validate_cases bbind_def halt_def boot_clear_bss_def memset_eq Let_def)

definition ex_link :: link_symbols where
  "ex_link = \<lparr>bss_start = 0xFFFFFFFF80010000, bss_end = 0xFFFFFFFF80020000, LIMINE_BEGIN = 0xFFFFFFFF80000000,
     LIMINE_END = 0xFFFFFFFF80000100, TEXT_BEGIN = 0xFFFFFFFF80001000, TEXT_END = 0xFFFFFFFF80005000,
     RODATA_BEGIN = 0xFFFFFFFF80005000, RODATA_END = 0xFFFFFFFF80008000, DATA_BEGIN = 0xFFFFFFFF80008000,
     DATA_END = 0xFFFFFFFF80020000, gdt_table = 0xFFFFFFFF80010000, idt_table = 0xFFFFFFFF80011000,
     isr_stubs = (\<lambda>v. 0xFFFFFFFF80001000 + 16 * of_nat v)\<rparr>"

definition ex_kernel :: kernel where
  "ex_kernel = \<lparr>con = boot_console, vm = ex_state, gdts = boot_gdt,
     idts = \<lparr>idt = [], idtPtr = \<lparr>idt_size = 0, idt_address = 0\<rparr>, idtr = \<lparr>idt_size = 0, idt_address = 0\<rparr>\<rparr>\<rparr>"

theorem kmain_halts_unanswered_witness:
  "\<exists>k'. kmain ex_uart 0 ex_link initial_requests ex_kernel = Some (Halted k') \<and> port_log (con k') = []"
proof -
  have "\<not> responses_present initial_requests" by (simp add: responses_present_def initial_requests_def)
  from kmain_halts_unanswered [OF this, of ex_uart 0 ex_link ex_kernel] show ?thesis
    by (auto simp: ex_kernel_def boot_console_def)
qed

text \<open>The state \<open>kmain\<close> starts in: the static variables of the executable.\<close>

definition fresh :: "kernel \<Rightarrow> bool" where
  "fresh k \<longleftrightarrow> sinks_ok (con k) \<and> curr_idx (con k) = - 1 \<and> \<not> isInitialied (con k) \<and> debug_sink (con k) = - 1
     \<and> port_log (con k) = [] \<and> length (gdt (gdts k)) = 5"

definition loopback_ok :: "device \<Rightarrow> bool" where
  "loopback_ok dev \<longleftrightarrow> dev (init_log SERIAL_COM1_BASE) SERIAL_COM1_BASE = 0xae \<and> transmits dev SERIAL_COM1_BASE"

definition greeting :: string where "greeting = ''Hello from RainstormOS :)'' @ nl"

lemma line_init: "sent com (init_log com @ [In com 0xae, Out (com + 4) 0x7]) = [0, 3, 0xae]"
proof -
  have "com + 2 \<noteq> com" "com + 3 \<noteq> com" "com + 4 \<noteq> com" by simp_all
  then show ?thesis by (simp add: sent_def init_log_def)
qed

lemma console_up_start:
  assumes "fresh k" "loopback_ok dev"
  shows "\<exists>c. console_kprintf dev greeting [] (console_up dev SERIAL_COM1_BASE (con k)) = Some c
    \<and> klog_ready dev c \<and> console_ok dev c \<and> line c = [0, 3, 0xae] @ visible greeting"
proof -
  let ?c = "console_up dev SERIAL_COM1_BASE (con k)"
  have eff: "console_ok dev ?c" "klog_ready dev ?c" "port_log ?c = init_log SERIAL_COM1_BASE @ [In SERIAL_COM1_BASE 0xae, Out (SERIAL_COM1_BASE + 4) 0x7]"
    using console_up_effect [of "con k" dev SERIAL_COM1_BASE] assms by (simp_all add: fresh_def loopback_ok_def)
  have "current_com ?c = SERIAL_COM1_BASE"
    using assms by (simp add: fresh_def loopback_ok_def console_up_def serial_init_eq klog_set_level_def
        kprintf_set_default_sink_def sink_register_def Let_def split: prod.split)
  then have line: "line ?c = [0, 3, 0xae]" unfolding line_def eff(3) by (simp only: line_init)
  have "render greeting [] = Some greeting" by (simp add: greeting_def)
  from console_print(1) [OF eff(1) this] obtain c where
    "console_kprintf dev greeting [] ?c = Some c" "console_ok dev c" "line c = line ?c @ visible greeting" "quiet c = quiet ?c" by blast
  moreover from this(4) eff(2) have "klog_ready dev c" by (metis klog_ready_quiet)
  ultimately show ?thesis using line by simp
qed

lemma boot_gdt_init_succeeds:
  assumes k: "console_works dev k" "said l k" "length (gdt (gdts k)) = 5"
  shows "succeeds dev l (\<lambda>_ k'. gdtr (gdts k') = \<lparr>gdt_size = 39, gdt_address = gdt_table lk\<rparr> \<and> vm k' = vm k)
    (boot_gdt_init dev cur lk k)"
proof -
  obtain g where g: "gdt_init (gdt_table lk) (gdts k\<lparr>gdt_log := []\<rparr>) = Some g" "gdtr g = \<lparr>gdt_size = 39, gdt_address = gdt_table lk\<rparr>"
      "gdt_log g = [(klog_level_debug, ''GDT address: 0x%llx  size: %u'', [gdt_table lk, 39])]"
    using gdt_init_eq [of "gdts k\<lparr>gdt_log := []\<rparr>" "gdt_table lk"] k(3) by (simp add: GDT_ENTRIES_COUNT_def)
  have "succeeds dev l (\<lambda>_ k'. same_tables (k\<lparr>gdts := g\<rparr>) k' \<and> vm k' = vm (k\<lparr>gdts := g\<rparr>)) (deliver dev cur (gdt_log g) (k\<lparr>gdts := g\<rparr>))"
    using k by (intro deliver_succeeds) (auto simp: g(3) fmt_texts console_works_def said_def)
  then show ?thesis unfolding boot_gdt_init_def g(1) Option.bind.simps
    by (rule succeeds_mono) (simp add: same_tables_def g(2))
qed

text \<open>The part of \<open>kmain\<close> after the greeting.\<close>

definition after_greeting :: "device \<Rightarrow> u64 \<Rightarrow> link_symbols \<Rightarrow> limine_requests \<Rightarrow> kernel \<Rightarrow> unit boot option" where
  "after_greeting dev cur lk req k =
     bbind (boot_gdt_init dev cur lk k) (\<lambda>_ k4.
     bbind (boot_klogf dev cur (klog_level_info, ''gdt and idt are working'', [])
              (k4\<lparr>idts := idt_init (isr_stubs lk) (idt_table lk) (idts k4)\<rparr>)) (\<lambda>_ k6.
     bbind (memory_init dev cur lk req k6) (\<lambda>kernel_pml4 k7.
     bbind (screen_init dev cur req kernel_pml4 k7) (\<lambda>_ k8.
     boot_klogf dev cur (klog_level_info, ''Halting....'', []) k8))))"

lemma kmain_rest:
  assumes k: "console_works dev k" "said l k" "length (gdt (gdts k)) = 5"
    and req: "response (memmap_request req) = Some mm" "memmap_ok (entries mm)" "response (hhdm_request req) = Some hh"
      "response (address_request req) = Some addr" "response (fb_request req) = Some resp" "framebuffers resp = fb # fbs"
  shows "goes_on dev l (\<lambda>_ k'. gdtr (gdts k') = \<lparr>gdt_size = 39, gdt_address = gdt_table lk\<rparr>
      \<and> idtr (idts k') = \<lparr>idt_size = 4095, idt_address = idt_table lk\<rparr> \<and> framebuffer (con k') = screen_of fb)
    (after_greeting dev cur lk req k)"
    (is "goes_on dev l ?Q _")
proof -
  let ?T = "\<lambda>k'. gdtr (gdts k') = \<lparr>gdt_size = 39, gdt_address = gdt_table lk\<rparr>"
  let ?U = "\<lambda>k'. ?T k' \<and> idtr (idts k') = \<lparr>idt_size = 4095, idt_address = idt_table lk\<rparr>"
  have U: "same_tables k1 k2 \<Longrightarrow> ?U k1 \<Longrightarrow> ?U k2" for k1 k2 by (simp add: same_tables_def)
  note gdt = succeeds_goes_on [OF boot_gdt_init_succeeds [OF k]]
  have last: "goes_on dev l ?Q (boot_klogf dev cur (klog_level_info, ''Halting....'', []) k8)"
    if "console_works dev k8" "said l k8" "?U k7" "tables_and_screen k7 fb k8" for k7 k8
  proof (rule goes_on_mono [OF boot_klogf_goes_on [OF that(1,2)]])
    show "fmt_ok ''Halting....'' []" by (simp add: fmt_texts)
    fix k9 assume k9: "same_tables k8 k9 \<and> vm k9 = vm k8"
    then have "tables_and_screen k7 fb k9" using tables_and_screen_trans [OF that(4)] by blast
    with that(3) show "?Q () k9" by (simp add: tables_and_screen_def)
  qed
  have screen: "goes_on dev l ?Q (bbind (screen_init dev cur req p k7) (\<lambda>_. boot_klogf dev cur (klog_level_info, ''Halting....'', [])))"
    if "console_works dev k7" "said l k7" "?U k7" for k7 p
    by (rule goes_on_bbind [OF screen_init_goes_on [OF that(1,2) req(5,6)]]) (rule last [OF _ _ that(3)])
  have memory: "goes_on dev l ?Q (bbind (memory_init dev cur lk req k6) (\<lambda>p k7. bbind (screen_init dev cur req p k7)
      (\<lambda>_. boot_klogf dev cur (klog_level_info, ''Halting....'', []))))"
    if "console_works dev k6" "said l k6" "?U k6" for k6
    by (rule goes_on_bbind [OF memory_init_goes_on [OF that(1,2) req(1-4)]]) (rule screen, assumption+, erule U, rule that(3))
  have idt: "goes_on dev l ?Q (bbind (boot_klogf dev cur (klog_level_info, ''gdt and idt are working'', []) k5)
      (\<lambda>_ k6. bbind (memory_init dev cur lk req k6) (\<lambda>p k7. bbind (screen_init dev cur req p k7)
      (\<lambda>_. boot_klogf dev cur (klog_level_info, ''Halting....'', [])))))"
    if "console_works dev k5" "said l k5" "?U k5" for k5
  proof (rule goes_on_bbind [OF boot_klogf_goes_on [OF that(1,2)]])
    show "fmt_ok ''gdt and idt are working'' []" by (simp add: fmt_texts)
  qed (rule memory, assumption+, erule conjE, erule U, rule that(3))
  show ?thesis unfolding after_greeting_def
    by (rule goes_on_bbind [OF gdt], rule idt) (auto simp: console_works_def said_def idt_init_idtr)
qed

lemma bbind_assoc: "bbind (bbind r f) g = bbind r (\<lambda>x k. bbind (f x k) g)"
  by (auto simp: bbind_def split: option.split boot.split)

lemma kmain_greets:
  assumes start: "fresh k" "loopback_ok dev" "responses_present req"
  shows "\<exists>k3. kmain dev cur lk req k = bbind (after_greeting dev cur lk req k3) (\<lambda>_. halt) \<and> console_works dev k3
    \<and> said ([0, 3, 0xae] @ visible greeting) k3 \<and> length (gdt (gdts k3)) = 5 \<and> vm k3 = vm (boot_clear_bss lk k)"
proof -
  let ?k1 = "boot_clear_bss lk k"
  have con1: "con ?k1 = con k" "gdts ?k1 = gdts k" by (simp_all add: boot_clear_bss_def Let_def)
  from console_up_start [OF start(1,2)] obtain c where
    c: "console_kprintf dev greeting [] (console_up dev SERIAL_COM1_BASE (con k)) = Some c" "klog_ready dev c" "console_ok dev c"
      "line c = [0, 3, 0xae] @ visible greeting" by blast
  let ?k3 = "?k1\<lparr>con := c\<rparr>"
  have hello: "boot_kprintf dev greeting (?k1\<lparr>con := console_up dev SERIAL_COM1_BASE (con ?k1)\<rparr>) = Some (Goes () ?k3)"
    using c(1) by (simp add: boot_kprintf_def con1)
  have "kmain dev cur lk req k = bbind (after_greeting dev cur lk req ?k3) (\<lambda>_. halt)"
    unfolding kmain_def validate_cases greeting_def [symmetric] after_greeting_def Let_def bbind_assoc
    using start(3) hello by (simp add: bbind_def [of "Some (Goes () _)"])
  then show ?thesis
    using c start(1) con1 by (intro exI [of _ ?k3]) (simp add: console_works_def said_def fresh_def)
qed


definition ex_requests :: limine_requests where
  "ex_requests = initial_requests\<lparr>limine_base_revision := [0xf9562b2d5c95a6c8, 0x6a7b384944536bdc, 0],
     fb_request := (fb_request initial_requests)\<lparr>response := Some \<lparr>framebuffer_count = 1,
       framebuffers = [\<lparr>lfb_address = ex_hhdm + 0xFD000000, lfb_width = 640, lfb_height = 480, lfb_pitch = 2560, lfb_bpp = 32, lfb_memory_model = 1\<rparr>]\<rparr>\<rparr>,
     memmap_request := (memmap_request initial_requests)\<lparr>response := Some \<lparr>entries = ex_memmap\<rparr>\<rparr>,
     hhdm_request := (hhdm_request initial_requests)\<lparr>response := Some \<lparr>offset = ex_hhdm\<rparr>\<rparr>,
     address_request := (address_request initial_requests)\<lparr>response := Some \<lparr>physical_base = 0x100000, virtual_base = 0xFFFFFFFF80000000\<rparr>\<rparr>\<rparr>"


end
