(* ===== verification/Kernel_Boot.thy ===== *)
theory Kernel_Boot
  imports Boot_Memory Kernel_Properties Framebuffer_Properties
begin

text \<open>
  The start of the kernel on a machine with enough memory (\<open>kmain\<close> of \<open>src/src/kernel_entry.c\<close>): no step
  panics, and when the kernel halts, memory management, the descriptor tables and the screen are ready.
\<close>

section \<open>Memory management\<close>

text \<open>The address space \<open>r\<close> is in use and maps the given ranges and nothing else.\<close>

definition memory_up :: "range list \<Rightarrow> phys_addr_t \<Rightarrow> vm_state \<Rightarrow> bool" where
  "memory_up rs r s \<longleftrightarrow> vm_ok (s, {r}) \<and> cr3 s = r \<and> bit (efer s) 11 \<and> list_all (range_mapped s r) rs
     \<and> (\<forall>w. (\<forall>x\<in>set rs. page_of w \<notin> range_pages x) \<longrightarrow> page_entry s r w = None)"

text \<open>What is left for more ranges: where the managed memory is, and free frames for \<open>n\<close> tables.\<close>

definition memory_left :: "u64 \<Rightarrow> u64 \<Rightarrow> nat \<Rightarrow> vm_state \<Rightarrow> bool" where
  "memory_left hhdm frames n s \<longleftrightarrow> g_hhdm_offset s = hhdm \<and> total_frames s = frames \<and> bitmap_tracked s \<and> n \<le> card (free_frames s)"

lemma same_mm_calls: "same_mm s (s\<lparr>klog_calls := c\<rparr>)"
  by (simp add: same_mm_def)

lemma memory_calls:
  fixes s :: vm_state
  shows "memory_up rs r (s\<lparr>klog_calls := c\<rparr>) = memory_up rs r s" "memory_left h f n (s\<lparr>klog_calls := c\<rparr>) = memory_left h f n s"
    "init_ready pb vb seg (s\<lparr>klog_calls := c\<rparr>) = init_ready pb vb seg s" "init_ranges pb vb seg (s\<lparr>klog_calls := c\<rparr>) = init_ranges pb vb seg s"
proof -
  note m = same_mm_eq [OF same_mm_calls [of s c]]
  have b: "bitmap_frames (s\<lparr>klog_calls := c\<rparr>) = bitmap_frames s" by (simp add: bitmap_frames_def HHDM_VIRT_TO_PHYS_def)
  show r: "init_ranges pb vb seg (s\<lparr>klog_calls := c\<rparr>) = init_ranges pb vb seg s" by (simp add: init_ranges_def)
  show "memory_left h f n (s\<lparr>klog_calls := c\<rparr>) = memory_left h f n s" by (simp add: memory_left_def bitmap_tracked_def b m)
  show "init_ready pb vb seg (s\<lparr>klog_calls := c\<rparr>) = init_ready pb vb seg s"
    by (simp add: init_ready_def r m b bitmap_ok_def HHDM_VIRT_TO_PHYS_def local_tlb_def)
  show "memory_up rs r (s\<lparr>klog_calls := c\<rparr>) = memory_up rs r s"
    by (simp add: memory_up_def vm_ok_def m range_mapped_def kernel_entries_ok_def tlb_ok_def global_ok_def)
qed

lemma paging_init_up:
  fixes s :: vm_state
  assumes "init_ready pb vb seg s" and "memory_left h f (257 + sum_list (map range_cost (init_ranges pb vb seg s)) + n) s"
  shows "\<exists>r s'. paging_init pb vb seg s = Inr (r, s') \<and> memory_up (init_ranges pb vb seg s) r s' \<and> memory_left h f n s'"
proof -
  from paging_init_result [OF assms(1)] obtain r s' where r: "paging_init pb vb seg s = Inr (r, s')" "building r s s'"
    "card (free_frames s) \<le> card (free_frames s') + 257 + sum_list (map range_cost (init_ranges pb vb seg s))"
    "memory_up (init_ranges pb vb seg s) r s'" unfolding memory_up_def by blast
  moreover have "bitmap_frames s' = bitmap_frames s" using r(2) by (simp add: building_def bitmap_frames_def HHDM_VIRT_TO_PHYS_def)
  ultimately have "memory_left h f n s'" using assms(2) by (auto simp: memory_left_def bitmap_tracked_def building_def)
  with r(1,4) show ?thesis by blast
qed

definition kernel_ranges :: "link_symbols \<Rightarrow> limine_executable_address_response \<Rightarrow> u64 \<Rightarrow> limine_memmap_entry list \<Rightarrow> range list" where
  "kernel_ranges lk addr hhdm memmap =
     start_ranges (physical_base addr) (virtual_base addr) (segment_info lk) hhdm (init_total_frames memmap)"

lemma memory_init_succeeds:
  assumes up: "console_works dev k" "said l k" and tlb: "local_tlb (vm k)"
    and req: "response (memmap_request req) = Some mm" "response (hhdm_request req) = Some hh" "response (address_request req) = Some addr"
    and ready: "boot_ready (entries mm) (kernel_ranges lk addr (offset hh) (entries mm) @ xs)"
  shows "succeeds dev l (\<lambda>p k'. same_tables k k' \<and> memory_up (kernel_ranges lk addr (offset hh) (entries mm)) p (vm k')
      \<and> memory_left (offset hh) (init_total_frames (entries mm)) (sum_list (map range_cost xs)) (vm k'))
    (memory_init dev cur lk req k)"
proof -
  let ?pb = "physical_base addr" and ?vb = "virtual_base addr" and ?seg = "segment_info lk"
  let ?left = "memory_left (offset hh) (init_total_frames (entries mm))"
  let ?s0 = "vm k\<lparr>klog_calls := []\<rparr>"
  define rs where "rs = kernel_ranges lk addr (offset hh) (entries mm)"
  have "local_tlb ?s0" using tlb by (simp add: local_tlb_def)
  with pmm_init_ready [of "entries mm" ?pb ?vb ?seg "offset hh" xs ?s0] ready obtain t
    where t: "pmm_init (entries mm) (offset hh) ?s0 = Some (Inr ((), t))" "init_ready ?pb ?vb ?seg t"
      "init_ranges ?pb ?vb ?seg t = rs" "?left (257 + sum_list (map range_cost rs) + sum_list (map range_cost xs)) t"
    by (auto simp: memory_left_def rs_def kernel_ranges_def)
  have "logs_ok t" using pmm_init_logs [OF t(1) logs_ok_start] by simp
  note pmm = run_mm_succeeds [OF up, of "pmm_init (entries mm) (offset hh)", OF t(1) this]
  from paging_init_up [of ?pb ?vb ?seg "t\<lparr>klog_calls := []\<rparr>" "offset hh" "init_total_frames (entries mm)"
      "sum_list (map range_cost xs)"] t(2-4) obtain r s' where
    r: "paging_init ?pb ?vb ?seg (t\<lparr>klog_calls := []\<rparr>) = Inr (r, s')" "memory_up rs r s'" "?left (sum_list (map range_cost xs)) s'"
    by (auto simp: memory_calls)
  have logs: "logs_ok s'" using paging_init_logs [OF logs_ok_start [of t], of ?pb ?vb ?seg] r(1) by simp
  have pag: "succeeds dev l (\<lambda>x k'. x = r \<and> same_tables k1 k' \<and> vm k' = s')
      (run_mm dev cur (\<lambda>s. Some (paging_init ?pb ?vb ?seg s)) k1)" if "console_works dev k1" "said l k1" "vm k1 = t" for k1
    by (rule run_mm_succeeds [OF that(1,2) _ logs]) (simp add: that(3) r(1))
  show ?thesis
    unfolding memory_init_def req option.case prod.case Let_def
    apply (rule succeeds_bbind [OF pmm])
    apply (rule succeeds_bbind [OF boot_klogf_succeeds], assumption+, simp add: fmt_texts, simp)
    apply (rule succeeds_bbind [OF pag], assumption+, simp)
    apply (rule succeeds_bbind [OF boot_klogf_succeeds], assumption+, simp add: fmt_texts, simp)
    apply (rule succeeds_Goes, assumption+)
    using r(2,3) by (auto intro: same_tables_trans simp: rs_def)
qed

section \<open>The screen\<close>

definition screen_range :: "u64 \<Rightarrow> limine_framebuffer \<Rightarrow> range" where
  "screen_range hhdm fb = (lfb_address fb, lfb_address fb - hhdm, lfb_pitch fb * lfb_height fb, fb_flags)"

text \<open>A screen of the kind the driver expects, in physical memory above the managed frames.\<close>

definition screen_above :: "u64 \<Rightarrow> u64 \<Rightarrow> limine_framebuffer \<Rightarrow> bool" where
  "screen_above hhdm frames fb \<longleftrightarrow> lfb_memory_model fb = 1 \<and> fb_ok (screen_of fb)
     \<and> 4096 * unat frames \<le> unat (lfb_address fb - hhdm)
     \<and> unat (lfb_address fb - hhdm) + unat (lfb_pitch fb) * unat (lfb_height fb) \<le> 18446744073709551616"

lemma screen_not_free:
  assumes "screen_above (g_hhdm_offset s) (total_frames s) fb"
  shows "\<exists>c. pmm_is_frame_free (HHDM_VIRT_TO_PHYS s (lfb_address fb)) s = (False, s\<lparr>klog_calls := c\<rparr>)"
proof -
  have "unat (total_frames s) \<le> unat (HHDM_VIRT_TO_PHYS s (lfb_address fb)) div 4096"
    using assms by (simp add: screen_above_def HHDM_VIRT_TO_PHYS_def less_eq_div_iff_mult_less_eq mult.commute)
  then show ?thesis by (auto simp: pmm_is_frame_free_def Let_def unat_div klog_def)
qed

lemma screen_byte_untracked:
  assumes "screen_above (g_hhdm_offset s) (total_frames s) fb" and "fb_byte (screen_of fb) a"
  shows "\<not> tracked_byte s a"
proof -
  let ?d = "a - lfb_address fb" and ?p = "lfb_address fb - g_hhdm_offset s"
  have "4 * (unat (lfb_height fb) * (unat (lfb_pitch fb) div 4)) = (4 * (unat (lfb_pitch fb) div 4)) * unat (lfb_height fb)" by simp
  also have "\<dots> \<le> unat (lfb_pitch fb) * unat (lfb_height fb)" by (intro mult_le_mono1) simp
  finally have le: "4 * (unat (lfb_height fb) * (unat (lfb_pitch fb) div 4)) \<le> unat (lfb_pitch fb) * unat (lfb_height fb)" .
  have "unat ?d < 4 * (unat (lfb_height fb) * (unat (lfb_pitch fb) div 4))"
    using assms(2) by (simp add: fb_byte_def screen_of_def row_pixels_def)
  note order_less_le_trans [OF this le]
  then have "unat ?p + unat ?d < 18446744073709551616" using assms(1) by (simp add: screen_above_def)
  then have "unat (?p + ?d) = unat ?p + unat ?d" by (intro unat_add_u64) simp
  moreover have "?p + ?d = a - g_hhdm_offset s" by simp
  ultimately have "unat ?p \<le> unat (a - g_hhdm_offset s)" by (metis le_add1)
  then show ?thesis using assms(1) by (simp add: tracked_byte_def screen_above_def)
qed

lemma map_range_up:
  assumes up: "memory_up rs r s" and left: "memory_left h f (range_cost x) s" and good: "list_all range_good (rs @ [x])"
    and apart: "ranges_apart (rs @ [x])" and x: "x = (v, p, sz, fl)"
  shows "\<exists>s'. paging_map_range r v p sz fl s = Inr ((), s') \<and> memory_up (rs @ [x]) r s' \<and> memory_left h f 0 s'"
proof -
  have ok: "vm_ok (s, {r})" "high_range v (unat (PAGE_COUNT sz))" "IS_PAGE_ALIGNED p" "pte_present fl"
    "2 * tables_of v (unat (PAGE_COUNT sz)) \<le> card (free_frames s)"
    using up left good by (simp_all add: memory_up_def memory_left_def x range_good_def range_cost_def)
  from map_range_vm_ok [OF ok(1) _ refl ok(2-5), of r] obtain s' where s': "paging_map_range r v p sz fl s = Inr ((), s')" "vm_ok (s', {r})"
    "cr3 s' = cr3 s" "efer s' = efer s" "total_frames s' = total_frames s" "g_hhdm_offset s' = g_hhdm_offset s"
    "bitmap_start s' = bitmap_start s" "bitmap_size s' = bitmap_size s" "range_mapped s' r x"
    "\<And>w. page_of w \<notin> range_pages x \<Longrightarrow> page_entry s' r w = page_entry s r w"
    unfolding x range_mapped_def range_pages_def prod.case by (auto simp: image_iff)
  have "range_pages y \<inter> range_pages x = {}" if "y \<in> set rs" for y
    using range_apart_pages [of y x] good apart that by (simp add: list_all_iff ranges_apart_append)
  then have kept: "page_entry s' r w = page_entry s r w" if "y \<in> set rs" "page_of w \<in> range_pages y" for y w
    using s'(10) that by blast
  have "list_all (range_mapped s r) rs" using up by (simp add: memory_up_def)
  then have "list_all (range_mapped s' r) rs"
    unfolding list_all_iff
  proof (intro ballI)
    show "range_mapped s' r y" if "\<forall>y\<in>set rs. range_mapped s r y" "y \<in> set rs" for y
      by (rule range_mapped_kept [OF bspec [OF that] kept [OF that(2)]])
  qed
  then have "memory_up (rs @ [x]) r s'" using up s' by (simp add: memory_up_def)
  moreover have "bitmap_frames s' = bitmap_frames s" using s' by (simp add: bitmap_frames_def HHDM_VIRT_TO_PHYS_def)
  then have "memory_left h f 0 s'" using left s' by (auto simp: memory_left_def bitmap_tracked_def)
  ultimately show ?thesis using s'(1) by blast
qed

definition screen_color :: fb_color_t where
  "screen_color = \<lparr>red = 40, green = 40, blue = 60\<rparr>"

definition screen_painted :: "limine_framebuffer \<Rightarrow> vm_state \<Rightarrow> bool" where
  "screen_painted fb s \<longleftrightarrow>
     (\<forall>q. on_screen (screen_of fb) q \<longrightarrow> pixel_at (screen_of fb) (mem s) q = Some (color_int screen_color))"

lemma screen_up_memory:
  assumes up: "memory_up rs r (vm k)" and left: "memory_left h f n (vm k)" and fb: "screen_above h f fb"
  shows "memory_up rs r (vm (screen_up fb k))" and "screen_painted fb (vm (screen_up fb k))"
proof -
  let ?m = "fb_clear_screen screen_color (screen_of fb) (mem (vm k))"
  have ok: "fb_ok (screen_of fb)" "is_ready (screen_of fb)" using fb by (simp_all add: screen_above_def screen_of_def)
  have vm: "vm (screen_up fb k) = vm k\<lparr>mem := ?m\<rparr>" by (simp add: screen_up_def fb_init_def screen_of_def screen_color_def Let_def)
  have "?m a = mem (vm k) a" if "tracked_byte (vm k) a" for a
    using screen_byte_untracked [of "vm k" fb a] fb left that by (intro fb_clear_screen_frame [OF ok(1)]) (auto simp: memory_left_def)
  note u = untracked_write [OF _ _ this, of "{r}"]
  have "vm_ok (vm k, {r})" "bitmap_tracked (vm k)" using up left by (simp_all add: memory_up_def memory_left_def)
  from u [OF this] up show "memory_up rs r (vm (screen_up fb k))" by (simp add: vm memory_up_def range_mapped_def)
  show "screen_painted fb (vm (screen_up fb k))"
    using fb_clear_screen_pixel [OF ok] by (simp add: screen_painted_def vm)
qed

lemma screen_init_succeeds:
  assumes up: "console_works dev k" "said l k" and req: "response (fb_request req) = Some resp" "framebuffers resp = fb # fbs"
    and mem: "memory_up rs r (vm k)" "memory_left h f (range_cost (screen_range h fb)) (vm k)"
    and good: "list_all range_good (rs @ [screen_range h fb])" "ranges_apart (rs @ [screen_range h fb])" and fb: "screen_above h f fb"
  shows "succeeds dev l (\<lambda>_ k'. tables_and_screen k fb k' \<and> memory_up (rs @ [screen_range h fb]) r (vm k') \<and> screen_painted fb (vm k'))
    (screen_init dev cur req r k)"
    (is "succeeds dev l ?Q _")
proof -
  let ?x = "screen_range h fb" and ?s0 = "vm k\<lparr>klog_calls := []\<rparr>"
  have hh: "g_hhdm_offset (vm k) = h" "total_frames (vm k) = f" using mem(2) by (simp_all add: memory_left_def)
  have phys: "HHDM_VIRT_TO_PHYS u (lfb_address fb) = lfb_address fb - h" if "g_hhdm_offset u = h" for u :: vm_state
    using that by (simp add: HHDM_VIRT_TO_PHYS_def)
  from screen_not_free [of ?s0 fb] fb hh phys [of ?s0] obtain c where
    c: "pmm_is_frame_free (lfb_address fb - h) ?s0 = (False, vm k\<lparr>klog_calls := c\<rparr>)" by auto
  let ?s1 = "vm k\<lparr>klog_calls := c\<rparr>"
  have "logs_ok ?s1" using pmm_is_frame_free_logs [OF logs_ok_start [of "vm k"], of "lfb_address fb - h"] c by simp
  note free = run_mm_succeeds [OF up, of "\<lambda>s. Some (Inr (pmm_is_frame_free (lfb_address fb - h) s))" False ?s1, OF _ this]
  from map_range_up [of rs r "?s1\<lparr>klog_calls := []\<rparr>" h f ?x, OF _ _ good screen_range_def] mem obtain s' where
    s': "paging_map_range r (lfb_address fb) (lfb_address fb - h) (lfb_pitch fb * lfb_height fb) fb_flags (?s1\<lparr>klog_calls := []\<rparr>) = Inr ((), s')"
      "memory_up (rs @ [?x]) r s'" "memory_left h f 0 s'" by (auto simp only: memory_calls)
  have logs: "logs_ok s'"
    using paging_map_range_logs [OF logs_ok_start [of ?s1], of r "lfb_address fb" "lfb_address fb - h" "lfb_pitch fb * lfb_height fb" fb_flags] s'(1)
    by simp
  have map: "succeeds dev l (\<lambda>x k'. same_tables k1 k' \<and> vm k' = s')
      (run_mm dev cur (\<lambda>s. Some (paging_map_range r (lfb_address fb) (HHDM_VIRT_TO_PHYS (vm k1) (lfb_address fb)) (lfb_pitch fb * lfb_height fb) fb_flags s)) k1)"
    if "console_works dev k1" "said l k1" "vm k1 = ?s1" for k1
    by (rule succeeds_mono [OF run_mm_succeeds [OF that(1,2) _ logs]]) (use s'(1) that(3) phys [of ?s1] hh in auto)
  have shown: "succeeds dev l ?Q (boot_klogf dev cur (klog_level_info, ''Framebuffer up and working'', []) (screen_up fb k2))"
    if k2: "console_works dev k2" "said l k2" "same_tables k k2" "vm k2 = s'" for k2
  proof (rule succeeds_mono [OF boot_klogf_succeeds [OF screen_up_works(1) [OF k2(1)] screen_up_works(2) [OF k2(2)]]])
    fix k' assume k': "same_tables (screen_up fb k2) k' \<and> vm k' = vm (screen_up fb k2)"
    then have "tables_and_screen k fb k'" using tables_and_screen_trans [OF screen_up_works(3) [OF k2(3)]] by blast
    then show "?Q () k'"
      using screen_up_memory [of "rs @ [?x]" r k2 h f 0 fb] s'(2,3) fb k' k2(4) by simp
  qed (simp_all add: fmt_texts)
  have model: "(lfb_memory_model fb \<noteq> 1) = False" using fb by (simp add: screen_above_def)
  show ?thesis
    unfolding screen_init_def req option.map option.case list.case Let_def phys [OF hh(1)]
    unfolding model if_False
  proof (rule succeeds_bbind [OF free])
    show "Some (Inr (pmm_is_frame_free (lfb_address fb - h) ?s0)) = Some (Inr (False, ?s1))" by (simp add: c)
    fix free k1 assume k1: "console_works dev k1" "said l k1" and e: "free = False \<and> same_tables k k1 \<and> vm k1 = ?s1"
    from e have e: "free = False" "same_tables k k1" "vm k1 = ?s1" by blast+
    show "succeeds dev l ?Q (if free then boot_kpanic dev cur ''screen_init: framebuffer memory is free'' [] k1
        else bbind (run_mm dev cur (\<lambda>s. Some (paging_map_range r (lfb_address fb) (HHDM_VIRT_TO_PHYS (vm k1) (lfb_address fb))
            (lfb_pitch fb * lfb_height fb) fb_flags s)) k1)
          (\<lambda>_ k2. boot_klogf dev cur (klog_level_info, ''Framebuffer up and working'', []) (screen_up fb k2)))"
      unfolding e(1) if_False
      by (rule succeeds_bbind [OF map [OF k1 e(3)]], rule shown) (auto intro: same_tables_trans [OF e(2)])
  qed
qed

section \<open>The whole start\<close>

definition boot_ranges :: "link_symbols \<Rightarrow> limine_executable_address_response \<Rightarrow> u64 \<Rightarrow> limine_memmap_entry list \<Rightarrow>
    limine_framebuffer \<Rightarrow> range list" where
  "boot_ranges lk addr hhdm memmap fb = kernel_ranges lk addr hhdm memmap @ [screen_range hhdm fb]"

lemma after_greeting_succeeds:
  assumes k: "console_works dev k" "said l k" "length (gdt (gdts k)) = 5" "local_tlb (vm k)"
    and req: "response (memmap_request req) = Some mm" "response (hhdm_request req) = Some hh" "response (address_request req) = Some addr"
      "response (fb_request req) = Some resp" "framebuffers resp = fb # fbs"
    and ready: "boot_ready (entries mm) (boot_ranges lk addr (offset hh) (entries mm) fb)"
      "screen_above (offset hh) (init_total_frames (entries mm)) fb"
  shows "succeeds dev l (\<lambda>_ k'. gdtr (gdts k') = \<lparr>gdt_size = 39, gdt_address = gdt_table lk\<rparr>
      \<and> idtr (idts k') = \<lparr>idt_size = 4095, idt_address = idt_table lk\<rparr> \<and> framebuffer (con k') = screen_of fb
      \<and> (\<exists>r. memory_up (boot_ranges lk addr (offset hh) (entries mm) fb) r (vm k')) \<and> screen_painted fb (vm k'))
    (after_greeting dev cur lk req k)" (is "succeeds dev l ?Q _")
proof -
  let ?h = "offset hh" and ?f = "init_total_frames (entries mm)"
  let ?rs = "kernel_ranges lk addr ?h (entries mm)" and ?x = "screen_range ?h fb"
  let ?T = "\<lambda>k'. gdtr (gdts k') = \<lparr>gdt_size = 39, gdt_address = gdt_table lk\<rparr>"
  let ?U = "\<lambda>k'. ?T k' \<and> idtr (idts k') = \<lparr>idt_size = 4095, idt_address = idt_table lk\<rparr>"
  have good: "list_all range_good (?rs @ [?x])" "ranges_apart (?rs @ [?x])" using ready(1) by (simp_all add: boot_ready_def boot_ranges_def)
  have end_call: "succeeds dev l ?Q (boot_klogf dev cur (klog_level_info, ''Halting....'', []) k8)"
    if k8: "console_works dev k8" "said l k8" "?U k7" "tables_and_screen k7 fb k8" "memory_up (?rs @ [?x]) r (vm k8)" "screen_painted fb (vm k8)" for k7 k8 r
  proof (rule succeeds_mono [OF boot_klogf_succeeds [OF k8(1,2)]])
    fix k9 assume k9: "same_tables k8 k9 \<and> vm k9 = vm k8"
    then have "tables_and_screen k7 fb k9" using tables_and_screen_trans [OF k8(4)] by blast
    with k8 k9 show "?Q () k9" by (auto simp: tables_and_screen_def boot_ranges_def)
  qed (simp_all add: fmt_texts)
  have screen: "succeeds dev l ?Q (bbind (screen_init dev cur req r k7) (\<lambda>_. boot_klogf dev cur (klog_level_info, ''Halting....'', [])))"
    if "console_works dev k7" "said l k7" "?U k7" "memory_up ?rs r (vm k7)" "memory_left ?h ?f (range_cost ?x) (vm k7)" for k7 r
    by (rule succeeds_bbind [OF screen_init_succeeds [OF that(1,2) req(4,5) that(4,5) good ready(2)]]) (blast intro: end_call [OF _ _ that(3)])
  have memory: "succeeds dev l ?Q (bbind (memory_init dev cur lk req k6) (\<lambda>p k7. bbind (screen_init dev cur req p k7)
      (\<lambda>_. boot_klogf dev cur (klog_level_info, ''Halting....'', []))))"
    if "console_works dev k6" "said l k6" "?U k6" "vm k6 = vm k" for k6
  proof (rule succeeds_bbind [OF memory_init_succeeds [OF that(1,2) _ req(1-3), of lk "[?x]"]])
    show "local_tlb (vm k6)" "boot_ready (entries mm) (?rs @ [?x])" using k(4) that(4) ready(1) by (simp_all add: boot_ranges_def)
  qed (rule screen, use that(3) in \<open>auto simp: same_tables_def\<close>)
  have idt: "succeeds dev l ?Q (bbind (boot_klogf dev cur (klog_level_info, ''gdt and idt are working'', []) k5)
      (\<lambda>_ k6. bbind (memory_init dev cur lk req k6) (\<lambda>p k7. bbind (screen_init dev cur req p k7)
      (\<lambda>_. boot_klogf dev cur (klog_level_info, ''Halting....'', [])))))"
    if "console_works dev k5" "said l k5" "?U k5" "vm k5 = vm k" for k5
    by (rule succeeds_bbind [OF boot_klogf_succeeds [OF that(1,2)]], simp add: fmt_texts, simp, rule memory)
      (use that(3,4) in \<open>auto simp: same_tables_def\<close>)
  show ?thesis unfolding after_greeting_def
    by (rule succeeds_bbind [OF boot_gdt_init_succeeds [OF k(1-3)]], rule idt) (auto simp: console_works_def said_def idt_init_idtr)
qed

text \<open>C6: on a machine with a working serial port, enough memory and a screen above the managed memory,
  \<open>kmain\<close> does not panic: it halts with interrupts disabled, the descriptor tables loaded and the screen
  painted; the address space in use satisfies the paging invariant and maps the direct map, the
  segments of the kernel and the screen, each with its own rights, and nothing else.\<close>

theorem kmain_boots:
  assumes start: "fresh k" "loopback_ok dev" "responses_present req" "local_tlb (vm k)"
    and resp: "response (fb_request req) = Some resp" "framebuffers resp = fb # fbs" "response (memmap_request req) = Some mm"
      "response (hhdm_request req) = Some hh" "response (address_request req) = Some addr"
    and ready: "boot_ready (entries mm) (boot_ranges lk addr (offset hh) (entries mm) fb)"
      "screen_above (offset hh) (init_total_frames (entries mm)) fb"
  shows "\<exists>k' r. kmain dev cur lk req k = Some (Halted k') \<and> \<not> interrupts (con k') \<and> said ([0, 3, 0xae] @ visible greeting) k'
    \<and> gdtr (gdts k') = \<lparr>gdt_size = 39, gdt_address = gdt_table lk\<rparr> \<and> idtr (idts k') = \<lparr>idt_size = 4095, idt_address = idt_table lk\<rparr>
    \<and> framebuffer (con k') = screen_of fb \<and> screen_painted fb (vm k')
    \<and> vm_ok (vm k', {r}) \<and> cr3 (vm k') = r \<and> bit (efer (vm k')) 11
    \<and> list_all (range_mapped (vm k') r) (boot_ranges lk addr (offset hh) (entries mm) fb)
    \<and> (\<forall>w. (\<forall>x\<in>set (boot_ranges lk addr (offset hh) (entries mm) fb). page_of w \<notin> range_pages x) \<longrightarrow> page_entry (vm k') r w = None)"
proof -
  from kmain_greets [OF start(1-3)] obtain k3 where k3: "kmain dev cur lk req k = bbind (after_greeting dev cur lk req k3) (\<lambda>_. halt)"
    "console_works dev k3" "said ([0, 3, 0xae] @ visible greeting) k3" "length (gdt (gdts k3)) = 5" "vm k3 = vm (boot_clear_bss lk k)" by blast
  have "local_tlb (vm k3)" using start(4) k3(5) by (simp add: local_tlb_def boot_clear_bss_def Let_def)
  from after_greeting_succeeds [OF k3(2-4) this resp(3-5,1,2) ready, of cur] obtain k9 r where
    k9: "after_greeting dev cur lk req k3 = Some (Goes () k9)" "said ([0, 3, 0xae] @ visible greeting) k9"
      "gdtr (gdts k9) = \<lparr>gdt_size = 39, gdt_address = gdt_table lk\<rparr>" "idtr (idts k9) = \<lparr>idt_size = 4095, idt_address = idt_table lk\<rparr>"
      "framebuffer (con k9) = screen_of fb" "screen_painted fb (vm k9)" "memory_up (boot_ranges lk addr (offset hh) (entries mm) fb) r (vm k9)"
    unfolding succeeds_def by auto
  let ?k' = "k9\<lparr>con := con k9\<lparr>interrupts := False\<rparr>\<rparr>"
  have "kmain dev cur lk req k = Some (Halted ?k')" by (simp add: k3(1) k9(1) bbind_def halt_def)
  then show ?thesis
    using k9(2-7) unfolding memory_up_def by (intro exI [of _ ?k'] exI [of _ r]) (simp add: said_def line_def)
qed

section \<open>An example machine\<close>

definition ex_boot_memmap :: "limine_memmap_entry list" where
  "ex_boot_memmap =
     [\<lparr>entry_base = 0, entry_length = 0x1000, entry_type = LIMINE_MEMMAP_RESERVED\<rparr>,
      \<lparr>entry_base = 0x1000, entry_length = 0x3FF000, entry_type = LIMINE_MEMMAP_USABLE\<rparr>]"

definition ex_screen :: limine_framebuffer where
  "ex_screen = \<lparr>lfb_address = ex_hhdm + 0xFD000000, lfb_width = 640, lfb_height = 480, lfb_pitch = 2560, lfb_bpp = 32, lfb_memory_model = 1\<rparr>"

definition ex_boot_requests :: limine_requests where
  "ex_boot_requests = ex_requests
     \<lparr>memmap_request := (memmap_request initial_requests)\<lparr>response := Some \<lparr>entries = ex_boot_memmap\<rparr>\<rparr>,
      fb_request := (fb_request initial_requests)\<lparr>response := Some \<lparr>framebuffer_count = 1, framebuffers = [ex_screen]\<rparr>\<rparr>\<rparr>"

definition ex_base :: limine_executable_address_response where
  "ex_base = \<lparr>physical_base = 0x100000, virtual_base = 0xFFFFFFFF80000000\<rparr>"

lemma ex_boot_frames: "init_total_frames ex_boot_memmap = 1024" "init_bitmap_frames ex_boot_memmap = 1"
  by (simp_all add: ex_boot_memmap_def init_bitmap_frames_def init_bitmap_size_def init_total_frames_def
      bitmap_size_from_frames_def PAGE_COUNT_def PAGE_ALIGN_UP_def PAGE_MASK_def PAGE_SIZE_def
      LIMINE_MEMMAP_RESERVED_def LIMINE_MEMMAP_USABLE_def LIMINE_MEMMAP_FRAMEBUFFER_def LIMINE_MEMMAP_BAD_MEMORY_def)

lemma ex_boot_memmap_ok: "memmap_ok ex_boot_memmap" "bitmap_region_exists ex_boot_memmap" "usable_frames ex_boot_memmap = {1..<1024}"
  by (simp_all add: ex_boot_memmap_def memmap_ok_def bitmap_region_exists_def is_counted_def is_usable_def usable_frames_def entry_frames_def
      init_bitmap_size_def init_total_frames_def bitmap_size_from_frames_def PAGE_COUNT_def PAGE_ALIGN_UP_def
      PAGE_MASK_def PAGE_SIZE_def page_aligned_iff Pmm_Spec.frame_of_def LIMINE_MEMMAP_RESERVED_def LIMINE_MEMMAP_USABLE_def
      LIMINE_MEMMAP_FRAMEBUFFER_def LIMINE_MEMMAP_BAD_MEMORY_def)

lemma ex_boot_ready: "boot_ready ex_boot_memmap (boot_ranges ex_link ex_base ex_hhdm ex_boot_memmap ex_screen)"
proof -
  have c: "unat (PAGE_COUNT 0x1000) = 1" "unat (PAGE_COUNT 0x4000) = 4" "unat (PAGE_COUNT 0x3000) = 3" "unat (PAGE_COUNT 0x18000) = 24"
    "unat (PAGE_COUNT 0x400000) = 1024" "unat (PAGE_COUNT 0x12C000) = 300"
    by (simp_all add: unat_PAGE_COUNT)
  have rs: "boot_ranges ex_link ex_base ex_hhdm ex_boot_memmap ex_screen =
    [(0xFFFF800000000000, 0, 0x400000, PAGE_WRITABLE OR PAGE_GLOBAL OR PAGE_NO_EXECUTE OR PAGE_PRESENT),
     (0xFFFFFFFF80000000, 0x100000, 0x1000, PAGE_GLOBAL OR PAGE_NO_EXECUTE OR PAGE_PRESENT),
     (0xFFFFFFFF80001000, 0x101000, 0x4000, PAGE_GLOBAL OR PAGE_PRESENT),
     (0xFFFFFFFF80005000, 0x105000, 0x3000, PAGE_GLOBAL OR PAGE_NO_EXECUTE OR PAGE_PRESENT),
     (0xFFFFFFFF80008000, 0x108000, 0x18000, PAGE_GLOBAL OR PAGE_NO_EXECUTE OR PAGE_WRITABLE OR PAGE_PRESENT),
     (0xFFFF8000FD000000, 0xFD000000, 0x12C000, fb_flags)]"
    by (simp add: boot_ranges_def kernel_ranges_def start_ranges_def kernel_range_def screen_range_def segment_info_def ex_link_def
        ex_base_def ex_hhdm_def ex_screen_def ex_boot_frames PAGE_ALIGN_UP_def PAGE_MASK_def PAGE_SIZE_def)
  have fl: "pte_present (x OR PAGE_PRESENT)" for x by (simp add: pte_present_bit bit_or_iff PAGE_PRESENT_def)
  have good: "list_all range_good (boot_ranges ex_link ex_base ex_hhdm ex_boot_memmap ex_screen)"
    unfolding rs using fl by (simp add: range_good_def high_range_def c page_aligned_iff fb_flags_def or.assoc [symmetric])
  have apart: "ranges_apart (boot_ranges ex_link ex_base ex_hhdm ex_boot_memmap ex_screen)"
    unfolding rs by (simp add: range_apart_def c)
  have "range_cost (v, p, sz, fl) \<le> 2 * (unat (PAGE_COUNT sz) div 512 + 2)" for v p sz fl
    using tables_of_bound [of v "unat (PAGE_COUNT sz)"] by (simp add: range_cost_def)
  note cost = this [of _ _ "0x1000"] this [of _ _ "0x4000"] this [of _ _ "0x3000"] this [of _ _ "0x18000"] this [of _ _ "0x400000"] this [of _ _ "0x12C000"]
  have "sum_list (map range_cost (boot_ranges ex_link ex_base ex_hhdm ex_boot_memmap ex_screen)) \<le> 8 + (4 + (4 + (4 + (4 + 4))))"
    unfolding rs list.map sum_list.Cons sum_list.Nil add_0_right
    by (intro add_mono; rule order_trans [OF cost(1)] order_trans [OF cost(2)] order_trans [OF cost(3)] order_trans [OF cost(4)]
        order_trans [OF cost(5)] order_trans [OF cost(6)]; simp add: c)
  then show ?thesis using good apart ex_boot_memmap_ok by (simp add: boot_ready_def ex_boot_frames)
qed

theorem kmain_boots_witness:
  "\<exists>k' r. kmain ex_uart 0 ex_link ex_boot_requests ex_kernel = Some (Halted k') \<and> vm_ok (vm k', {r}) \<and> cr3 (vm k') = r
    \<and> screen_painted ex_screen (vm k')"
proof -
  have "fresh ex_kernel" using boot_sinks_ok by (simp add: fresh_def ex_kernel_def boot_gdt_def boot_console_def)
  moreover have "loopback_ok ex_uart" using ex_uart_transmits by (simp add: loopback_ok_def SERIAL_COM1_BASE_def ex_uart_def)
  moreover have "responses_present ex_boot_requests" by (simp add: responses_present_def ex_boot_requests_def ex_requests_def)
  moreover have "local_tlb (vm ex_kernel)" by (simp add: local_tlb_def ex_kernel_def ex_state_def)
  moreover have "response (fb_request ex_boot_requests) = Some \<lparr>framebuffer_count = 1, framebuffers = [ex_screen]\<rparr>"
      "response (memmap_request ex_boot_requests) = Some \<lparr>entries = ex_boot_memmap\<rparr>" "response (hhdm_request ex_boot_requests) = Some \<lparr>offset = ex_hhdm\<rparr>"
      "response (address_request ex_boot_requests) = Some ex_base" by (simp_all add: ex_boot_requests_def ex_requests_def ex_base_def)
  moreover have "screen_above ex_hhdm (init_total_frames ex_boot_memmap) ex_screen"
    by (simp add: screen_above_def ex_screen_def screen_of_def fb_ok_def row_pixels_def ex_hhdm_def ex_boot_frames)
  ultimately show ?thesis
    using kmain_boots [of ex_kernel ex_uart ex_boot_requests _ ex_screen "[]" "\<lparr>entries = ex_boot_memmap\<rparr>" "\<lparr>offset = ex_hhdm\<rparr>" ex_base ex_link 0]
      ex_boot_ready by fastforce
qed

end
