(* ===== verification/Limine_Arith.thy ===== *)
theory Limine_Arith
  imports Prelude
begin

text \<open>
  The helper functions of the boot loader installer (\<open>src/limine/limine.c\<close>): checked 64-bit
  arithmetic, byte order conversion, the conversion of block numbers to cylinder, head and sector,
  and the table of partition types. Integers that are read from and written to the device pass
  through memory in the byte order of the host, so \<open>native_load\<close> and \<open>native_store\<close> take it as a
  parameter.
\<close>

section \<open>Checked arithmetic\<close>

text \<open>The result, and whether it overflowed.\<close>

definition mul_u64_overflow :: "u64 \<Rightarrow> u64 \<Rightarrow> bool \<times> u64" where
  "mul_u64_overflow a b = (a \<noteq> 0 \<and> b > (- 1) div a, a * b)"

definition add_u64_overflow :: "u64 \<Rightarrow> u64 \<Rightarrow> bool \<times> u64" where
  "add_u64_overflow a b = (a > - 1 - b, a + b)"

section \<open>Byte order\<close>

definition endswap16 :: "u16 \<Rightarrow> u16" where
  "endswap16 v = (drop_bit 8 v AND 0x00FF) OR (push_bit 8 v AND 0xFF00)"

definition endswap32 :: "u32 \<Rightarrow> u32" where
  "endswap32 v = (drop_bit 24 v AND 0x000000FF) OR (drop_bit 8 v AND 0x0000FF00)
     OR (push_bit 8 v AND 0x00FF0000) OR (push_bit 24 v AND 0xFF000000)"

definition endswap64 :: "u64 \<Rightarrow> u64" where
  "endswap64 v = (drop_bit 56 v AND 0x00000000000000FF) OR (drop_bit 40 v AND 0x000000000000FF00)
     OR (drop_bit 24 v AND 0x0000000000FF0000) OR (drop_bit 8 v AND 0x00000000FF000000)
     OR (push_bit 8 v AND 0x000000FF00000000) OR (push_bit 24 v AND 0x0000FF0000000000)
     OR (push_bit 40 v AND 0x00FF000000000000) OR (push_bit 56 v AND 0xFF00000000000000)"

text \<open>The macro \<open>ENDSWAP\<close> at its three sizes; \<open>be\<close> is the constant \<open>bigendian\<close>.\<close>

definition ENDSWAP16 :: "bool \<Rightarrow> u16 \<Rightarrow> u16" where
  "ENDSWAP16 be v = (if be then endswap16 v else v)"

definition ENDSWAP32 :: "bool \<Rightarrow> u32 \<Rightarrow> u32" where
  "ENDSWAP32 be v = (if be then endswap32 v else v)"

definition ENDSWAP64 :: "bool \<Rightarrow> u64 \<Rightarrow> u64" where
  "ENDSWAP64 be v = (if be then endswap64 v else v)"

text \<open>The bytes of an integer, the least significant first, and the integer of such bytes.\<close>

definition word_bytes :: "nat \<Rightarrow> 'a::len word \<Rightarrow> u8 list" where
  "word_bytes n w = map (\<lambda>i. ucast (drop_bit (8 * i) w)) [0..<n]"

fun bytes_word :: "u8 list \<Rightarrow> 'a::len word" where
  "bytes_word [] = 0"
| "bytes_word (b # bs) = ucast b OR push_bit 8 (bytes_word bs)"

definition native_load :: "bool \<Rightarrow> u8 list \<Rightarrow> 'a::len word" where
  "native_load be bs = bytes_word (if be then rev bs else bs)"

definition native_store :: "bool \<Rightarrow> nat \<Rightarrow> 'a::len word \<Rightarrow> u8 list" where
  "native_store be n w = (if be then rev (word_bytes n w) else word_bytes n w)"

section \<open>Cylinder, head and sector\<close>

definition lba2chs :: "u64 \<Rightarrow> u8 list" where
  "lba2chs lba =
     (let cylinder = lba div (255 * 63) in
      if lba > 63 * 255 * 1024 \<or> cylinder \<ge> 1024 then [0xFE, 0xFF, 0xFF]
      else
        let head = (lba div 63) mod 255; sector = (lba mod 63) + 1 in
        [ucast head, ucast (drop_bit 2 cylinder AND 0xC0) OR ucast (sector AND 0x3F), ucast cylinder])"

text \<open>The block number that a BIOS with 255 heads and 63 sectors per track reads from the three bytes.\<close>

definition chs2lba :: "u8 list \<Rightarrow> nat" where
  "chs2lba chs = (case chs of [h, sc, c] \<Rightarrow>
     ((unat c + 256 * unat (drop_bit 6 sc)) * 255 + unat h) * 63 + unat (sc AND 0x3F) - 1)"

section \<open>Partition types\<close>

record gpt2mbr_type_conv =
  gpt_type1 :: u64
  gpt_type2 :: u64
  mbr_type :: u8

definition gpt2mbr_type_conv_table :: "gpt2mbr_type_conv list" where
  "gpt2mbr_type_conv_table =
    [\<lparr>gpt_type1 = 0x11d2f81fc12a7328, gpt_type2 = 0x3bc93ec9a0004bba, mbr_type = 0xef\<rparr>,
     \<lparr>gpt_type1 = 0x4433b9e5ebd0a0a2, gpt_type2 = 0xc79926b7b668c087, mbr_type = 0x07\<rparr>,
     \<lparr>gpt_type1 = 0x11aa000048465300, gpt_type2 = 0xacec4365300011aa, mbr_type = 0xaf\<rparr>]"

fun gpt2mbr_lookup :: "gpt2mbr_type_conv list \<Rightarrow> u64 \<Rightarrow> u64 \<Rightarrow> int" where
  "gpt2mbr_lookup [] t1 t2 = - 1"
| "gpt2mbr_lookup (e # es) t1 t2 =
     (if gpt_type1 e = t1 \<and> gpt_type2 e = t2 then uint (mbr_type e) else gpt2mbr_lookup es t1 t2)"

definition gpt2mbr_type :: "u64 \<Rightarrow> u64 \<Rightarrow> int" where
  "gpt2mbr_type t1 t2 = gpt2mbr_lookup gpt2mbr_type_conv_table t1 t2"

section \<open>Arithmetic is exact unless it reports an overflow\<close>

lemma unat_max_u64: "unat (- 1 :: u64) = 18446744073709551615"
  by (simp add: unsigned_minus_1_eq_mask mask_eq_exp_minus_1)

lemma mul_u64_overflow_iff: "fst (mul_u64_overflow a b) \<longleftrightarrow> 18446744073709551616 \<le> unat a * unat b"
proof (cases "a = 0")
  case False
  then have pos: "0 < unat a" by (simp add: unat_gt_0)
  have "b > (- 1) div a \<longleftrightarrow> 18446744073709551615 div unat a < unat b"
    by (simp add: word_less_nat_alt unat_div_distrib unat_max_u64)
  also have "\<dots> \<longleftrightarrow> 18446744073709551615 < unat b * unat a"
    using pos by (rule div_less_iff_less_mult)
  also have "\<dots> \<longleftrightarrow> 18446744073709551616 \<le> unat a * unat b" by (auto simp: mult.commute)
  finally show ?thesis using False by (simp add: mul_u64_overflow_def)
qed (simp add: mul_u64_overflow_def)

lemma mul_u64_exact: "\<not> fst (mul_u64_overflow a b) \<Longrightarrow> unat (snd (mul_u64_overflow a b)) = unat a * unat b"
  unfolding mul_u64_overflow_iff by (simp add: mul_u64_overflow_def kunat)

lemma add_u64_overflow_iff: "fst (add_u64_overflow a b) \<longleftrightarrow> 18446744073709551616 \<le> unat a + unat b"
proof -
  have "unat (- 1 - b) = 18446744073709551615 - unat b" 
  proof (subst unat_sub_u64)
    show "unat b \<le> unat (- 1 :: u64)" using unat_u64_less [of b] unfolding unat_max_u64 by linarith
  qed (simp add: unat_max_u64)
  then show ?thesis using unat_u64_less [of b] unfolding add_u64_overflow_def word_less_nat_alt fst_conv by linarith
qed

lemma add_u64_exact: "\<not> fst (add_u64_overflow a b) \<Longrightarrow> unat (snd (add_u64_overflow a b)) = unat a + unat b"
  unfolding add_u64_overflow_iff by (simp add: add_u64_overflow_def kunat)

section \<open>Integers on the device\<close>

lemma length_word_bytes [simp]: "length (word_bytes n w) = n"
  by (simp add: word_bytes_def)

lemma length_native_store [simp]: "length (native_store be n w) = n"
  by (simp add: native_store_def)

lemma bit_bytes_word:
  "bit (bytes_word bs :: 'a::len word) k \<longleftrightarrow> k < LENGTH('a) \<and> k div 8 < length bs \<and> bit (bs ! (k div 8)) (k mod 8)"
proof (induction bs arbitrary: k)
  case (Cons b bs)
  show ?case
  proof (cases "k < 8")
    case True
    then show ?thesis by (auto simp: bit_or_iff bit_unsigned_iff bit_push_bit_iff)
  next
    case False
    then obtain j where k: "k = j + 8" by (metis add.commute le_add_diff_inverse not_less)
    have "\<not> bit b k" using False by (auto dest: bit_imp_le_length)
    moreover have "(j + 8) div 8 = Suc (j div 8)" by simp
    ultimately show ?thesis using Cons.IH [of j] by (auto simp: k bit_or_iff bit_unsigned_iff bit_push_bit_iff)
  qed
qed simp

lemma bytes_word_word_bytes:
  assumes "LENGTH('a) \<le> 8 * n"
  shows "bytes_word (word_bytes n (w :: 'a::len word)) = w"
proof (rule bit_word_eqI)
  fix k assume "k < LENGTH('a)"
  moreover from this have "k div 8 < n" using assms by linarith
  moreover have "8 * (k div 8) + k mod 8 = k" by simp
  ultimately show "bit (bytes_word (word_bytes n w) :: 'a word) k = bit w k"
    by (simp add: bit_bytes_word word_bytes_def bit_unsigned_iff bit_drop_bit_eq)
qed

lemma native_load_store:
  "LENGTH('a) \<le> 8 * n \<Longrightarrow> native_load be (native_store be n (w :: 'a::len word)) = w"
  by (simp add: native_load_def native_store_def bytes_word_word_bytes)

text \<open>The masks of the conversion functions select one byte each.\<close>

lemma byte_masks:
  "(0xFF :: 'a::len word) = mask 8"
  "(0xFF00 :: 'a word) = push_bit 8 (mask 8)"
  "(0xFF0000 :: 'a word) = push_bit 16 (mask 8)"
  "(0xFF000000 :: 'a word) = push_bit 24 (mask 8)"
  "(0xFF00000000 :: 'a word) = push_bit 32 (mask 8)"
  "(0xFF0000000000 :: 'a word) = push_bit 40 (mask 8)"
  "(0xFF000000000000 :: 'a word) = push_bit 48 (mask 8)"
  "(0xFF00000000000000 :: 'a word) = push_bit 56 (mask 8)"
  by (simp_all add: mask_eq_exp_minus_1 push_bit_eq_mult)

lemmas bit_byte_mask = bit_and_iff bit_or_iff bit_push_bit_iff bit_drop_bit_eq bit_mask_iff

lemma bit_endswap:
  "bit (endswap16 v) k \<longleftrightarrow> k < 16 \<and> bit v (8 * (1 - k div 8) + k mod 8)"
  "bit (endswap32 w) k \<longleftrightarrow> k < 32 \<and> bit w (8 * (3 - k div 8) + k mod 8)"
  "bit (endswap64 x) k \<longleftrightarrow> k < 64 \<and> bit x (8 * (7 - k div 8) + k mod 8)"
proof -
  define j r where "j = k div 8" and "r = k mod 8"
  have k: "k = 8 * j + r" and r: "r < 8" by (simp_all add: j_def r_def)
  have d: "(8 * j + r) div 8 = j" "(8 * j + r) mod 8 = r" using r by simp_all
  have j: "j = 0 \<or> j = 1 \<or> j = 2 \<or> j = 3 \<or> j = 4 \<or> j = 5 \<or> j = 6 \<or> j = 7 \<or> 8 \<le> j" by arith
  show "bit (endswap16 v) k \<longleftrightarrow> k < 16 \<and> bit v (8 * (1 - k div 8) + k mod 8)"
    using j r unfolding endswap16_def byte_masks k d
    by (elim disjE) (auto simp: bit_byte_mask add.commute dest: bit_imp_le_length)
  show "bit (endswap32 w) k \<longleftrightarrow> k < 32 \<and> bit w (8 * (3 - k div 8) + k mod 8)"
    using j r unfolding endswap32_def byte_masks k d
    by (elim disjE) (auto simp: bit_byte_mask add.commute dest: bit_imp_le_length)
  show "bit (endswap64 x) k \<longleftrightarrow> k < 64 \<and> bit x (8 * (7 - k div 8) + k mod 8)"
    using j r unfolding endswap64_def byte_masks k d
    by (elim disjE) (auto simp: bit_byte_mask add.commute dest: bit_imp_le_length)
qed

lemma endswap_bytes:
  "length bs = 2 \<Longrightarrow> endswap16 (bytes_word (rev bs)) = bytes_word bs"
  "length bs = 4 \<Longrightarrow> endswap32 (bytes_word (rev bs)) = bytes_word bs"
  "length bs = 8 \<Longrightarrow> endswap64 (bytes_word (rev bs)) = bytes_word bs"
  by (auto intro!: bit_word_eqI simp: bit_endswap bit_bytes_word rev_nth)

lemma ENDSWAP_native_load [simp]:
  "length bs = 2 \<Longrightarrow> ENDSWAP16 be (native_load be bs) = bytes_word bs"
  "length bs = 4 \<Longrightarrow> ENDSWAP32 be (native_load be bs) = bytes_word bs"
  "length bs = 8 \<Longrightarrow> ENDSWAP64 be (native_load be bs) = bytes_word bs"
  by (simp_all add: ENDSWAP16_def ENDSWAP32_def ENDSWAP64_def native_load_def endswap_bytes)

lemma endswap_involution [simp]: "endswap16 (endswap16 v) = v" "endswap32 (endswap32 w) = w" "endswap64 (endswap64 x) = x"
  by (auto intro!: bit_word_eqI simp: bit_endswap)

lemma word_bytes_bytes_word:
  assumes "8 * length bs \<le> LENGTH('a)"
  shows "word_bytes (length bs) (bytes_word bs :: 'a::len word) = bs"
proof (rule nth_equalityI)
  fix i assume i: "i < length (word_bytes (length bs) (bytes_word bs :: 'a word))"
  show "word_bytes (length bs) (bytes_word bs :: 'a word) ! i = bs ! i"
  proof (rule bit_word_eqI)
    fix k assume "k < LENGTH(8)"
    then have "k < 8" by simp
    moreover have "(8 * i + k) div 8 = i" "(8 * i + k) mod 8 = k" using \<open>k < 8\<close> by simp_all
    moreover have "8 * i + k < LENGTH('a)" using i assms \<open>k < 8\<close> by simp
    ultimately show "bit (word_bytes (length bs) (bytes_word bs :: 'a word) ! i) k = bit (bs ! i) k"
      using i by (simp add: word_bytes_def bit_unsigned_iff bit_drop_bit_eq bit_bytes_word)
  qed
qed simp

lemma native_store_ENDSWAP [simp]:
  "native_store be 2 (ENDSWAP16 be v) = word_bytes 2 v"
  "native_store be 4 (ENDSWAP32 be w) = word_bytes 4 w"
  "native_store be 8 (ENDSWAP64 be x) = word_bytes 8 x"
proof -
  have *: "rev (word_bytes n y) = word_bytes n z"
    if "bytes_word (rev (word_bytes n y)) = z" "8 * n \<le> LENGTH('a)" for n and y z :: "'a::len word"
    using that word_bytes_bytes_word [of "rev (word_bytes n y)", where 'a = 'a] by simp
  have "bytes_word (rev (word_bytes 2 (endswap16 v))) = v"
    using endswap_bytes(1) [of "word_bytes 2 (endswap16 v)"] by (simp add: bytes_word_word_bytes) (metis endswap_involution(1))
  then have "rev (word_bytes 2 (endswap16 v)) = word_bytes 2 v" by (rule *) simp
  moreover have "bytes_word (rev (word_bytes 4 (endswap32 w))) = w"
    using endswap_bytes(2) [of "word_bytes 4 (endswap32 w)"] by (simp add: bytes_word_word_bytes) (metis endswap_involution(2))
  then have "rev (word_bytes 4 (endswap32 w)) = word_bytes 4 w" by (rule *) simp
  moreover have "bytes_word (rev (word_bytes 8 (endswap64 x))) = x"
    using endswap_bytes(3) [of "word_bytes 8 (endswap64 x)"] by (simp add: bytes_word_word_bytes) (metis endswap_involution(3))
  then have "rev (word_bytes 8 (endswap64 x)) = word_bytes 8 x" by (rule *) simp
  ultimately show "native_store be 2 (ENDSWAP16 be v) = word_bytes 2 v"
    "native_store be 4 (ENDSWAP32 be w) = word_bytes 4 w" "native_store be 8 (ENDSWAP64 be x) = word_bytes 8 x"
    by (simp_all add: native_store_def ENDSWAP16_def ENDSWAP32_def ENDSWAP64_def)
qed

section \<open>Cylinder, head and sector as the BIOS reads them\<close>

lemma unat_and_mask6: "unat (w AND 0x3F) = unat w mod 64" for w :: "'a::len word"
proof -
  have "(0x3F :: 'a word) = mask 6" by (simp add: mask_eq_exp_minus_1)
  then have "unat (w AND 0x3F) = take_bit 6 (unat w)"
    by (simp only: take_bit_eq_mask [symmetric] unsigned_take_bit_eq)
  then show ?thesis by (simp add: take_bit_eq_mod)
qed

lemma chs_sector_byte:
  assumes "unat (c :: u64) < 1024" and "0 < unat (s :: u64)" and "unat s < 64"
  defines "b \<equiv> (ucast (drop_bit 2 c AND 0xC0) OR ucast (s AND 0x3F) :: u8)"
  shows "unat (b AND 0x3F) = unat s" and "unat (drop_bit 6 b) = unat c div 256"
proof -
  have small: "\<not> bit x k" if "unat x < 2 ^ n" "n \<le> k" for x :: u64 and n k
  proof -
    have "unat x < 2 ^ k" using that by (meson one_le_numeral order_less_le_trans power_increasing)
    then have "\<not> bit (unat x) k" by (simp add: bit_iff_odd)
    then show ?thesis by (simp add: bit_unsigned_iff)
  qed
  have c: "(0xC0 :: u64) = push_bit 6 (mask 2)" and s: "(0x3F :: 'b::len word) = mask 6"
    by (simp_all add: mask_eq_exp_minus_1 push_bit_eq_mult)
  have b: "bit b k \<longleftrightarrow> k < 8 \<and> (if k < 6 then bit s k else bit c (k + 2))" for k
    unfolding b_def c s by (auto simp: bit_byte_mask bit_unsigned_iff add.commute)
  have "b AND 0x3F = ucast s"
    unfolding s using small [of s 6] assms(3)
    by (intro bit_word_eqI) (auto simp: bit_byte_mask bit_unsigned_iff b)
  then show "unat (b AND 0x3F) = unat s" using assms(3) by (simp add: unsigned_ucast_eq take_bit_eq_mod)
  have "drop_bit 6 b = ucast (drop_bit 8 c)"
    using small [of c 10 "k + 8" for k] assms(1)
    by (intro bit_word_eqI) (fastforce simp: bit_drop_bit_eq bit_unsigned_iff b add.commute not_less [symmetric])
  then show "unat (drop_bit 6 b) = unat c div 256" using assms(1)
    by (simp add: unsigned_ucast_eq take_bit_eq_mod drop_bit_eq_div unat_div_distrib)
qed

lemma lba2chs_small:
  assumes "unat lba < 63 * 255 * 1024"
  shows "chs2lba (lba2chs lba) = unat lba" and "\<exists>h sc c. lba2chs lba = [h, sc, c] \<and> unat h < 255 \<and> sc AND 0x3F \<noteq> 0"
proof -
  define c h s where "c = lba div (255 * 63)" and "h = (lba div 63) mod 255" and "s = (lba mod 63) + 1"
  have uc: "unat c = unat lba div 16065" by (simp add: c_def unat_div_distrib)
  have uh: "unat h = unat lba div 63 mod 255" by (simp add: h_def unat_div_distrib unat_mod_distrib)
  have "unat lba mod 63 < 63" by simp
  then have us: "unat s = unat lba mod 63 + 1"
    unfolding s_def by (subst unat_add_u64) (simp_all add: unat_mod_distrib)
  have c_small: "unat c < 1024" using assms uc by linarith
  have le: "\<not> lba > 63 * 255 * 1024" "\<not> c \<ge> 1024"
    using assms c_small by (simp_all add: word_less_nat_alt word_le_nat_alt)
  have chs: "lba2chs lba = [ucast h, ucast (drop_bit 2 c AND 0xC0) OR ucast (s AND 0x3F), ucast c]"
    using le by (simp add: lba2chs_def Let_def c_def h_def s_def)
  have sb: "0 < unat s" "unat s < 64" using us \<open>unat lba mod 63 < 63\<close> by linarith+
  note byte = chs_sector_byte [OF c_small sb]
  have "unat (ucast h :: u8) = unat h" "unat h < 255" using uh by (simp_all add: unsigned_ucast_eq take_bit_eq_mod)
  moreover have "unat (ucast c :: u8) = unat c mod 256" by (simp add: unsigned_ucast_eq take_bit_eq_mod)
  ultimately have "chs2lba (lba2chs lba) = ((unat c mod 256 + 256 * (unat c div 256)) * 255 + unat h) * 63 + unat s - 1"
    unfolding chs chs2lba_def list.case byte by simp
  also have "\<dots> = (unat c * 255 + unat h) * 63 + unat s - 1" by simp
  also have "unat c * 255 + unat h = unat lba div 63"
    using div_mult_mod_eq [of "unat lba div 63" 255] by (simp add: uc uh div_mult2_eq [symmetric])
  finally show "chs2lba (lba2chs lba) = unat lba" by (simp add: us)
  show "\<exists>h sc c. lba2chs lba = [h, sc, c] \<and> unat h < 255 \<and> sc AND 0x3F \<noteq> 0"
    unfolding chs using \<open>unat (ucast h :: u8) = unat h\<close> \<open>unat h < 255\<close> byte(1) sb(1) by (auto simp: unat_0_iff)
qed

lemma lba2chs_large: "63 * 255 * 1024 \<le> unat lba \<Longrightarrow> lba2chs lba = [0xFE, 0xFF, 0xFF]"
proof -
  assume "63 * 255 * 1024 \<le> unat lba"
  then have "1024 \<le> unat (lba div (255 * 63))" by (simp add: unat_div_distrib)
  then have "lba div (255 * 63) \<ge> 1024" by (simp add: word_le_nat_alt)
  then show ?thesis by (simp add: lba2chs_def Let_def)
qed

end
