(* ===== verification/Limine_Host.thy ===== *)
theory Limine_Host
  imports Limine_Arith
begin

text \<open>
  The host side of the installer (\<open>src/limine/limine.c\<close>): how a step of the program ends, the state of
  its static variables and of the two files it works on (the device and the file with the uninstall
  data), and the library calls it makes. Every library call that can fail is numbered; \<open>call_ok\<close> of
  the host says which calls succeed. What a failing transfer leaves behind is not determined by C, so
  it is up to the host as well: \<open>junk\<close> is what a failing \<open>fread\<close> puts into the buffer, \<open>torn\<close> how many
  bytes a failing \<open>fwrite\<close> has written. Diagnostic messages are not modelled.
\<close>

section \<open>How a step ends\<close>

text \<open>
  \<open>Ok\<close>: the step succeeded, with a value; \<open>Fail\<close>: it returned false, and the caller goes to its cleanup;
  \<open>Crash\<close>: the behaviour is undefined (division by zero, an invalid \<open>free\<close>, an access outside an array).
\<close>

datatype ('a, 's) run = Ok 'a 's | Fail 's | Crash

definition run_bind :: "('a, 's) run \<Rightarrow> ('a \<Rightarrow> 's \<Rightarrow> ('b, 's) run) \<Rightarrow> ('b, 's) run" where
  "run_bind r f = (case r of Ok x s \<Rightarrow> f x s | Fail s \<Rightarrow> Fail s | Crash \<Rightarrow> Crash)"

lemma run_bind_simps [simp]:
  "run_bind (Ok x s) f = f x s" "run_bind (Fail s) f = Fail s" "run_bind Crash f = Crash"
  by (simp_all add: run_bind_def)

lemma run_bind_cong [fundef_cong]:
  "r = r' \<Longrightarrow> (\<And>x s. r' = Ok x s \<Longrightarrow> f x s = g x s) \<Longrightarrow> run_bind r f = run_bind r' g"
  by (cases r') auto

text \<open>A counted loop over the values of its counter.\<close>

fun run_for :: "'i list \<Rightarrow> ('i \<Rightarrow> 's \<Rightarrow> (unit, 's) run) \<Rightarrow> 's \<Rightarrow> (unit, 's) run" where
  "run_for [] body s = Ok () s"
| "run_for (i # is) body s = run_bind (body i s) (\<lambda>_. run_for is body)"

section \<open>State\<close>

record host =
  call_ok :: "nat \<Rightarrow> bool"
  junk :: "nat \<Rightarrow> u8 list"
  torn :: "nat \<Rightarrow> nat"
  random_byte :: "nat \<Rightarrow> u8"
  sizeof_long :: nat
  bigendian :: bool

datatype cache_state = CACHE_CLEAN | CACHE_DIRTY

text \<open>A pointer to a heap block that holds bytes: null, valid, or already freed.\<close>

datatype heap_bytes = Null | Live "u8 list" | Freed

record uninstall_data =
  ud_data :: heap_bytes
  ud_loc :: u64
  ud_count :: u64

definition UNINSTALL_DATA_MAX :: nat where
  "UNINSTALL_DATA_MAX = 256"

text \<open>
  The static variables, the contents and position of the open device (\<open>disk\<close>, \<open>fpos\<close>), the contents of
  the uninstall data file if there is one, and the number of library calls made.
\<close>

record installer =
  disk :: "u8 list"
  fpos :: nat
  udfile :: "u8 list option"
  calls :: nat
  cache_state :: cache_state
  cached_block :: u64
  cache :: "u8 list"
  block_size :: u64
  uninstalling :: bool
  uninstall_data :: "uninstall_data list"
  uninstall_data_i :: u64

definition tick :: "installer \<Rightarrow> installer" where
  "tick s = s\<lparr>calls := Suc (calls s)\<rparr>"

section \<open>Library calls\<close>

text \<open>Writing \<open>bs\<close> at position \<open>p\<close> of a file; a gap behind the end is filled with zeros.\<close>

definition put_at :: "u8 list \<Rightarrow> nat \<Rightarrow> u8 list \<Rightarrow> u8 list" where
  "put_at d p bs = take p d @ replicate (p - length d) 0 @ bs @ drop (p + length bs) d"

definition bytes_at :: "u8 list \<Rightarrow> nat \<Rightarrow> nat \<Rightarrow> u8 list" where
  "bytes_at d p n = take n (drop p d)"

text \<open>A call that only succeeds or fails: \<open>malloc\<close>, \<open>calloc\<close>, \<open>realloc\<close>, \<open>fopen\<close>.\<close>

definition call :: "host \<Rightarrow> installer \<Rightarrow> (unit, installer) run" where
  "call h s = (if call_ok h (calls s) then Ok () (tick s) else Fail (tick s))"

text \<open>\<open>fseek\<close> to an absolute position and relative to the current one; a file offset has 63 bits.\<close>

definition fseek_to :: "host \<Rightarrow> int \<Rightarrow> installer \<Rightarrow> (unit, installer) run" where
  "fseek_to h p s = (if call_ok h (calls s) \<and> 0 \<le> p \<and> p < 2 ^ 63 then Ok () ((tick s)\<lparr>fpos := nat p\<rparr>) else Fail (tick s))"

definition fseek_set :: "host \<Rightarrow> int \<Rightarrow> installer \<Rightarrow> (unit, installer) run" where
  "fseek_set h off s = fseek_to h off s"

definition fseek_cur :: "host \<Rightarrow> int \<Rightarrow> installer \<Rightarrow> (unit, installer) run" where
  "fseek_cur h off s = fseek_to h (int (fpos s) + off) s"

definition rewind :: "installer \<Rightarrow> installer" where
  "rewind s = s\<lparr>fpos := 0\<rparr>"

text \<open>\<open>fread(buf, n, 1, device)\<close>: whether one element was read, and the buffer afterwards.\<close>

definition fread :: "host \<Rightarrow> nat \<Rightarrow> u8 list \<Rightarrow> installer \<Rightarrow> bool \<times> u8 list \<times> installer" where
  "fread h n buf s =
     (if call_ok h (calls s) \<and> 0 < n \<and> fpos s + n \<le> length (disk s)
      then (True, bytes_at (disk s) (fpos s) n, (tick s)\<lparr>fpos := fpos s + n\<rparr>)
      else (False, take (length buf) (junk h (calls s) @ buf), tick s))"

text \<open>\<open>fwrite(bs, n, 1, device)\<close> for the \<open>n\<close> bytes \<open>bs\<close>: whether the element was written.\<close>

definition fwrite :: "host \<Rightarrow> u8 list \<Rightarrow> installer \<Rightarrow> bool \<times> installer" where
  "fwrite h bs s =
     (if call_ok h (calls s) \<and> bs \<noteq> []
      then (True, (tick s)\<lparr>disk := put_at (disk s) (fpos s) bs, fpos := fpos s + length bs\<rparr>)
      else (False, (tick s)\<lparr>disk := put_at (disk s) (fpos s) (take (torn h (calls s)) bs)\<rparr>))"

section \<open>Positioning\<close>

text \<open>
  \<open>set_pos\<close>: a \<open>long\<close> of 64 bits holds every position, a shorter one is too small and the position is
  reached in jumps.
\<close>

definition LONG_MAX :: "host \<Rightarrow> int" where
  "LONG_MAX h = 2 ^ (8 * sizeof_long h - 1) - 1"

definition jump_size :: "host \<Rightarrow> int" where
  "jump_size h = LONG_MAX h div 2 + 1"

definition set_pos :: "host \<Rightarrow> u64 \<Rightarrow> installer \<Rightarrow> (unit, installer) run" where
  "set_pos h pos s =
     (if sizeof_long h \<ge> 8 then fseek_set h (sint pos) s
      else
        let last_jump = uint pos mod jump_size h; jumps = uint pos div jump_size h in
        run_bind (run_for [0..<nat jumps] (\<lambda>i. fseek_cur h (jump_size h)) (rewind s)) (\<lambda>_.
        fseek_cur h last_jump))"

section \<open>Where \<open>set_pos\<close> goes\<close>

text \<open>A host on which no library call fails.\<close>

definition host_ok :: "host \<Rightarrow> bool" where
  "host_ok h \<longleftrightarrow> (\<forall>n. call_ok h n) \<and> sizeof_long h \<in> {4, 8}"

lemma put_at_zero_gap: "p \<le> length d \<Longrightarrow> put_at d p bs = take p d @ bs @ drop (p + length bs) d"
  by (simp add: put_at_def)

lemma length_put_at [simp]: "p + length bs \<le> length d \<Longrightarrow> length (put_at d p bs) = length d"
  by (simp add: put_at_zero_gap)

lemma nth_put_at:
  "p + length bs \<le> length d \<Longrightarrow> i < length d \<Longrightarrow>
     put_at d p bs ! i = (if p \<le> i \<and> i < p + length bs then bs ! (i - p) else d ! i)"
  by (auto simp: put_at_zero_gap nth_append min_def)

lemma length_bytes_at [simp]: "p + n \<le> length d \<Longrightarrow> length (bytes_at d p n) = n"
  by (simp add: bytes_at_def)

lemma nth_bytes_at: "p + n \<le> length d \<Longrightarrow> i < n \<Longrightarrow> bytes_at d p n ! i = d ! (p + i)"
  by (simp add: bytes_at_def)

lemma put_at_Nil [simp]: "p \<le> length d \<Longrightarrow> put_at d p [] = d"
  by (simp add: put_at_zero_gap)

lemma int_unat_less: "unat (w :: u64) < 2 ^ 63 \<Longrightarrow> uint w < 2 ^ 63"
proof -
  assume "unat w < 2 ^ 63"
  then have "int (unat w) < int (2 ^ 63)" by (simp only: of_nat_less_iff)
  then show ?thesis by simp
qed

lemma sint_u64_small: "unat (w :: u64) < 2 ^ 63 \<Longrightarrow> sint w = int (unat w)"
proof -
  assume "unat w < 2 ^ 63"
  then have "uint w < 2 ^ 63" by (rule int_unat_less)
  moreover have "- (2 ^ 63) \<le> uint w" by (rule order_trans [OF _ unsigned_greater_eq]) simp
  ultimately have "signed_take_bit 63 (uint w) = uint w" by (intro signed_take_bit_int_eq_self) auto
  then show ?thesis by (simp add: sint_uint)
qed

lemma sint_u64_large: "2 ^ 63 \<le> unat (w :: u64) \<Longrightarrow> sint w < 0"
proof -
  assume *: "2 ^ 63 \<le> unat w"
  have "uint w < 2 ^ 64" using uint_lt2p [of w] by simp
  moreover have "int (2 ^ 63) \<le> int (unat w)" using * by (simp only: of_nat_le_iff)
  ultimately have "(uint w + 2 ^ 63) mod 2 ^ 64 = uint w + 2 ^ 63 - 2 ^ 64"
    by (intro int_mod_pos_eq [where q = 1]) simp_all
  then have "signed_take_bit 63 (uint w) < 0"
    using \<open>uint w < 2 ^ 64\<close> by (simp add: signed_take_bit_eq_take_bit_shift take_bit_eq_mod)
  then show ?thesis by (simp add: sint_uint)
qed

lemma jumps:
  assumes "\<forall>n. call_ok h n" and "0 < j" and "fpos s < 2 ^ 63"
  shows "(\<exists>n. run_for is (\<lambda>_. fseek_cur h (int j)) s = Ok () (s\<lparr>fpos := fpos s + length is * j, calls := n\<rparr>)
        \<and> fpos s + length is * j < 2 ^ 63)
    \<or> (\<exists>n p. run_for is (\<lambda>_. fseek_cur h (int j)) s = Fail (s\<lparr>fpos := p, calls := n\<rparr>)) \<and> 2 ^ 63 \<le> fpos s + length is * j"
  using assms(3)
proof (induction "is" arbitrary: s)
  case Nil
  then show ?case by (auto intro: exI [of _ "calls s"])
next
  case (Cons i "is")
  show ?case
  proof (cases "fpos s + j < 2 ^ 63")
    case True
    define t where "t = (tick s)\<lparr>fpos := fpos s + j\<rparr>"
    have "fseek_cur h (int j) s = Ok () t"
      using True assms(1) by (simp add: fseek_cur_def fseek_to_def t_def nat_add_distrib)
    moreover have "fpos t < 2 ^ 63" "fpos t = fpos s + j" using True by (simp_all add: t_def)
    moreover have "t\<lparr>fpos := p, calls := n\<rparr> = s\<lparr>fpos := p, calls := n\<rparr>" for p n by (simp add: t_def tick_def)
    ultimately show ?thesis using Cons.IH [of t] by (simp add: add.assoc)
  next
    case False
    then have "fseek_cur h (int j) s = Fail (tick s)"
      by (simp add: fseek_cur_def fseek_to_def)
    then have "run_for (i # is) (\<lambda>_. fseek_cur h (int j)) s = Fail (s\<lparr>fpos := fpos s, calls := Suc (calls s)\<rparr>)"
      by (simp add: tick_def)
    moreover have "2 ^ 63 \<le> fpos s + length (i # is) * j" using False by simp
    ultimately show ?thesis by blast
  qed
qed

text \<open>Both ways reach the same position, and refuse the same positions.\<close>

lemma set_pos_ok:
  assumes "host_ok h"
  shows "(\<exists>n. set_pos h pos s = Ok () (s\<lparr>fpos := unat pos, calls := n\<rparr>)) \<and> unat pos < 2 ^ 63
    \<or> (\<exists>n p. set_pos h pos s = Fail (s\<lparr>fpos := p, calls := n\<rparr>)) \<and> 2 ^ 63 \<le> unat pos"
proof (cases "sizeof_long h = 8")
  case True
  show ?thesis
  proof (cases "unat pos < 2 ^ 63")
    case small: True
    then have "set_pos h pos s = Ok () (s\<lparr>fpos := unat pos, calls := Suc (calls s)\<rparr>)"
      using assms True sint_u64_small [OF small] int_unat_less [OF small]
      by (simp add: set_pos_def fseek_set_def fseek_to_def host_ok_def tick_def)
    with small show ?thesis by blast
  next
    case False
    then have "set_pos h pos s = Fail (s\<lparr>fpos := fpos s, calls := Suc (calls s)\<rparr>)"
      using True sint_u64_large [of pos] by (simp add: set_pos_def fseek_set_def fseek_to_def tick_def)
    with False show ?thesis by (metis not_less)
  qed
next
  case False
  with assms have 4: "sizeof_long h = 4" and ok: "\<forall>n. call_ok h n" by (auto simp: host_ok_def)
  have j: "jump_size h = int 1073741824" by (simp add: jump_size_def LONG_MAX_def 4)
  define q r where "q = unat pos div 1073741824" and "r = unat pos mod 1073741824"
  have pos: "unat pos = q * 1073741824 + r" and r: "r < 1073741824" by (simp_all add: q_def r_def)
  have qr: "nat (uint pos div jump_size h) = q" "uint pos mod jump_size h = int r"
    by (simp_all add: j q_def r_def nat_div_distrib zmod_int)
  have sp: "set_pos h pos s =
    run_bind (run_for [0..<q] (\<lambda>_. fseek_cur h (int 1073741824)) (rewind s)) (\<lambda>_. fseek_cur h (int r))"
    by (simp add: set_pos_def 4 Let_def qr) (simp add: j)
  have rw: "(rewind s)\<lparr>fpos := p, calls := n\<rparr> = s\<lparr>fpos := p, calls := n\<rparr>" "fpos (rewind s) = 0" for p n
    by (simp_all add: rewind_def)
  from jumps [OF ok, of 1073741824 "rewind s" "[0..<q]"]
  consider (jumped) n where "run_for [0..<q] (\<lambda>_. fseek_cur h (int 1073741824)) (rewind s)
        = Ok () (s\<lparr>fpos := q * 1073741824, calls := n\<rparr>)" "q * 1073741824 < 2 ^ 63"
    | (stuck) n p where "run_for [0..<q] (\<lambda>_. fseek_cur h (int 1073741824)) (rewind s)
        = Fail (s\<lparr>fpos := p, calls := n\<rparr>)" "2 ^ 63 \<le> q * 1073741824"
    by (auto simp: rw)
  then show ?thesis
  proof cases
    case jumped
    have "unat pos < 2 ^ 63" using jumped(2) r pos by simp
    moreover from this have "set_pos h pos s = Ok () (s\<lparr>fpos := unat pos, calls := Suc n\<rparr>)"
      unfolding sp jumped(1) using ok pos by (simp add: fseek_cur_def fseek_to_def tick_def nat_add_distrib)
    ultimately show ?thesis by blast
  next
    case stuck
    then show ?thesis using pos unfolding sp by auto
  qed
qed

end
