(* ===== verification/Limine_Device.thy ===== *)
theory Limine_Device
  imports Limine_Host
begin

text \<open>
  Access to the device in \<open>src/limine/limine.c\<close>: a cache of one block, reads and writes of any range
  through it, and the uninstall data, a journal with the previous contents of everything that was
  written, which is replayed backwards to undo an installation and which can be stored in a file.
\<close>

section \<open>The block cache\<close>

text \<open>\<open>device_init\<close> tries the block sizes in turn; \<open>realloc\<close> leaves new bytes of the buffer undetermined.\<close>

fun device_init_loop :: "host \<Rightarrow> u64 list \<Rightarrow> installer \<Rightarrow> (unit, installer) run" where
  "device_init_loop h [] s = Fail s"
| "device_init_loop h (g # guesses) s =
     run_bind (call h s) (\<lambda>_ s1.
       let buf = take (unat g) (cache s1 @ junk h (calls s) @ replicate (unat g) 0);
           (ok, buf', s2) = fread h (unat g) buf (rewind (s1\<lparr>cache := buf\<rparr>));
           s3 = s2\<lparr>cache := buf'\<rparr>
       in if ok then Ok () (s3\<lparr>block_size := g, cache_state := CACHE_CLEAN, cached_block := 0\<rparr>)
          else device_init_loop h guesses s3)"

definition device_init :: "host \<Rightarrow> installer \<Rightarrow> (unit, installer) run" where
  "device_init h s = device_init_loop h [512, 2048, 4096] s"

definition device_flush_cache :: "host \<Rightarrow> installer \<Rightarrow> (unit, installer) run" where
  "device_flush_cache h s =
     (if cache_state s = CACHE_CLEAN then Ok () s
      else run_bind (set_pos h (cached_block s * block_size s) s) (\<lambda>_ s.
        let (ok, s) = fwrite h (cache s) s in
        if \<not> ok then Fail s else Ok () (s\<lparr>cache_state := CACHE_CLEAN\<rparr>)))"

definition device_cache_block :: "host \<Rightarrow> u64 \<Rightarrow> installer \<Rightarrow> (unit, installer) run" where
  "device_cache_block h block s =
     (if cached_block s = block then Ok () s
      else run_bind (if cache_state s = CACHE_DIRTY then device_flush_cache h s else Ok () s) (\<lambda>_ s.
        run_bind (set_pos h (block * block_size s) s) (\<lambda>_ s.
          let (ok, buf, s) = fread h (unat (block_size s)) (cache s) s; s = s\<lparr>cache := buf\<rparr> in
          if \<not> ok then Fail s else Ok () (s\<lparr>cached_block := block\<rparr>))))"

section \<open>Reading and writing ranges\<close>

text \<open>
  The length of the next piece of a transfer: it ends with the block or with the range. A block size of
  zero is a division by zero.
\<close>

definition next_chunk :: "u64 \<Rightarrow> u64 \<Rightarrow> u64 \<Rightarrow> u64" where
  "next_chunk bs offset left = (if left > bs - offset then bs - offset else left)"

lemma next_chunk_progress:
  fixes at :: u64
  assumes "bs \<noteq> 0" and "progress < count"
  defines "chunk \<equiv> next_chunk bs (at mod bs) (count - progress)"
  shows "0 < unat chunk" and "unat progress + unat chunk \<le> unat count"
    and "unat (progress + chunk) = unat progress + unat chunk"
proof -
  have lt: "unat progress < unat count" using assms(2) by (simp add: word_less_nat_alt)
  have "unat (at mod bs) < unat bs" using assms(1) by (simp add: unat_mod_distrib unat_gt_0)
  moreover from this have "unat (bs - at mod bs) = unat bs - unat (at mod bs)" by (simp add: kunat)
  moreover have "unat (count - progress) = unat count - unat progress" using lt by (simp add: kunat)
  ultimately show "0 < unat chunk" and le: "unat progress + unat chunk \<le> unat count"
    using lt unfolding chunk_def next_chunk_def word_less_nat_alt by auto
  have "unat progress + unat chunk < 18446744073709551616"
    using le unat_u64_less [of count] by (rule order_le_less_trans)
  then show "unat (progress + chunk) = unat progress + unat chunk" by (rule unat_add_u64)
qed

lemma next_chunk_decreases:
  "bs \<noteq> 0 \<Longrightarrow> progress < count \<Longrightarrow>
    unat (count - (progress + next_chunk bs (at mod bs) (count - progress))) < unat (count - progress)"
  using next_chunk_progress [of bs progress count "at"] by (simp add: kunat word_less_nat_alt)

function device_read_loop :: "host \<Rightarrow> u64 \<Rightarrow> u64 \<Rightarrow> u64 \<Rightarrow> u8 list \<Rightarrow> installer \<Rightarrow> (u8 list, installer) run" where
  "device_read_loop h loc count progress buffer s =
     (if progress < count then
        if block_size s = 0 then Crash
        else
          let offset = (loc + progress) mod block_size s;
              chunk = next_chunk (block_size s) offset (count - progress)
          in run_bind (device_cache_block h ((loc + progress) div block_size s) s) (\<lambda>_ s.
            device_read_loop h loc count (progress + chunk) (buffer @ bytes_at (cache s) (unat offset) (unat chunk)) s)
      else Ok buffer s)"
  by pat_completeness auto
termination
  by (relation "measure (\<lambda>(h, loc, count, progress, buffer, s). unat (count - progress))")
    (simp_all add: next_chunk_decreases)

declare device_read_loop.simps [simp del]

definition device_read :: "host \<Rightarrow> u64 \<Rightarrow> u64 \<Rightarrow> installer \<Rightarrow> (u8 list, installer) run" where
  "device_read h loc count s = device_read_loop h loc count 0 [] s"

function device_write_loop :: "host \<Rightarrow> u8 list \<Rightarrow> u64 \<Rightarrow> u64 \<Rightarrow> u64 \<Rightarrow> installer \<Rightarrow> (unit, installer) run" where
  "device_write_loop h buffer loc count progress s =
     (if progress < count then
        if block_size s = 0 then Crash
        else
          let offset = (loc + progress) mod block_size s;
              chunk = next_chunk (block_size s) offset (count - progress)
          in run_bind (device_cache_block h ((loc + progress) div block_size s) s) (\<lambda>_ s.
            device_write_loop h buffer loc count (progress + chunk)
              (s\<lparr>cache := put_at (cache s) (unat offset) (bytes_at buffer (unat progress) (unat chunk)),
                 cache_state := CACHE_DIRTY\<rparr>))
      else Ok () s)"
  by pat_completeness auto
termination
  by (relation "measure (\<lambda>(h, buffer, loc, count, progress, s). unat (count - progress))")
    (simp_all add: next_chunk_decreases)

declare device_write_loop.simps [simp del]

text \<open>
  \<open>_device_write\<close>: the previous contents go into the next free entry of the uninstall data, which
  counts only when the whole write succeeded.
\<close>

definition set_entry :: "nat \<Rightarrow> uninstall_data \<Rightarrow> installer \<Rightarrow> installer" where
  "set_entry i ud s = s\<lparr>uninstall_data := (uninstall_data s)[i := ud]\<rparr>"

definition device_write :: "host \<Rightarrow> u8 list \<Rightarrow> u64 \<Rightarrow> u64 \<Rightarrow> installer \<Rightarrow> (unit, installer) run" where
  "device_write h buffer loc count s =
     (if uninstalling s then device_write_loop h buffer loc count 0 s
      else
        let i = unat (uninstall_data_i s); old = uninstall_data s ! i in
        if i \<ge> UNINSTALL_DATA_MAX then Fail s
        else if \<not> call_ok h (calls s) then Fail (set_entry i (old\<lparr>ud_data := Null\<rparr>) (tick s))
        else case device_read h loc count (tick s) of
            Crash \<Rightarrow> Crash
          | Fail s \<Rightarrow> Fail (set_entry i (old\<lparr>ud_data := Freed\<rparr>) s)
          | Ok data s \<Rightarrow>
             (case device_write_loop h buffer loc count 0
                 (set_entry i \<lparr>ud_data = Live data, ud_loc = loc, ud_count = count\<rparr> s) of
                Crash \<Rightarrow> Crash
              | Fail s \<Rightarrow> Fail (set_entry i \<lparr>ud_data = Freed, ud_loc = loc, ud_count = count\<rparr> s)
              | Ok u s \<Rightarrow> Ok () (s\<lparr>uninstall_data_i := uninstall_data_i s + 1\<rparr>)))"

section \<open>Undoing\<close>

definition reverse_uninstall_data :: "installer \<Rightarrow> installer" where
  "reverse_uninstall_data s =
     (let n = unat (uninstall_data_i s) in
      s\<lparr>uninstall_data := rev (take n (uninstall_data s)) @ drop n (uninstall_data s)\<rparr>)"

text \<open>\<open>free\<close> of a freed pointer is undefined, and so is an access outside the array.\<close>

fun free_entries :: "nat list \<Rightarrow> installer \<Rightarrow> (unit, installer) run" where
  "free_entries [] s = Ok () s"
| "free_entries (i # is) s =
     (if i \<ge> length (uninstall_data s) \<or> ud_data (uninstall_data s ! i) = Freed then Crash
      else free_entries is (set_entry i
        ((uninstall_data s ! i)\<lparr>ud_data := (if ud_data (uninstall_data s ! i) = Null then Null else Freed)\<rparr>) s))"

definition free_uninstall_data :: "installer \<Rightarrow> (unit, installer) run" where
  "free_uninstall_data s = free_entries [0..<unat (uninstall_data_i s)] s"

text \<open>The cached block is forgotten.\<close>

definition drop_cache :: "installer \<Rightarrow> installer" where
  "drop_cache s = s\<lparr>cache_state := CACHE_CLEAN, cached_block := - 1\<rparr>"

text \<open>
  One entry of \<open>uninstall\<close>: the write is tried twice, with a flush in between. The values are whether
  the write and whether a flush failed.
\<close>

definition uninstall_entry :: "host \<Rightarrow> nat \<Rightarrow> installer \<Rightarrow> (bool \<times> bool, installer) run" where
  "uninstall_entry h i s =
     (case ud_data (uninstall_data s ! i) of
        Live data \<Rightarrow>
          let loc = ud_loc (uninstall_data s ! i); count = ud_count (uninstall_data s ! i) in
          (case device_write h data loc count s of
             Crash \<Rightarrow> Crash
           | Ok _ s \<Rightarrow> Ok (False, False) s
           | Fail s \<Rightarrow>
              (case device_flush_cache h s of
                 Crash \<Rightarrow> Crash
               | r \<Rightarrow>
                  let (flush_fail, s) = (case r of Ok _ s \<Rightarrow> (False, s) | Fail s \<Rightarrow> (True, s)) in
                  (case device_write h data loc count (drop_cache s) of
                     Crash \<Rightarrow> Crash
                   | Ok _ s \<Rightarrow> Ok (False, flush_fail) s
                   | Fail s \<Rightarrow> Ok (True, flush_fail) s)))
      | _ \<Rightarrow> Crash)"

fun uninstall_loop :: "host \<Rightarrow> nat list \<Rightarrow> bool \<times> bool \<Rightarrow> installer \<Rightarrow> (bool \<times> bool, installer) run" where
  "uninstall_loop h [] fails s = Ok fails s"
| "uninstall_loop h (i # is) fails s =
     run_bind (uninstall_entry h i s) (\<lambda>f. uninstall_loop h is (fst fails \<or> fst f, snd fails \<or> snd f))"

definition uninstall :: "host \<Rightarrow> installer \<Rightarrow> (bool, installer) run" where
  "uninstall h s =
     run_bind (uninstall_loop h [0..<unat (uninstall_data_i s)] (False, False) (drop_cache (s\<lparr>uninstalling := True\<rparr>)))
       (\<lambda>(write_fail, flush_fail) s.
         case device_flush_cache h s of
           Crash \<Rightarrow> Crash
         | Ok _ s \<Rightarrow> Ok (\<not> write_fail \<and> \<not> flush_fail) s
         | Fail s \<Rightarrow> Ok False s)"

section \<open>The uninstall data file\<close>

text \<open>
  The file is written from its beginning and read from its beginning. A transfer of zero bytes does not
  count as one element, so an empty entry is an error on both sides.
\<close>

definition fwrite_ud :: "host \<Rightarrow> u8 list \<Rightarrow> installer \<Rightarrow> (unit, installer) run" where
  "fwrite_ud h bs s =
     (let old = (case udfile s of Some d \<Rightarrow> d | None \<Rightarrow> []) in
      if call_ok h (calls s) \<and> bs \<noteq> [] then Ok () ((tick s)\<lparr>udfile := Some (old @ bs)\<rparr>)
      else Fail ((tick s)\<lparr>udfile := Some (old @ take (torn h (calls s)) bs)\<rparr>))"

definition store_entry :: "host \<Rightarrow> nat \<Rightarrow> installer \<Rightarrow> (unit, installer) run" where
  "store_entry h i s =
     (let ud = uninstall_data s ! i in
      run_bind (fwrite_ud h (native_store (bigendian h) 8 (ud_loc ud)) s) (\<lambda>_ s.
      run_bind (fwrite_ud h (native_store (bigendian h) 8 (ud_count ud)) s) (\<lambda>_ s.
      case ud_data ud of
        Live data \<Rightarrow> if unat (ud_count ud) \<le> length data then fwrite_ud h (take (unat (ud_count ud)) data) s else Crash
      | _ \<Rightarrow> Crash)))"

definition store_uninstall_data :: "host \<Rightarrow> installer \<Rightarrow> (unit, installer) run" where
  "store_uninstall_data h s =
     run_bind (call h s) (\<lambda>_ s.
     run_bind (fwrite_ud h (native_store (bigendian h) 8 (uninstall_data_i s)) (s\<lparr>udfile := Some []\<rparr>)) (\<lambda>_ s.
     run_for [0..<unat (uninstall_data_i s)] (store_entry h) s))"

text \<open>
  Reading: the bytes read and the rest of the file. After an error everything loaded so far is freed;
  the number of entries stays as read from the file.
\<close>

definition fread_ud :: "host \<Rightarrow> nat \<Rightarrow> u8 list \<Rightarrow> installer \<Rightarrow> (u8 list \<times> u8 list) option \<times> installer" where
  "fread_ud h n bs s =
     (if call_ok h (calls s) \<and> 0 < n \<and> n \<le> length bs then Some (take n bs, drop n bs) else None, tick s)"

definition load_error :: "nat \<Rightarrow> installer \<Rightarrow> ('a, installer) run" where
  "load_error loaded_count s = run_bind (free_entries [0..<loaded_count] s) (\<lambda>_. Fail)"

fun load_entries :: "host \<Rightarrow> nat list \<Rightarrow> u8 list \<Rightarrow> installer \<Rightarrow> (unit, installer) run" where
  "load_entries h [] bs s = Ok () s"
| "load_entries h (i # is) bs s =
     (case fread_ud h 8 bs s of
        (None, s) \<Rightarrow> load_error i s
      | (Some (loc, bs), s) \<Rightarrow>
     (case fread_ud h 8 bs s of
        (None, s) \<Rightarrow> load_error i s
      | (Some (count, bs), s) \<Rightarrow>
         let ud = \<lparr>ud_data = Null, ud_loc = native_load (bigendian h) loc, ud_count = native_load (bigendian h) count\<rparr> in
         if \<not> call_ok h (calls s) then load_error i (set_entry i ud (tick s))
         else
     (case fread_ud h (unat (ud_count ud)) bs (tick s) of
        (None, s) \<Rightarrow> load_error i (set_entry i (ud\<lparr>ud_data := Freed\<rparr>) s)
      | (Some (data, bs), s) \<Rightarrow> load_entries h is bs (set_entry i (ud\<lparr>ud_data := Live data\<rparr>) s))))"

definition load_uninstall_data :: "host \<Rightarrow> installer \<Rightarrow> (unit, installer) run" where
  "load_uninstall_data h s =
     (case udfile s of
        None \<Rightarrow> Fail (tick s)
      | Some bs \<Rightarrow> run_bind (call h s) (\<lambda>_ s.
         case fread_ud h 8 bs s of
           (None, s) \<Rightarrow> Fail s
         | (Some (n, bs), s) \<Rightarrow>
            let s = s\<lparr>uninstall_data_i := native_load (bigendian h) n\<rparr> in
            if unat (uninstall_data_i s) > UNINSTALL_DATA_MAX then Fail s
            else load_entries h [0..<unat (uninstall_data_i s)] bs s))"

end
