(* ===== verification/Limine_Install.thy ===== *)
theory Limine_Install
  imports Limine_Device
begin

text \<open>
  \<open>bios_install\<close> of \<open>src/limine/limine.c\<close>, phase by phase: the partition table structures, the search for a
  GUID partition table, its conversion to an MBR on ISO images, the checks on MBR and partitions, the
  choice of the place for the second stage, the writing of the boot code, and the cleanup. \<open>Fail\<close> in a
  phase is \<open>goto cleanup\<close>.
\<close>

section \<open>Partition table structures\<close>

record gpt_table_header =
  signature :: "u8 list"
  revision :: u32
  header_size :: u32
  crc32 :: u32
  reserved0 :: u32
  my_lba :: u64
  alternate_lba :: u64
  first_usable_lba :: u64
  last_usable_lba :: u64
  disk_guid :: "u64 \<times> u64"
  partition_entry_lba :: u64
  number_of_partition_entries :: u32
  size_of_partition_entry :: u32
  partition_entry_array_crc32 :: u32

record gpt_entry =
  partition_type_guid :: "u64 \<times> u64"
  unique_partition_guid :: "u64 \<times> u64"
  starting_lba :: u64
  ending_lba :: u64
  attributes :: u64
  partition_name :: "u16 list"

text \<open>The structures as the program sees them in memory after reading their bytes; 96 and 128 bytes long.\<close>

definition field64 :: "bool \<Rightarrow> u8 list \<Rightarrow> nat \<Rightarrow> u64" where
  "field64 be bs p = native_load be (bytes_at bs p 8)"

definition field32 :: "bool \<Rightarrow> u8 list \<Rightarrow> nat \<Rightarrow> u32" where
  "field32 be bs p = native_load be (bytes_at bs p 4)"

definition gpt_header_of :: "bool \<Rightarrow> u8 list \<Rightarrow> gpt_table_header" where
  "gpt_header_of be bs =
     \<lparr>signature = bytes_at bs 0 8, revision = field32 be bs 8, header_size = field32 be bs 12, crc32 = field32 be bs 16,
      reserved0 = field32 be bs 20, my_lba = field64 be bs 24, alternate_lba = field64 be bs 32,
      first_usable_lba = field64 be bs 40, last_usable_lba = field64 be bs 48,
      disk_guid = (field64 be bs 56, field64 be bs 64), partition_entry_lba = field64 be bs 72,
      number_of_partition_entries = field32 be bs 80, size_of_partition_entry = field32 be bs 84,
      partition_entry_array_crc32 = field32 be bs 88\<rparr>"

definition gpt_entry_of :: "bool \<Rightarrow> u8 list \<Rightarrow> gpt_entry" where
  "gpt_entry_of be bs =
     \<lparr>partition_type_guid = (field64 be bs 0, field64 be bs 8), unique_partition_guid = (field64 be bs 16, field64 be bs 24),
      starting_lba = field64 be bs 32, ending_lba = field64 be bs 40, attributes = field64 be bs 48,
      partition_name = map (\<lambda>i. native_load be (bytes_at bs (56 + 2 * i) 2)) [0..<36]\<rparr>"

definition ascii :: "string \<Rightarrow> u8 list" where
  "ascii str = map of_char str"

section \<open>Recognised file systems\<close>

text \<open>One test of \<open>validate_or_force\<close>: \<open>n\<close> bytes are compared with a mark; with \<open>--force\<close> the mark is erased.\<close>

definition validate_hint :: "host \<Rightarrow> bool \<Rightarrow> u64 \<Rightarrow> u8 list \<Rightarrow> u64 \<Rightarrow> installer \<Rightarrow> (bool, installer) run" where
  "validate_hint h force loc mark erase s =
     run_bind (device_read h loc (of_nat (length mark)) s) (\<lambda>hintc s.
       if hintc = mark then
         if \<not> force then Ok False s
         else run_bind (device_write h (replicate (unat erase) 0) loc erase s) (\<lambda>_. Ok True)
       else Ok True s)"

definition validate_ext :: "host \<Rightarrow> bool \<Rightarrow> u64 \<Rightarrow> installer \<Rightarrow> (bool, installer) run" where
  "validate_ext h force loc s =
     run_bind (device_read h loc 2 s) (\<lambda>bs s.
       if ENDSWAP16 (bigendian h) (native_load (bigendian h) bs) = 0xef53 then
         if \<not> force then Ok False s
         else run_bind (device_write h (native_store (bigendian h) 2 (ENDSWAP16 (bigendian h) 0)) loc 2 s) (\<lambda>_. Ok True)
       else Ok True s)"

definition validate_or_force :: "host \<Rightarrow> u64 \<Rightarrow> bool \<Rightarrow> installer \<Rightarrow> (bool, installer) run" where
  "validate_or_force h offset force s =
     run_bind (validate_hint h force (offset + 3) (ascii ''NTFS'') 4 s) (\<lambda>ok s. if \<not> ok then Ok False s else
     run_bind (validate_hint h force (offset + 54) (ascii ''FAT'') 5 s) (\<lambda>ok s. if \<not> ok then Ok False s else
     run_bind (validate_hint h force (offset + 82) (ascii ''FAT'') 5 s) (\<lambda>ok s. if \<not> ok then Ok False s else
     run_bind (validate_hint h force (offset + 3) (ascii ''FAT32'') 5 s) (\<lambda>ok s. if \<not> ok then Ok False s else
     validate_ext h force (offset + 1080) s))))"

section \<open>Finding a GUID partition table\<close>

fun probe_gpt :: "host \<Rightarrow> u64 list \<Rightarrow> installer \<Rightarrow> ((u64 \<times> gpt_table_header) option, installer) run" where
  "probe_gpt h [] s = Ok None s"
| "probe_gpt h (g # guesses) s =
     run_bind (device_read h g 96 s) (\<lambda>bs s.
       let gpt_header = gpt_header_of (bigendian h) bs in
       if signature gpt_header = ascii ''EFI PART'' then Ok (Some (g, gpt_header)) s else probe_gpt h guesses s)"

definition check_secondary :: "host \<Rightarrow> u64 \<Rightarrow> gpt_table_header \<Rightarrow> installer \<Rightarrow> (unit, installer) run" where
  "check_secondary h lb_size gpt_header s =
     run_bind (device_read h (lb_size * ENDSWAP64 (bigendian h) (alternate_lba gpt_header)) 96 s) (\<lambda>bs s.
       if signature (gpt_header_of (bigendian h) bs) = ascii ''EFI PART'' then Ok () s else Fail s)"

definition find_gpt :: "host \<Rightarrow> installer \<Rightarrow> ((u64 \<times> gpt_table_header) option, installer) run" where
  "find_gpt h s =
     run_bind (probe_gpt h [512, 4096] s) (\<lambda>gpt s.
       case gpt of
         None \<Rightarrow> Ok None s
       | Some (lb_size, gpt_header) \<Rightarrow> run_bind (check_secondary h lb_size gpt_header s) (\<lambda>_. Ok gpt))"

section \<open>Converting a GPT to an MBR\<close>

record part_to_conv =
  lba_start :: u64
  lba_end :: u64
  chs_start :: "u8 list"
  chs_end :: "u8 list"
  ptype :: u8

text \<open>
  The partition of one entry; \<open>None\<close> is \<open>goto no_mbr_conv\<close>. The entries are numbered by \<open>i\<close>, and \<open>left\<close> of
  them are still to be read.
\<close>

definition convert_entry :: "bool \<Rightarrow> gpt_entry \<Rightarrow> part_to_conv option" where
  "convert_entry be e =
     (let start = ENDSWAP64 be (starting_lba e); last = ENDSWAP64 be (ending_lba e);
          type = gpt2mbr_type (ENDSWAP64 be (fst (partition_type_guid e))) (ENDSWAP64 be (snd (partition_type_guid e)))
      in if start > 0xFFFFFFFF then None
         else if last > 0xFFFFFFFF then None
         else if last - start + 1 > 0xFFFFFFFF then None
         else if type = - 1 then None
         else Some \<lparr>lba_start = start, lba_end = last, chs_start = lba2chs start, chs_end = lba2chs last, ptype = of_int type\<rparr>)"

fun gather_parts :: "host \<Rightarrow> gpt_table_header \<Rightarrow> u64 \<Rightarrow> nat \<Rightarrow> u64 \<Rightarrow> part_to_conv list \<Rightarrow> installer
    \<Rightarrow> (part_to_conv list option, installer) run" where
  "gather_parts h gpt_header part_entry_base 0 i parts s = Ok (Some parts) s"
| "gather_parts h gpt_header part_entry_base (Suc left) i parts s =
     (let (overflow, entry_offset) = add_u64_overflow part_entry_base
            (i * ucast (ENDSWAP32 (bigendian h) (size_of_partition_entry gpt_header)))
      in if overflow then Ok None s
         else run_bind (device_read h entry_offset 128 s) (\<lambda>bs s.
           let e = gpt_entry_of (bigendian h) bs in
           if unique_partition_guid e = (0, 0) then gather_parts h gpt_header part_entry_base left (i + 1) parts s
           else if length parts = 4 then Ok None s
           else case convert_entry (bigendian h) e of
             None \<Rightarrow> Ok None s
           | Some p \<Rightarrow> gather_parts h gpt_header part_entry_base left (i + 1) (parts @ [p]) s))"

definition nuke_gpt :: "host \<Rightarrow> u64 \<Rightarrow> gpt_table_header \<Rightarrow> installer \<Rightarrow> (unit, installer) run" where
  "nuke_gpt h lb_size gpt_header s =
     (let empty_lba = replicate (unat lb_size) 0; alt_lba = ENDSWAP64 (bigendian h) (alternate_lba gpt_header) in
      run_bind (call h s) (\<lambda>_ s.
      run_bind (run_for [0..<34] (\<lambda>i. device_write h empty_lba (of_nat i * lb_size) lb_size) s) (\<lambda>_ s.
      if alt_lba \<ge> 32
      then run_for [0..<33] (\<lambda>i. device_write h empty_lba ((alt_lba - 32 + of_nat i) * lb_size) lb_size) s
      else Ok () s)))"

definition write_partition :: "host \<Rightarrow> nat \<times> part_to_conv \<Rightarrow> installer \<Rightarrow> (unit, installer) run" where
  "write_partition h ip s =
     (let (i, p) = ip; base = 0x1be + of_nat i * 16; be = bigendian h in
      run_bind (device_write h [ptype p] (base + 0x04) 1 s) (\<lambda>_ s.
      run_bind (device_write h (native_store be 4 (ENDSWAP32 be (ucast (lba_start p)))) (base + 0x08) 4 s) (\<lambda>_ s.
      run_bind (device_write h (native_store be 4 (ENDSWAP32 be (ucast (lba_end p - lba_start p + 1)))) (base + 0x0c) 4 s) (\<lambda>_ s.
      run_bind (device_write h (chs_start p) (base + 1) 3 s) (\<lambda>_ s.
      device_write h (chs_end p) (base + 5) 3 s)))))"

text \<open>The result says whether the device still has a GPT.\<close>

definition convert_isohybrid :: "host \<Rightarrow> u64 \<Rightarrow> gpt_table_header \<Rightarrow> installer \<Rightarrow> (bool, installer) run" where
  "convert_isohybrid h lb_size gpt_header s =
     run_bind (device_read h 32769 5 s) (\<lambda>iso_signature s.
       if iso_signature \<noteq> ascii ''CD001'' then Ok True s
       else
         let (overflow, part_entry_base) = mul_u64_overflow (ENDSWAP64 (bigendian h) (partition_entry_lba gpt_header)) lb_size in
         if overflow then Ok True s
         else run_bind (gather_parts h gpt_header part_entry_base
             (unat (ENDSWAP32 (bigendian h) (number_of_partition_entries gpt_header))) 0 [] s) (\<lambda>r s.
           case r of
             None \<Rightarrow> Ok True s
           | Some parts \<Rightarrow>
               run_bind (nuke_gpt h lb_size gpt_header s) (\<lambda>_ s.
               run_bind (run_for [0..<4] (\<lambda>i. device_write h [random_byte h i] (0x1b8 + of_nat i) 1) s) (\<lambda>_ s.
               run_bind (run_for (zip [0..<length parts] parts) (write_partition h) s) (\<lambda>_ s.
               Ok False s)))))"

section \<open>Checking an MBR\<close>

text \<open>
  One partition entry of the MBR, at byte \<open>base\<close>: the active flag has to be valid or is corrected, and a
  used partition has to start behind the gap for the boot loader. The values are whether the table is
  still taken for an MBR and whether an active partition was seen.
\<close>

definition check_partition :: "host \<Rightarrow> bool \<Rightarrow> u64 \<Rightarrow> bool \<times> bool \<Rightarrow> installer \<Rightarrow> (bool \<times> bool, installer) run" where
  "check_partition h force base st s =
     run_bind (device_read h base 1 s) (\<lambda>bs s.
       let hint8 = hd bs; odd_flag = (hint8 \<noteq> 0x00 \<and> hint8 \<noteq> 0x80) in
       run_bind (if odd_flag \<and> force
           then run_bind (device_write h [hint8 AND 0x80] base 1 s) (\<lambda>_. Ok (fst st, hint8 AND 0x80))
           else Ok (fst st \<and> \<not> odd_flag, hint8) s) (\<lambda>(mbr, hint8) s.
       let any_active = (snd st \<or> hint8 AND 0x80 \<noteq> 0) in
       run_bind (device_read h (base + 4) 1 s) (\<lambda>bs s.
         if hd bs \<noteq> 0x00 then
           run_bind (device_read h (base + 8) 4 s) (\<lambda>bs s.
             if ENDSWAP32 (bigendian h) (native_load (bigendian h) bs) < 63 then Fail s
             else Ok (mbr, any_active) s)
         else Ok (mbr, any_active) s)))"

fun check_partitions :: "host \<Rightarrow> bool \<Rightarrow> u64 list \<Rightarrow> bool \<times> bool \<Rightarrow> installer \<Rightarrow> (bool \<times> bool, installer) run" where
  "check_partitions h force [] st s = Ok st s"
| "check_partitions h force (base # bases) st s =
     run_bind (check_partition h force base st s) (\<lambda>st. check_partitions h force bases st)"

definition check_mbr :: "host \<Rightarrow> bool \<Rightarrow> installer \<Rightarrow> (bool, installer) run" where
  "check_mbr h force s =
     run_bind (check_partitions h force [446, 462, 478, 494] (True, False) s) (\<lambda>(mbr, any_active) s.
     run_bind (if mbr then validate_or_force h 0 force s else Ok False s) (\<lambda>mbr s.
     if mbr \<and> \<not> any_active then run_bind (device_write h [0x80] 446 1 s) (\<lambda>_. Ok mbr)
     else Ok mbr s))"

section \<open>Choosing a GPT partition\<close>

text \<open>\<open>sscanf\<close> with the conversion for \<open>uint32_t\<close>.\<close>

definition scan_space :: "char \<Rightarrow> bool" where
  "scan_space c \<longleftrightarrow> c \<in> {CHR '' '', CHR 0x09, CHR 0x0A, CHR 0x0B, CHR 0x0C, CHR 0x0D}"

definition scan_digit :: "char \<Rightarrow> bool" where
  "scan_digit c \<longleftrightarrow> c \<in> set ''0123456789''"

definition sscanf_u32 :: "string \<Rightarrow> u32 option" where
  "sscanf_u32 str =
     (let t = dropWhile scan_space str;
          neg = (t \<noteq> [] \<and> hd t = CHR ''-'');
          t = (if t \<noteq> [] \<and> (hd t = CHR ''-'' \<or> hd t = CHR ''+'') then tl t else t);
          digits = takeWhile scan_digit t;
          v = fold (\<lambda>c v. 10 * v + (of_char c - 48)) digits (0 :: nat);
          w = of_nat (min v 0xFFFFFFFFFFFFFFFF)
      in if digits = [] then None else Some (if neg then - w else w))"

definition entry_at :: "host \<Rightarrow> gpt_table_header \<Rightarrow> u64 \<Rightarrow> u32 \<Rightarrow> installer \<Rightarrow> (u8 list, installer) run" where
  "entry_at h gpt_header entry_base partition_num s =
     (let (overflow, entry_off) = add_u64_overflow entry_base
            (ucast partition_num * ucast (ENDSWAP32 (bigendian h) (size_of_partition_entry gpt_header)))
      in if overflow then Fail s else device_read h entry_off 128 s)"

definition BIOS_BOOT_GUID :: "u8 list" where
  "BIOS_BOOT_GUID = ascii ''Hah!IdontNeedEFI''"

definition chosen_entry :: "host \<Rightarrow> bool \<Rightarrow> gpt_table_header \<Rightarrow> u64 \<Rightarrow> string \<Rightarrow> installer \<Rightarrow> (u8 list, installer) run" where
  "chosen_entry h force gpt_header entry_base part_ndx s =
     (case sscanf_u32 part_ndx of
        None \<Rightarrow> Fail s
      | Some n \<Rightarrow>
         let partition_num = n - 1 in
         if partition_num \<ge> ENDSWAP32 (bigendian h) (number_of_partition_entries gpt_header) then Fail s
         else run_bind (entry_at h gpt_header entry_base partition_num s) (\<lambda>bs s.
           if unique_partition_guid (gpt_entry_of (bigendian h) bs) = (0, 0) then Fail s
           else if \<not> force \<and> take 16 bs \<noteq> BIOS_BOOT_GUID then Fail s
           else Ok bs s))"

text \<open>The search for the BIOS boot partition, with \<open>left\<close> entries still to be read.\<close>

fun detect_entry :: "host \<Rightarrow> gpt_table_header \<Rightarrow> u64 \<Rightarrow> nat \<Rightarrow> u32 \<Rightarrow> installer \<Rightarrow> (u8 list, installer) run" where
  "detect_entry h gpt_header entry_base 0 partition_num s = Fail s"
| "detect_entry h gpt_header entry_base (Suc left) partition_num s =
     run_bind (entry_at h gpt_header entry_base partition_num s) (\<lambda>bs s.
       if take 16 bs = BIOS_BOOT_GUID then Ok bs s
       else detect_entry h gpt_header entry_base left (partition_num + 1) s)"

definition gpt_stage2 :: "host \<Rightarrow> bool \<Rightarrow> string option \<Rightarrow> u64 \<Rightarrow> gpt_table_header \<Rightarrow> installer \<Rightarrow> (u64, installer) run" where
  "gpt_stage2 h force part_ndx lb_size gpt_header s =
     (let (overflow, entry_base) = mul_u64_overflow (ENDSWAP64 (bigendian h) (partition_entry_lba gpt_header)) lb_size in
      if overflow then Fail s
      else run_bind (case part_ndx of
          Some str \<Rightarrow> chosen_entry h force gpt_header entry_base str s
        | None \<Rightarrow> detect_entry h gpt_header entry_base
            (unat (ENDSWAP32 (bigendian h) (number_of_partition_entries gpt_header))) 0 s) (\<lambda>bs s.
        let e = gpt_entry_of (bigendian h) bs;
            start = ENDSWAP64 (bigendian h) (starting_lba e);
            last = ENDSWAP64 (bigendian h) (ending_lba e)
        in if last < start then Fail s
           else
             let (overflow, part_size) = mul_u64_overflow (last - start + 1) lb_size in
             if overflow then Fail s
             else if part_size < 32768 then Fail s
             else
               let (overflow, stage2_loc) = mul_u64_overflow start lb_size in
               if overflow then Fail s
               else run_bind (validate_or_force h stage2_loc force s) (\<lambda>valid s.
                 if \<not> valid then Fail s else Ok stage2_loc s)))"

section \<open>Installing\<close>

definition write_boot_code :: "host \<Rightarrow> u8 list \<Rightarrow> u64 \<Rightarrow> installer \<Rightarrow> (unit, installer) run" where
  "write_boot_code h bootloader_img stage2_loc s =
     run_bind (device_read h 218 6 s) (\<lambda>timestamp s.
     run_bind (device_read h 440 70 s) (\<lambda>orig_mbr s.
     run_bind (device_write h (take 512 bootloader_img) 0 512 s) (\<lambda>_ s.
     run_bind (device_write h (drop 512 bootloader_img) stage2_loc (of_nat (length bootloader_img) - 512) s) (\<lambda>_ s.
     run_bind (device_write h (native_store (bigendian h) 8 (ENDSWAP64 (bigendian h) stage2_loc)) 0x1a4 8 s) (\<lambda>_ s.
     run_bind (device_write h timestamp 218 6 s) (\<lambda>_ s.
     run_bind (device_write h orig_mbr 440 70 s) (\<lambda>_ s.
     device_flush_cache h s)))))))"

text \<open>The options of the command line; \<open>device\<close> is whether the device has been opened.\<close>

record options =
  force :: bool
  gpt2mbr_allowed :: bool
  uninstall_mode :: bool
  uninstall_file :: "string option"
  part_ndx :: "string option"
  device :: bool

definition install :: "host \<Rightarrow> options \<Rightarrow> u8 list \<Rightarrow> installer \<Rightarrow> (unit, installer) run" where
  "install h opts bootloader_img s =
     run_bind (find_gpt h s) (\<lambda>gpt s.
     run_bind (case gpt of
         None \<Rightarrow> Ok False s
       | Some (lb_size, gpt_header) \<Rightarrow>
           if gpt2mbr_allowed opts then convert_isohybrid h lb_size gpt_header s else Ok True s) (\<lambda>still_gpt s.
     run_bind (case (still_gpt, gpt) of
         (True, Some (lb_size, gpt_header)) \<Rightarrow> gpt_stage2 h (force opts) (part_ndx opts) lb_size gpt_header s
       | _ \<Rightarrow> run_bind (check_mbr h (force opts) s) (\<lambda>mbr s. if mbr then Ok 512 s else Fail s)) (\<lambda>stage2_loc s.
     write_boot_code h bootloader_img stage2_loc s)))"

definition EXIT_SUCCESS :: nat where
  "EXIT_SUCCESS = 0"

definition EXIT_FAILURE :: nat where
  "EXIT_FAILURE = 1"

text \<open>The loop over the arguments: an exit code, or the options.\<close>

fun parse_args :: "host \<Rightarrow> string list \<Rightarrow> options \<Rightarrow> installer \<Rightarrow> (nat + options) \<times> installer" where
  "parse_args h [] opts s = (Inr opts, s)"
| "parse_args h (arg # args) opts s =
     (if arg = ''--help'' \<or> arg = ''-h'' then (Inl EXIT_SUCCESS, s)
      else if arg = ''--quiet'' then parse_args h args opts s
      else if arg = ''--force'' then parse_args h args (opts\<lparr>force := True\<rparr>) s
      else if arg = ''--no-gpt-to-mbr-isohybrid-conversion'' then parse_args h args (opts\<lparr>gpt2mbr_allowed := False\<rparr>) s
      else if arg = ''--uninstall'' then parse_args h args (opts\<lparr>uninstall_mode := True\<rparr>) s
      else if take 22 arg = ''--uninstall-data-file='' then
        (if drop 22 arg = [] then (Inl EXIT_FAILURE, s)
         else parse_args h args (opts\<lparr>uninstall_file := Some (drop 22 arg)\<rparr>) s)
      else if device opts then parse_args h args (opts\<lparr>part_ndx := Some arg\<rparr>) s
      else if call_ok h (calls s) then parse_args h args (opts\<lparr>device := True\<rparr>) (tick s)
      else (Inl EXIT_FAILURE, tick s))"

definition no_options :: options where
  "no_options = \<lparr>force = False, gpt2mbr_allowed = True, uninstall_mode = False, uninstall_file = None,
     part_ndx = None, device = False\<rparr>"

definition finish :: "nat \<Rightarrow> installer \<Rightarrow> (nat, installer) run" where
  "finish code s = run_bind (free_uninstall_data s) (\<lambda>_. Ok code)"

definition run_uninstall :: "host \<Rightarrow> options \<Rightarrow> installer \<Rightarrow> (nat, installer) run" where
  "run_uninstall h opts s =
     (if uninstall_file opts = None then finish EXIT_FAILURE s
      else case load_uninstall_data h s of
          Crash \<Rightarrow> Crash
        | Fail s \<Rightarrow> finish EXIT_FAILURE s
        | Ok _ s \<Rightarrow> run_bind (uninstall h s) (\<lambda>ok. finish (if ok then EXIT_SUCCESS else EXIT_FAILURE)))"

definition run_install :: "host \<Rightarrow> options \<Rightarrow> u8 list \<Rightarrow> installer \<Rightarrow> (nat, installer) run" where
  "run_install h opts bootloader_img s =
     (case install h opts bootloader_img s of
        Crash \<Rightarrow> Crash
      | Fail s \<Rightarrow> run_bind (uninstall h (reverse_uninstall_data s)) (\<lambda>_. finish EXIT_FAILURE)
      | Ok _ s \<Rightarrow>
         if uninstall_file opts \<noteq> None then
           (case store_uninstall_data h (reverse_uninstall_data s) of
              Crash \<Rightarrow> Crash | Ok _ s \<Rightarrow> finish EXIT_SUCCESS s | Fail s \<Rightarrow> finish EXIT_SUCCESS s)
         else finish EXIT_SUCCESS (reverse_uninstall_data s))"

definition bios_install :: "host \<Rightarrow> u8 list \<Rightarrow> string list \<Rightarrow> installer \<Rightarrow> (nat, installer) run" where
  "bios_install h bootloader_img args s =
     (if args = [] then Ok EXIT_FAILURE s
      else case parse_args h args no_options s of
          (Inl code, s) \<Rightarrow> Ok code s
        | (Inr opts, s) \<Rightarrow>
            if \<not> device opts then Ok EXIT_FAILURE s
            else (case device_init h s of
                Crash \<Rightarrow> Crash
              | Fail s \<Rightarrow> finish EXIT_FAILURE s
              | Ok _ s \<Rightarrow> if uninstall_mode opts then run_uninstall h opts s else run_install h opts bootloader_img s))"

text \<open>The state in which the program starts: zeroed static variables.\<close>

definition program_start :: "u8 list \<Rightarrow> u8 list option \<Rightarrow> installer" where
  "program_start d f =
     \<lparr>disk = d, fpos = 0, udfile = f, calls = 0, cache_state = CACHE_CLEAN, cached_block = 0, cache = [], block_size = 0,
      uninstalling = False, uninstall_data = replicate UNINSTALL_DATA_MAX \<lparr>ud_data = Null, ud_loc = 0, ud_count = 0\<rparr>,
      uninstall_data_i = 0\<rparr>"

end
