(* ===== verification/Limine_Cache.thy ===== *)
theory Limine_Cache
  imports Limine_Device
begin

text \<open>
  The cached device is a plain array of bytes: \<open>view\<close> is the device with the cached block put in place,
  and on a host whose calls succeed every read returns bytes of the view and every write changes the
  view at its range only, whatever the state of the cache. A range that is not on whole blocks of the
  device is refused, with everything written so far on the device.
\<close>

section \<open>Pieces of byte lists\<close>

lemma put_at_bytes_at [simp]: "p + n \<le> length d \<Longrightarrow> put_at d p (bytes_at d p n) = d"
  by (rule nth_equalityI) (auto simp: nth_put_at nth_bytes_at)

lemma put_at_put_at:
  "o' + length xs \<le> length c \<Longrightarrow> p + length c \<le> length d \<Longrightarrow>
    put_at d p (put_at c o' xs) = put_at (put_at d p c) (p + o') xs"
  by (rule nth_equalityI) (auto simp: nth_put_at)

lemma put_at_same: "length xs = length ys \<Longrightarrow> p + length ys \<le> length d \<Longrightarrow> put_at (put_at d p xs) p ys = put_at d p ys"
  by (rule nth_equalityI) (auto simp: nth_put_at)

lemma put_at_append:
  "l + length xs + length ys \<le> length d \<Longrightarrow> put_at (put_at d l xs) (l + length xs) ys = put_at d l (xs @ ys)"
  by (rule nth_equalityI) (auto simp: nth_put_at nth_append)

lemma bytes_at_append: "l + a + b \<le> length d \<Longrightarrow> bytes_at d l a @ bytes_at d (l + a) b = bytes_at d l (a + b)"
  by (simp add: bytes_at_def take_add add.commute)

lemma bytes_at_put_at:
  "o' + n \<le> length xs \<Longrightarrow> p + length xs \<le> length d \<Longrightarrow> bytes_at (put_at d p xs) (p + o') n = bytes_at xs o' n"
  by (rule nth_equalityI) (auto simp: nth_put_at nth_bytes_at)

lemma bytes_at_bytes_at: "a + n \<le> m \<Longrightarrow> bytes_at (bytes_at d p m) a n = bytes_at d (p + a) n"
  by (simp add: bytes_at_def drop_take add.commute)

lemma bytes_at_0 [simp]: "bytes_at d p 0 = []"
  by (simp add: bytes_at_def)

lemma bytes_at_all: "bytes_at d 0 (length d) = d"
  by (simp add: bytes_at_def)

section \<open>The view\<close>

definition statics :: "installer \<Rightarrow> uninstall_data list \<times> u64 \<times> bool \<times> u64 \<times> u8 list option" where
  "statics s = (uninstall_data s, uninstall_data_i s, uninstalling s, block_size s, udfile s)"

definition bsz :: "installer \<Rightarrow> nat" where
  "bsz s = unat (block_size s)"

definition block_pos :: "installer \<Rightarrow> nat" where
  "block_pos s = unat (cached_block s) * bsz s"

definition geometry :: "installer \<Rightarrow> bool" where
  "geometry s \<longleftrightarrow> 512 \<le> bsz s \<and> length (cache s) = bsz s \<and> length (disk s) < 2 ^ 63"

definition coherent :: "installer \<Rightarrow> bool" where
  "coherent s \<longleftrightarrow> geometry s \<and>
     (if cached_block s = - 1 then cache_state s = CACHE_CLEAN
      else block_pos s + bsz s \<le> length (disk s) \<and>
        (cache_state s = CACHE_CLEAN \<longrightarrow> cache s = bytes_at (disk s) (block_pos s) (bsz s)))"

definition view :: "installer \<Rightarrow> u8 list" where
  "view s = (if cached_block s = - 1 then disk s else put_at (disk s) (block_pos s) (cache s))"

text \<open>The part of the device that consists of whole blocks.\<close>

definition whole :: "installer \<Rightarrow> nat" where
  "whole s = length (disk s) div bsz s * bsz s"

lemma whole_le: "whole s \<le> length (disk s)"
  by (simp add: whole_def)

lemma block_in_whole: "0 < bsz s \<Longrightarrow> p < whole s \<Longrightarrow> p div bsz s * bsz s + bsz s \<le> whole s"
proof -
  assume "0 < bsz s" "p < whole s"
  then have "p div bsz s < length (disk s) div bsz s" by (simp add: whole_def div_less_iff_less_mult)
  then have "Suc (p div bsz s) * bsz s \<le> length (disk s) div bsz s * bsz s"
    by (intro mult_le_mono1) simp
  then show ?thesis by (simp add: whole_def)
qed

lemma block_beyond: "0 < bsz s \<Longrightarrow> whole s \<le> p \<Longrightarrow> length (disk s) < p div bsz s * bsz s + bsz s"
proof -
  assume pos: "0 < bsz s" and "whole s \<le> p"
  then have "length (disk s) div bsz s \<le> p div bsz s"
    using div_le_mono [of "whole s" p "bsz s"] by (simp add: whole_def)
  then have "length (disk s) div bsz s * bsz s \<le> p div bsz s * bsz s" by (rule mult_le_mono1)
  moreover have "length (disk s) < length (disk s) div bsz s * bsz s + bsz s"
    using pos by (metis add.commute dividend_less_div_times)
  ultimately show ?thesis by linarith
qed

lemma coherent_geometry: "coherent s \<Longrightarrow> geometry s"
  by (simp add: coherent_def)

lemma geometry_pos: "geometry s \<Longrightarrow> 0 < bsz s"
  by (auto simp: geometry_def)

lemma length_view [simp]: "coherent s \<Longrightarrow> length (view s) = length (disk s)"
  by (auto simp: coherent_def view_def geometry_def)

lemma view_clean: "coherent s \<Longrightarrow> cache_state s = CACHE_CLEAN \<Longrightarrow> view s = disk s"
  by (auto simp: coherent_def view_def geometry_def)

lemma view_cached:
  "coherent s \<Longrightarrow> cached_block s \<noteq> - 1 \<Longrightarrow> off + n \<le> bsz s \<Longrightarrow>
    bytes_at (view s) (block_pos s + off) n = bytes_at (cache s) off n"
  by (auto simp: coherent_def view_def geometry_def bytes_at_put_at)

lemma drop_cache_coherent: "geometry s \<Longrightarrow> coherent (drop_cache s) \<and> view (drop_cache s) = disk s"
  by (simp add: coherent_def drop_cache_def view_def geometry_def bsz_def)

section \<open>Flushing and caching blocks\<close>

lemma flush_cache:
  assumes "host_ok h" and "coherent s"
  shows "\<exists>t. device_flush_cache h s = Ok () t \<and> coherent t \<and> view t = view s \<and> disk t = view s
    \<and> cache_state t = CACHE_CLEAN \<and> cached_block t = cached_block s \<and> statics t = statics s"
proof (cases "cache_state s = CACHE_CLEAN")
  case True
  then show ?thesis using assms by (auto simp: device_flush_cache_def view_clean)
next
  case False
  then have nb: "cached_block s \<noteq> - 1" and fits: "block_pos s + bsz s \<le> length (disk s)"
    and geo: "512 \<le> bsz s" "length (cache s) = bsz s" "length (disk s) < 2 ^ 63"
    using assms(2) by (auto simp: coherent_def geometry_def split: if_splits)
  have pos: "unat (cached_block s * block_size s) = block_pos s"
    using fits geo by (simp add: block_pos_def bsz_def kunat)
  have "unat (cached_block s * block_size s) < 2 ^ 63" using fits geo pos by simp
  with set_pos_ok [OF assms(1), of "cached_block s * block_size s" s] obtain n
    where sp: "set_pos h (cached_block s * block_size s) s = Ok () (s\<lparr>fpos := block_pos s, calls := n\<rparr>)"
    by (auto simp: pos)
  define t where "t = s\<lparr>fpos := block_pos s + bsz s, calls := Suc n, disk := view s, cache_state := CACHE_CLEAN\<rparr>"
  have "cache s \<noteq> []" using geo by auto
  then have "device_flush_cache h s = Ok () t"
    using False assms(1) geo(2) nb sp
    by (simp add: device_flush_cache_def fwrite_def host_ok_def tick_def t_def view_def)
  moreover have bp: "block_pos t = block_pos s" "bsz t = bsz s" by (simp_all add: t_def block_pos_def bsz_def)
  moreover have "bytes_at (view s) (block_pos s) (bsz s) = cache s"
    using view_cached [OF assms(2) nb, of 0 "bsz s"] geo by (simp add: bytes_at_def)
  then have "coherent t" using length_view [OF assms(2)] nb fits geo bp by (simp add: coherent_def geometry_def) (simp add: t_def)
  moreover from this have "view t = view s" by (simp add: view_clean t_def)
  ultimately show ?thesis by (auto simp: t_def statics_def)
qed

lemma settle_cache:
  assumes "host_ok h" and "coherent s"
  shows "\<exists>t. (if cache_state s = CACHE_DIRTY then device_flush_cache h s else Ok () s) = Ok () t \<and> coherent t \<and> view t = view s
    \<and> disk t = view s \<and> statics t = statics s \<and> cached_block t = cached_block s \<and> cache_state t = CACHE_CLEAN"
proof (cases "cache_state s")
  case CACHE_CLEAN
  then show ?thesis using view_clean [OF assms(2) CACHE_CLEAN] assms(2) by (intro exI [of _ s]) simp
next
  case CACHE_DIRTY
  then show ?thesis using flush_cache [OF assms] by auto
qed

text \<open>The block of a position, and the way a block that is not in the cache gets there.\<close>

lemma block_index:
  assumes "geometry s" and "p < 18446744073709551616"
  defines "b \<equiv> of_nat p div block_size s"
  shows "unat b = p div bsz s" and "b \<noteq> - 1" and "unat (b * block_size s) = p div bsz s * bsz s"
    and "cached_block s = b \<Longrightarrow> block_pos s = p div bsz s * bsz s"
proof -
  show ub: "unat b = p div bsz s" using assms(2) by (simp add: b_def bsz_def unat_div_distrib kunat)
  have "p div bsz s \<le> p div 512" using assms(1) by (intro div_le_mono2) (auto simp: geometry_def)
  then show "b \<noteq> - 1" using ub assms(2) unat_max_u64 by auto
  show "unat (b * block_size s) = p div bsz s * bsz s"
    using ub assms(2) by (simp add: bsz_def kunat order_le_less_trans [OF div_times_less_eq_dividend])
  show "cached_block s = b \<Longrightarrow> block_pos s = p div bsz s * bsz s" using ub by (simp add: block_pos_def)
qed

lemma cache_block_miss:
  assumes "host_ok h" and "coherent s" and "cached_block s \<noteq> b"
  obtains s1 where "device_cache_block h b s = run_bind (set_pos h (b * block_size s) s1) (\<lambda>_ s.
      let (ok, buf, s) = fread h (unat (block_size s)) (cache s) s; s = s\<lparr>cache := buf\<rparr> in
      if \<not> ok then Fail s else Ok () (s\<lparr>cached_block := b\<rparr>))"
    and "geometry s1" and "disk s1 = view s" and "statics s1 = statics s" and "block_size s1 = block_size s"
    and "cache_state s1 = CACHE_CLEAN"
proof -
  from settle_cache [OF assms(1,2)] obtain s1
    where fl: "(if cache_state s = CACHE_DIRTY then device_flush_cache h s else Ok () s) = Ok () s1"
    and s1: "coherent s1" "disk s1 = view s" "statics s1 = statics s" "cache_state s1 = CACHE_CLEAN"
    by blast
  have bs1: "block_size s1 = block_size s" using s1(3) by (simp add: statics_def)
  have "device_cache_block h b s = run_bind (set_pos h (b * block_size s) s1) (\<lambda>_ s.
      let (ok, buf, s) = fread h (unat (block_size s)) (cache s) s; s = s\<lparr>cache := buf\<rparr> in
      if \<not> ok then Fail s else Ok () (s\<lparr>cached_block := b\<rparr>))"
    using assms(3) by (simp only: device_cache_block_def fl run_bind_simps bs1 if_False)
  then show thesis using that s1 bs1 coherent_geometry by blast
qed

lemma cache_block_Ok:
  assumes "host_ok h" and "coherent s" and "p < whole s"
  defines "b \<equiv> of_nat p div block_size s" and "q \<equiv> p div bsz s * bsz s"
  shows "\<exists>t. device_cache_block h b s = Ok () t \<and> coherent t \<and> view t = view s \<and> statics t = statics s
      \<and> cached_block t = b \<and> b \<noteq> - 1 \<and> block_pos t = q \<and> (disk t = disk s \<or> disk t = view s)"
proof -
  have geo: "geometry s" "512 \<le> bsz s" "length (disk s) < 2 ^ 63"
    using assms(2) by (simp_all add: coherent_def geometry_def)
  have "p < 18446744073709551616" using assms(3) whole_le [of s] geo(3) by simp
  note bl = block_index [OF geo(1) this, folded b_def q_def]
  show ?thesis
  proof (cases "cached_block s = b")
    case True
    then show ?thesis using assms(2) bl by (intro exI [of _ s]) (simp add: device_cache_block_def)
  next
    case False
    obtain s1 where miss: "device_cache_block h b s = run_bind (set_pos h (b * block_size s) s1) (\<lambda>_ s.
      let (ok, buf, s) = fread h (unat (block_size s)) (cache s) s; s = s\<lparr>cache := buf\<rparr> in
      if \<not> ok then Fail s else Ok () (s\<lparr>cached_block := b\<rparr>))"
      and s1: "geometry s1" "disk s1 = view s" "statics s1 = statics s" "block_size s1 = block_size s"
        "cache_state s1 = CACHE_CLEAN"
      by (rule cache_block_miss [OF assms(1,2) False])
    have fits: "q + bsz s \<le> length (view s)"
      using block_in_whole [OF _ assms(3)] geo(2) whole_le [of s] assms(2) by (simp add: q_def)
    then have "q < 2 ^ 63" using geo assms(2) by simp
    with set_pos_ok [OF assms(1), of "b * block_size s" s1] obtain n
      where sp: "set_pos h (b * block_size s) s1 = Ok () (s1\<lparr>fpos := q, calls := n\<rparr>)" by (auto simp: bl)
    define t where "t = s1\<lparr>fpos := q + bsz s, calls := Suc n, cache := bytes_at (view s) q (bsz s), cached_block := b\<rparr>"
    have "unat (block_size s) = bsz s" by (simp add: bsz_def)
    then have "device_cache_block h b s = Ok () t"
      using assms(1) geo(2) fits by (simp add: miss sp fread_def host_ok_def tick_def s1 t_def)
    moreover have bp: "block_pos t = q" "bsz t = bsz s" "disk t = view s" "statics t = statics s" "cached_block t = b"
      using bl s1 by (simp_all add: t_def block_pos_def bsz_def q_def statics_def)
    moreover have "coherent t"
      using bl fits geo bp s1(1,2,5) by (simp add: coherent_def geometry_def) (simp add: t_def)
    moreover from this have "view t = view s" using bp s1 by (simp add: view_clean t_def)
    ultimately show ?thesis using bl by blast
  qed
qed

lemma cache_block_Fail:
  assumes "host_ok h" and "coherent s" and "whole s \<le> p" and "p < 18446744073709551616"
  defines "b \<equiv> of_nat p div block_size s"
  shows "\<exists>t. device_cache_block h b s = Fail t \<and> geometry t \<and> statics t = statics s \<and> disk t = view s"
proof -
  define q where "q = p div bsz s * bsz s"
  have geo: "geometry s" "512 \<le> bsz s" using assms(2) by (simp_all add: coherent_def geometry_def)
  note bl = block_index [OF geo(1) assms(4), folded b_def q_def]
  have beyond: "length (view s) < q + bsz s" using block_beyond [OF _ assms(3)] geo(2) assms(2) by (simp add: q_def)
  then have "cached_block s \<noteq> b" using assms(2) bl by (auto simp: coherent_def)
  from cache_block_miss [OF assms(1,2) this]
  obtain s1 where miss: "device_cache_block h b s = run_bind (set_pos h (b * block_size s) s1) (\<lambda>_ s.
      let (ok, buf, s) = fread h (unat (block_size s)) (cache s) s; s = s\<lparr>cache := buf\<rparr> in
      if \<not> ok then Fail s else Ok () (s\<lparr>cached_block := b\<rparr>))"
    and s1: "geometry s1" "disk s1 = view s" "statics s1 = statics s" "block_size s1 = block_size s"
    .
  consider n where "set_pos h (b * block_size s) s1 = Ok () (s1\<lparr>fpos := q, calls := n\<rparr>)"
    | n p where "set_pos h (b * block_size s) s1 = Fail (s1\<lparr>fpos := p, calls := n\<rparr>)"
    using set_pos_ok [OF assms(1), of "b * block_size s" s1] bl by auto
  then show ?thesis
  proof cases
    case 1
    define t where "t = s1\<lparr>fpos := q, calls := Suc n, cache := take (length (cache s1)) (junk h n @ cache s1)\<rparr>"
    have "unat (block_size s) = bsz s" by (simp add: bsz_def)
    then have "device_cache_block h b s = Fail t"
      using beyond by (simp add: miss 1 fread_def tick_def s1 t_def)
    moreover have "geometry t" using s1(1) by (simp add: geometry_def t_def bsz_def min_absorb1)
    ultimately show ?thesis using s1 by (auto simp: t_def statics_def)
  next
    case 2
    then have "device_cache_block h b s = Fail (s1\<lparr>fpos := p, calls := n\<rparr>)" by (simp add: miss)
    moreover have "geometry (s1\<lparr>fpos := p, calls := n\<rparr>)" using s1 by (simp add: geometry_def bsz_def)
    ultimately show ?thesis using s1 by (auto simp: statics_def)
  qed
qed

section \<open>Ranges\<close>

lemma whole_eqI: "coherent s \<Longrightarrow> coherent t \<Longrightarrow> length (view t) = length (view s) \<Longrightarrow> block_size t = block_size s \<Longrightarrow> whole t = whole s"
  by (simp add: whole_def bsz_def)

lemma whole_same: "coherent s \<Longrightarrow> coherent t \<Longrightarrow> length (view t) = length (view s) \<Longrightarrow> statics t = statics s \<Longrightarrow> whole t = whole s"
  by (simp add: whole_def bsz_def statics_def)

lemma chunk_facts:
  assumes "geometry s" and "progress < count" and "unat loc + unat progress < 18446744073709551616"
  defines "pos \<equiv> unat loc + unat progress" and "offset \<equiv> (loc + progress) mod block_size s"
  defines "chunk \<equiv> next_chunk (block_size s) offset (count - progress)"
  shows "loc + progress = of_nat pos" and "unat offset = pos mod bsz s"
    and "unat chunk = min (unat count - unat progress) (bsz s - pos mod bsz s)"
    and "0 < unat chunk" and "unat (progress + chunk) = unat progress + unat chunk"
    and "unat progress + unat chunk \<le> unat count" and "block_size s \<noteq> 0" and "unat offset + unat chunk \<le> bsz s"
proof -
  show nz: "block_size s \<noteq> 0" using assms(1) by (auto simp: geometry_def bsz_def)
  note next_chunk_progress [OF nz assms(2), of "loc + progress", folded offset_def chunk_def]
  then show "0 < unat chunk" and "unat (progress + chunk) = unat progress + unat chunk"
    and "unat progress + unat chunk \<le> unat count" by simp_all
  show "loc + progress = of_nat pos" by (simp add: pos_def)
  show off: "unat offset = pos mod bsz s"
    using assms(3) by (simp add: offset_def pos_def bsz_def unat_mod_distrib kunat)
  have "unat (count - progress) = unat count - unat progress" using assms(2) by (simp add: kunat word_less_nat_alt)
  moreover have "pos mod bsz s < bsz s" using geometry_pos [OF assms(1)] by simp
  then have "unat (block_size s - offset) = bsz s - pos mod bsz s" using off by (simp add: kunat bsz_def)
  ultimately show "unat chunk = min (unat count - unat progress) (bsz s - pos mod bsz s)"
    by (auto simp: chunk_def next_chunk_def word_less_nat_alt)
  then show "unat offset + unat chunk \<le> bsz s" using off \<open>pos mod bsz s < bsz s\<close> by simp
qed

text \<open>One piece of a transfer: afterwards the cache holds the bytes of the view at the current position.\<close>

lemma chunk_cached:
  assumes "host_ok h" and "coherent s" and "progress < count" and "unat loc + unat count \<le> whole s"
  defines "pos \<equiv> unat loc + unat progress" and "offset \<equiv> (loc + progress) mod block_size s"
  defines "chunk \<equiv> next_chunk (block_size s) offset (count - progress)"
  obtains t where "device_cache_block h ((loc + progress) div block_size s) s = Ok () t" and "coherent t"
    and "view t = view s" and "statics t = statics s" and "cached_block t \<noteq> - 1" and "block_pos t + unat offset = pos"
    and "bytes_at (cache t) (unat offset) (unat chunk) = bytes_at (view s) pos (unat chunk)"
    and "unat offset + unat chunk \<le> bsz t" and "whole t = whole s" and "disk t = disk s \<or> disk t = view s"
    and "0 < unat chunk" and "unat (progress + chunk) = unat progress + unat chunk"
    and "unat progress + unat chunk \<le> unat count" and "block_size s \<noteq> 0"
proof -
  have geo: "geometry s" "length (disk s) < 2 ^ 63" using assms(2) by (auto simp: coherent_def geometry_def)
  have lt: "pos < whole s" using assms(3,4) by (simp add: pos_def word_less_nat_alt)
  then have "unat loc + unat progress < 18446744073709551616" using whole_le [of s] geo by (simp add: pos_def)
  note ch = chunk_facts [OF geo(1) assms(3) this, folded pos_def offset_def, folded chunk_def]
  from cache_block_Ok [OF assms(1,2) lt] obtain t
    where cb: "device_cache_block h (of_nat pos div block_size s) s = Ok () t" and t: "coherent t" "view t = view s"
      "statics t = statics s" "cached_block t \<noteq> - 1" "block_pos t = pos div bsz s * bsz s" "disk t = disk s \<or> disk t = view s"
    by auto
  have bs: "bsz t = bsz s" using t(3) by (simp add: statics_def bsz_def)
  have at_pos: "block_pos t + unat offset = pos" by (simp add: t(5) ch)
  then have "bytes_at (cache t) (unat offset) (unat chunk) = bytes_at (view s) pos (unat chunk)"
    using view_cached [OF t(1,4), of "unat offset" "unat chunk"] ch(8) t(2) bs by simp
  moreover have "whole t = whole s" using assms(2) t by (intro whole_same) auto
  ultimately show thesis
    by (rule that [OF cb [folded ch(1)] t(1,2,3,4) at_pos _ ch(8) [folded bs] _ t(6) ch(4,5,6,7)])
qed

lemma read_loop_Ok:
  assumes "host_ok h" and "coherent s" and "unat progress \<le> unat count" and "unat loc + unat count \<le> whole s"
  shows "\<exists>t. device_read_loop h loc count progress buf s
      = Ok (buf @ bytes_at (view s) (unat loc + unat progress) (unat count - unat progress)) t
    \<and> coherent t \<and> view t = view s \<and> statics t = statics s \<and> (disk t = disk s \<or> disk t = view s)"
  using assms(2-4)
proof (induction "unat count - unat progress" arbitrary: progress buf s rule: less_induct)
  case less
  show ?case
  proof (cases "progress < count")
    case False
    then have "unat count - unat progress = 0" by (simp add: word_less_nat_alt)
    then show ?thesis using False less.prems by (simp add: device_read_loop.simps [of h loc count progress])
  next
    case True
    define pos offset chunk where "pos = unat loc + unat progress" and "offset = (loc + progress) mod block_size s"
      and "chunk = next_chunk (block_size s) offset (count - progress)"
    from chunk_cached [OF assms(1) less.prems(1) True less.prems(3), folded pos_def offset_def, folded chunk_def]
    obtain t1 where cb: "device_cache_block h ((loc + progress) div block_size s) s = Ok () t1"
      and t1: "coherent t1" "view t1 = view s" "statics t1 = statics s" "whole t1 = whole s" "disk t1 = disk s \<or> disk t1 = view s"
      and got: "bytes_at (cache t1) (unat offset) (unat chunk) = bytes_at (view s) pos (unat chunk)"
      and ch: "0 < unat chunk" "unat (progress + chunk) = unat progress + unat chunk"
        "unat progress + unat chunk \<le> unat count" "block_size s \<noteq> 0"
      by blast
    have step: "device_read_loop h loc count progress buf s
        = device_read_loop h loc count (progress + chunk) (buf @ bytes_at (view s) pos (unat chunk)) t1"
      using True ch(4) cb unfolding got [symmetric]
      by (subst device_read_loop.simps) (simp add: Let_def offset_def chunk_def)
    obtain t where "device_read_loop h loc count (progress + chunk) (buf @ bytes_at (view s) pos (unat chunk)) t1
        = Ok ((buf @ bytes_at (view s) pos (unat chunk)) @ bytes_at (view t1) (unat loc + unat (progress + chunk)) (unat count - unat (progress + chunk))) t"
      "coherent t" "view t = view t1" "statics t = statics t1" "disk t = disk t1 \<or> disk t = view t1"
      using less.hyps [of "progress + chunk" t1 "buf @ bytes_at (view s) pos (unat chunk)"] ch less.prems t1
      by fastforce
    moreover have "bytes_at (view s) pos (unat chunk) @ bytes_at (view s) (unat loc + unat (progress + chunk)) (unat count - unat (progress + chunk))
        = bytes_at (view s) pos (unat count - unat progress)"
      using bytes_at_append [of pos "unat chunk" "unat count - unat progress - unat chunk" "view s"] ch less.prems whole_le [of s]
      by (simp add: pos_def add.assoc)
    ultimately show ?thesis using step t1 by (auto simp: pos_def)
  qed
qed

lemma read_loop_Fail:
  assumes "host_ok h" and "coherent s" and "progress < count" and "unat loc + unat progress < 18446744073709551616"
    and "whole s < unat loc + unat count"
  shows "\<exists>t. device_read_loop h loc count progress buf s = Fail t \<and> geometry t \<and> statics t = statics s \<and> disk t = view s"
  using assms(2-5)
proof (induction "unat count - unat progress" arbitrary: progress buf s rule: less_induct)
  case less
  define pos offset chunk where "pos = unat loc + unat progress" and "offset = (loc + progress) mod block_size s"
    and "chunk = next_chunk (block_size s) offset (count - progress)"
  have geo: "geometry s" "length (disk s) < 2 ^ 63" using less.prems(1) by (auto simp: coherent_def geometry_def)
  note ch = chunk_facts [OF geo(1) less.prems(2,3), folded pos_def offset_def, folded chunk_def]
  have step: "device_read_loop h loc count progress buf s = run_bind (device_cache_block h (of_nat pos div block_size s) s) (\<lambda>_ s.
      device_read_loop h loc count (progress + chunk) (buf @ bytes_at (cache s) (unat offset) (unat chunk)) s)"
    using less.prems(2) ch(1,7) by (subst device_read_loop.simps) (simp add: Let_def offset_def chunk_def)
  show ?case
  proof (cases "pos < whole s")
    case True
    from cache_block_Ok [OF assms(1) less.prems(1) this] obtain t1
      where cb: "device_cache_block h (of_nat pos div block_size s) s = Ok () t1" and t1: "coherent t1" "view t1 = view s"
        "statics t1 = statics s"
      by auto
    have "whole t1 = whole s" using less.prems(1) t1 by (intro whole_same) auto
    moreover have "pos + unat chunk \<le> whole s"
      using block_in_whole [OF geometry_pos [OF geo(1)] True] ch(2,3,8) div_mult_mod_eq [of pos "bsz s"] by linarith
    moreover from this have "progress + chunk < count"
      using less.prems(4) ch by (simp add: word_less_nat_alt pos_def)
    moreover have "pos + unat chunk < 18446744073709551616"
      using \<open>pos + unat chunk \<le> whole s\<close> whole_le [of s] geo by simp
    moreover from this have "unat loc + unat (progress + chunk) < 18446744073709551616" by (simp add: pos_def ch(5))
    ultimately have "\<exists>t. device_read_loop h loc count (progress + chunk) (buf @ bytes_at (cache t1) (unat offset) (unat chunk)) t1 = Fail t
        \<and> geometry t \<and> statics t = statics t1 \<and> disk t = view t1"
      using less.prems(4) ch(4,5,6) t1(1) by (intro less.hyps) auto
    then show ?thesis using t1 unfolding step cb by simp
  next
    case False
    with cache_block_Fail [OF assms(1) less.prems(1), of pos] less.prems(3)
    show ?thesis unfolding step by (auto simp: pos_def)
  qed
qed

lemma cache_update:
  assumes "coherent s" and "cached_block s \<noteq> - 1" and "off + length xs \<le> bsz s"
  defines "t \<equiv> s\<lparr>cache := put_at (cache s) off xs, cache_state := CACHE_DIRTY\<rparr>"
  shows "coherent t" and "view t = put_at (view s) (block_pos s + off) xs" and "statics t = statics s"
    and "disk t = disk s" and "whole t = whole s"
proof -
  have c: "length (cache s) = bsz s" "block_pos s + bsz s \<le> length (disk s)"
    using assms(1,2) by (auto simp: coherent_def geometry_def)
  have same: "bsz t = bsz s" "block_pos t = block_pos s" by (simp_all add: t_def bsz_def block_pos_def)
  show "coherent t" using assms(1-3) c same by (simp add: coherent_def geometry_def) (simp add: t_def)
  show "view t = put_at (view s) (block_pos s + off) xs"
    using assms(2,3) c same by (simp add: view_def put_at_put_at) (simp add: t_def put_at_put_at)
  show "statics t = statics s" "disk t = disk s" "whole t = whole s"
    using same by (simp_all add: t_def statics_def whole_def)
qed

lemma write_loop_Ok:
  assumes "host_ok h" and "coherent s" and "unat progress \<le> unat count" and "unat loc + unat count \<le> whole s"
    and "length buf = unat count"
  defines "pos \<equiv> unat loc + unat progress"
  shows "\<exists>t. device_write_loop h buf loc count progress s = Ok () t \<and> coherent t
    \<and> view t = put_at (view s) pos (drop (unat progress) buf) \<and> statics t = statics s
    \<and> (\<forall>i<length (disk s). i < pos \<or> unat loc + unat count \<le> i \<longrightarrow> disk t ! i = disk s ! i \<or> disk t ! i = view s ! i)"
  unfolding pos_def using assms(2-5)
proof (induction "unat count - unat progress" arbitrary: progress s rule: less_induct)
  case less
  have len: "unat loc + unat count \<le> length (view s)" using less.prems whole_le [of s] by simp
  show ?case
  proof (cases "progress < count")
    case False
    then have "unat count - unat progress = 0" by (simp add: word_less_nat_alt)
    then show ?thesis using False less.prems len by (simp add: device_write_loop.simps [of h buf loc count progress])
  next
    case True
    define pos offset chunk where "pos = unat loc + unat progress" and "offset = (loc + progress) mod block_size s"
      and "chunk = next_chunk (block_size s) offset (count - progress)"
    from chunk_cached [OF assms(1) less.prems(1) True less.prems(3), folded pos_def offset_def, folded chunk_def]
    obtain t1 where cb: "device_cache_block h ((loc + progress) div block_size s) s = Ok () t1"
      and t1: "coherent t1" "view t1 = view s" "statics t1 = statics s" "whole t1 = whole s" "disk t1 = disk s \<or> disk t1 = view s"
        "cached_block t1 \<noteq> - 1" "block_pos t1 + unat offset = pos" "unat offset + unat chunk \<le> bsz t1"
      and ch: "0 < unat chunk" "unat (progress + chunk) = unat progress + unat chunk"
        "unat progress + unat chunk \<le> unat count" "block_size s \<noteq> 0"
      by blast
    define piece where "piece = bytes_at buf (unat progress) (unat chunk)"
    define t2 where "t2 = t1\<lparr>cache := put_at (cache t1) (unat offset) piece, cache_state := CACHE_DIRTY\<rparr>"
    have piece: "length piece = unat chunk" using ch less.prems by (simp add: piece_def)
    have step: "device_write_loop h buf loc count progress s = device_write_loop h buf loc count (progress + chunk) t2"
      using True ch(4) cb by (subst device_write_loop.simps) (simp add: Let_def offset_def chunk_def piece_def t2_def)
    have t2: "coherent t2" "view t2 = put_at (view s) pos piece" "statics t2 = statics s" "disk t2 = disk t1" "whole t2 = whole s"
      using cache_update [OF t1(1,6), of "unat offset" piece] t1 piece by (simp_all add: t2_def)
    from less.hyps [of "progress + chunk" t2] obtain t where t: "device_write_loop h buf loc count (progress + chunk) t2 = Ok () t"
      "coherent t" "view t = put_at (view t2) (unat loc + unat (progress + chunk)) (drop (unat (progress + chunk)) buf)"
      "statics t = statics t2"
      "\<forall>i<length (disk t2). i < unat loc + unat (progress + chunk) \<or> unat loc + unat count \<le> i \<longrightarrow>
         disk t ! i = disk t2 ! i \<or> disk t ! i = view t2 ! i"
      using ch less.prems t2 by fastforce
    have "piece @ drop (unat progress + unat chunk) buf = drop (unat progress) buf"
      by (simp add: piece_def bytes_at_def add.commute flip: drop_drop)
    moreover have "put_at (view t2) (pos + length piece) (drop (unat progress + unat chunk) buf)
        = put_at (view s) pos (piece @ drop (unat progress + unat chunk) buf)"
      unfolding t2(2) using len less.prems ch piece by (intro put_at_append) (simp add: pos_def)
    ultimately have v: "view t = put_at (view s) pos (drop (unat progress) buf)"
      using t(3) ch(2) piece by (simp add: pos_def add.assoc)
    have "disk t ! i = disk s ! i \<or> disk t ! i = view s ! i"
      if "i < length (disk s)" "i < pos \<or> unat loc + unat count \<le> i" for i
    proof -
      have l: "length (disk t2) = length (disk s)" using t1(1,2,5) t2(4) less.prems(1) by auto
      have "view t2 ! i = view s ! i"
        using that ch piece len less.prems(1) unfolding t2(2) by (subst nth_put_at) (auto simp: pos_def)
      moreover have "disk t ! i = disk t2 ! i \<or> disk t ! i = view t2 ! i"
        using t(5) that l ch(2) by (auto simp: pos_def)
      ultimately show ?thesis using t1(5) t2(4) by auto
    qed
    then show ?thesis using step t(1,2) v t(4) t2(3) by (auto simp: pos_def)
  qed
qed

end
