(* ===== verification/Limine_Journal.thy ===== *)
theory Limine_Journal
  imports Limine_Cache
begin

text \<open>
  The uninstall data as an undo log: an abstract account of logs that record what a write replaces, and
  the proof that \<open>_device_write\<close> keeps such a log, that \<open>uninstall\<close> replays it, and that a stored log is
  loaded again as it was.
\<close>

section \<open>Undo logs\<close>

type_synonym log_entry = "nat \<times> u8 list"

definition covers :: "log_entry \<Rightarrow> nat \<Rightarrow> bool" where
  "covers e i \<longleftrightarrow> fst e \<le> i \<and> i < fst e + length (snd e)"

fun replay :: "log_entry list \<Rightarrow> u8 list \<Rightarrow> u8 list" where
  "replay [] d = d"
| "replay (e # es) d = replay es (put_at d (fst e) (snd e))"

text \<open>The original contents outside of everything the log records.\<close>

definition agrees :: "u8 list \<Rightarrow> log_entry list \<Rightarrow> u8 list \<Rightarrow> bool" where
  "agrees orig es d \<longleftrightarrow> length d = length orig \<and> (\<forall>i<length orig. (\<forall>e\<in>set es. \<not> covers e i) \<longrightarrow> d ! i = orig ! i)"

text \<open>Replaying the log from its end gives the original contents, whatever the recorded places hold.\<close>

definition restores :: "u8 list \<Rightarrow> log_entry list \<Rightarrow> bool" where
  "restores orig es \<longleftrightarrow> (\<forall>d. agrees orig es d \<longrightarrow> replay (rev es) d = orig)"

definition undoable :: "u8 list \<Rightarrow> log_entry list \<Rightarrow> u8 list \<Rightarrow> u8 list \<Rightarrow> bool" where
  "undoable orig es content backing \<longleftrightarrow> restores orig es \<and> agrees orig es content \<and> agrees orig es backing"

lemma undoable_init: "undoable d [] d d"
  by (auto simp: undoable_def restores_def agrees_def intro: nth_equalityI)

lemma restores_snoc:
  assumes "restores orig es" and "agrees orig es v" and "l + n \<le> length orig"
  shows "restores orig (es @ [(l, bytes_at v l n)])"
  unfolding restores_def
proof (intro allI impI)
  fix d assume d: "agrees orig (es @ [(l, bytes_at v l n)]) d"
  have v: "length v = length orig" using assms(2) by (simp add: agrees_def)
  have len: "length d = length orig" using d by (simp add: agrees_def)
  have "agrees orig es (put_at d l (bytes_at v l n))"
    unfolding agrees_def
  proof (intro conjI allI impI)
    fix i assume i: "i < length orig" "\<forall>e\<in>set es. \<not> covers e i"
    then have "v ! i = orig ! i" using assms(2) by (simp add: agrees_def)
    moreover have "d ! i = orig ! i" if "\<not> (l \<le> i \<and> i < l + n)"
      using d i that assms(3) v by (auto simp: agrees_def covers_def)
    ultimately show "put_at d l (bytes_at v l n) ! i = orig ! i"
      using i assms(3) v len by (auto simp: nth_put_at nth_bytes_at)
  qed (use assms(3) v len in simp)
  then show "replay (rev (es @ [(l, bytes_at v l n)])) d = orig" using assms(1) by (simp add: restores_def)
qed

lemma agrees_write:
  assumes "agrees orig es v" and "l + length xs \<le> length orig"
  shows "agrees orig (es @ [(l, bytes_at v l (length xs))]) (put_at v l xs)"
  using assms by (auto simp: agrees_def covers_def nth_put_at)

lemma agrees_outside:
  assumes "agrees orig es v" and "agrees orig es b" and "length c = length b" and "l + n \<le> length orig"
    and "\<And>i. i < length b \<Longrightarrow> i < l \<or> l + n \<le> i \<Longrightarrow> c ! i = b ! i \<or> c ! i = v ! i"
  shows "agrees orig (es @ [(l, bytes_at v l n)]) c"
proof -
  have lv: "length v = length orig" "length b = length orig" using assms(1,2) by (simp_all add: agrees_def)
  have "c ! i = orig ! i" if i: "i < length orig" "\<forall>e\<in>set (es @ [(l, bytes_at v l n)]). \<not> covers e i" for i
  proof -
    have "i < l \<or> l + n \<le> i" using i(2) assms(4) lv by (auto simp: covers_def)
    then have "c ! i = b ! i \<or> c ! i = v ! i" using assms(5) i lv by simp
    moreover have "v ! i = orig ! i" "b ! i = orig ! i" using assms(1,2) i by (auto simp: agrees_def)
    ultimately show ?thesis by auto
  qed
  then show ?thesis using lv assms(3) by (simp add: agrees_def)
qed

text \<open>
  A store with a write-back cache and an undo log: \<open>content\<close> is what a client reads, \<open>backing\<close> what is on
  the medium. A write records what it replaces; in between, cached data may reach the medium.
\<close>

inductive log_runs :: "(u8 list \<Rightarrow> nat \<Rightarrow> 's \<Rightarrow> 's \<Rightarrow> bool) \<Rightarrow> ('s \<Rightarrow> 's \<Rightarrow> bool) \<Rightarrow> 's \<Rightarrow> 's \<Rightarrow> bool"
  for stores settle
  where
  stop: "log_runs stores settle s s"
| wrote: "log_runs stores settle s t \<Longrightarrow> stores xs l t u \<Longrightarrow> log_runs stores settle s u"
| settled: "log_runs stores settle s t \<Longrightarrow> settle t u \<Longrightarrow> log_runs stores settle s u"

locale undo_log =
  fixes inv :: "'s \<Rightarrow> bool"
    and content backing :: "'s \<Rightarrow> u8 list"
    and log :: "'s \<Rightarrow> log_entry list"
    and stores :: "u8 list \<Rightarrow> nat \<Rightarrow> 's \<Rightarrow> 's \<Rightarrow> bool"
    and settle :: "'s \<Rightarrow> 's \<Rightarrow> bool"
  assumes write_inv: "inv s \<Longrightarrow> stores xs l s t \<Longrightarrow> inv t"
    and write_range: "inv s \<Longrightarrow> stores xs l s t \<Longrightarrow> l + length xs \<le> length (content s)"
    and write_content: "inv s \<Longrightarrow> stores xs l s t \<Longrightarrow> content t = put_at (content s) l xs"
    and write_log: "inv s \<Longrightarrow> stores xs l s t \<Longrightarrow> log t = log s @ [(l, bytes_at (content s) l (length xs))]"
    and write_backing: "inv s \<Longrightarrow> stores xs l s t \<Longrightarrow> i < length (backing s) \<Longrightarrow> i < l \<or> l + length xs \<le> i \<Longrightarrow>
      backing t ! i = backing s ! i \<or> backing t ! i = content s ! i"
    and write_size: "inv s \<Longrightarrow> stores xs l s t \<Longrightarrow> length (backing t) = length (backing s)"
    and settle_inv: "inv s \<Longrightarrow> settle s t \<Longrightarrow> inv t"
    and settle_content: "inv s \<Longrightarrow> settle s t \<Longrightarrow> content t = content s"
    and settle_log: "inv s \<Longrightarrow> settle s t \<Longrightarrow> log t = log s"
    and settle_backing: "inv s \<Longrightarrow> settle s t \<Longrightarrow> backing t = backing s \<or> backing t = content s"
begin

lemma write_undoable:
  assumes "inv s" and "stores xs l s t" and "undoable orig (log s) (content s) (backing s)"
  shows "undoable orig (log t) (content t) (backing t)"
proof -
  have u: "restores orig (log s)" "agrees orig (log s) (content s)" "agrees orig (log s) (backing s)"
    using assms(3) by (simp_all add: undoable_def)
  have r: "l + length xs \<le> length orig" using write_range [OF assms(1,2)] u(2) by (simp add: agrees_def)
  have "agrees orig (log s @ [(l, bytes_at (content s) l (length xs))]) (backing t)"
    using agrees_outside [OF u(2,3) write_size [OF assms(1,2)] r] write_backing [OF assms(1,2)] by blast
  then show ?thesis
    using u r by (simp add: undoable_def write_log [OF assms(1,2)] write_content [OF assms(1,2)] restores_snoc agrees_write)
qed

lemma settle_undoable:
  assumes "inv s" and "settle s t" and "undoable orig (log s) (content s) (backing s)"
  shows "undoable orig (log t) (content t) (backing t)"
  using settle_backing [OF assms(1,2)] assms(3)
  by (auto simp: undoable_def settle_log [OF assms(1,2)] settle_content [OF assms(1,2)])

text \<open>Any run of writes and write-backs can be undone.\<close>

lemma runs_undoable:
  "log_runs stores settle s t \<Longrightarrow> inv s \<Longrightarrow> undoable orig (log s) (content s) (backing s) \<Longrightarrow>
    inv t \<and> undoable orig (log t) (content t) (backing t)"
  by (induction rule: log_runs.induct)
    (auto intro: write_inv settle_inv elim: write_undoable settle_undoable)

end

section \<open>Reads and writes of the device\<close>

lemma device_read_Ok:
  assumes "host_ok h" and "coherent s" and "unat loc + unat count \<le> whole s"
  shows "\<exists>t. device_read h loc count s = Ok (bytes_at (view s) (unat loc) (unat count)) t
    \<and> coherent t \<and> view t = view s \<and> statics t = statics s \<and> (disk t = disk s \<or> disk t = view s)"
  using read_loop_Ok [OF assms(1,2), of 0 count loc "[]"] assms(3) by (simp add: device_read_def)

lemma device_read_Fail:
  assumes "host_ok h" and "coherent s" and "0 < count" and "whole s < unat loc + unat count"
  shows "\<exists>t. device_read h loc count s = Fail t \<and> geometry t \<and> statics t = statics s \<and> disk t = view s"
  using read_loop_Fail [OF assms(1,2), of 0 count loc "[]"] assms(3,4) by (simp add: device_read_def)

text \<open>The entries that count, as an undo log. Every entry lies on whole blocks and is not empty.\<close>

definition live_bytes :: "heap_bytes \<Rightarrow> u8 list" where
  "live_bytes p = (case p of Live d \<Rightarrow> d | _ \<Rightarrow> [])"

definition entries :: "installer \<Rightarrow> uninstall_data list" where
  "entries s = take (unat (uninstall_data_i s)) (uninstall_data s)"

definition log_entry_of :: "uninstall_data \<Rightarrow> log_entry" where
  "log_entry_of ud = (unat (ud_loc ud), live_bytes (ud_data ud))"

definition journal :: "installer \<Rightarrow> log_entry list" where
  "journal s = map log_entry_of (entries s)"

definition entry_ok :: "nat \<Rightarrow> uninstall_data \<Rightarrow> bool" where
  "entry_ok n ud \<longleftrightarrow> (case ud_data ud of Live d \<Rightarrow> length d = unat (ud_count ud) | _ \<Rightarrow> False)
     \<and> 0 < unat (ud_count ud) \<and> unat (ud_loc ud) + unat (ud_count ud) \<le> n"

definition journal_wf :: "installer \<Rightarrow> bool" where
  "journal_wf s \<longleftrightarrow> length (uninstall_data s) = UNINSTALL_DATA_MAX \<and> unat (uninstall_data_i s) \<le> UNINSTALL_DATA_MAX
     \<and> list_all (entry_ok (whole s)) (entries s)"

lemma set_entry_frame [simp]:
  "disk (set_entry i ud s) = disk s" "view (set_entry i ud s) = view s" "coherent (set_entry i ud s) = coherent s"
  "geometry (set_entry i ud s) = geometry s" "whole (set_entry i ud s) = whole s" "block_size (set_entry i ud s) = block_size s"
  "uninstalling (set_entry i ud s) = uninstalling s" "udfile (set_entry i ud s) = udfile s"
  "uninstall_data_i (set_entry i ud s) = uninstall_data_i s"
  by (simp_all add: set_entry_def view_def coherent_def geometry_def whole_def bsz_def block_pos_def)

lemma tick_frame [simp]:
  "disk (tick s) = disk s" "view (tick s) = view s" "coherent (tick s) = coherent s" "geometry (tick s) = geometry s"
  "whole (tick s) = whole s" "statics (tick s) = statics s"
  by (simp_all add: tick_def view_def coherent_def geometry_def whole_def bsz_def block_pos_def statics_def)

lemma statics_eqD:
  assumes "statics t = statics s"
  shows "uninstall_data t = uninstall_data s" "uninstall_data_i t = uninstall_data_i s" "uninstalling t = uninstalling s"
    "block_size t = block_size s" "udfile t = udfile s" "entries t = entries s" "journal t = journal s"
  using assms by (simp_all add: statics_def entries_def journal_def)

text \<open>Updating an entry that does not count yet.\<close>

lemma free_entry_keeps:
  assumes "journal_wf s" and "uninstall_data t = (uninstall_data s)[unat (uninstall_data_i s) := ud]"
    and "uninstall_data_i t = uninstall_data_i s" and "whole t = whole s"
  shows "entries t = entries s" and "journal t = journal s" and "journal_wf t"
proof -
  show e: "entries t = entries s" by (simp add: entries_def assms)
  then show "journal t = journal s" by (simp add: journal_def)
  show "journal_wf t" using e assms by (simp add: journal_wf_def)
qed

lemma entries_snoc:
  assumes "journal_wf s" and "unat (uninstall_data_i s) < UNINSTALL_DATA_MAX"
    and "uninstall_data t = (uninstall_data s)[unat (uninstall_data_i s) := ud]"
    and "uninstall_data_i t = uninstall_data_i s + 1" and "whole t = whole s" and "entry_ok (whole s) ud"
  shows "journal t = journal s @ [log_entry_of ud]" and "journal_wf t"
proof -
  have i: "unat (uninstall_data_i s + 1) = Suc (unat (uninstall_data_i s))"
    using assms(2) by (subst unat_add_u64) (simp_all add: UNINSTALL_DATA_MAX_def)
  have e: "entries t = entries s @ [ud]"
    using assms(1,2) unfolding entries_def assms(3,4) i journal_wf_def by (simp add: take_Suc_conv_app_nth)
  then show "journal t = journal s @ [log_entry_of ud]" by (simp add: journal_def)
  show "journal_wf t" using assms e i by (simp add: journal_wf_def)
qed

lemma device_write_Ok:
  assumes h: "host_ok h" and s: "coherent s" "\<not> uninstalling s" "journal_wf s" "unat (uninstall_data_i s) < UNINSTALL_DATA_MAX"
    and xs: "length xs = unat count" "0 < count" "unat loc + unat count \<le> whole s"
  shows "\<exists>t. device_write h xs loc count s = Ok () t \<and> coherent t \<and> view t = put_at (view s) (unat loc) xs
    \<and> journal t = journal s @ [(unat loc, bytes_at (view s) (unat loc) (unat count))] \<and> journal_wf t
    \<and> \<not> uninstalling t \<and> block_size t = block_size s \<and> udfile t = udfile s \<and> whole t = whole s
    \<and> (\<forall>i<length (disk s). i < unat loc \<or> unat loc + unat count \<le> i \<longrightarrow> disk t ! i = disk s ! i \<or> disk t ! i = view s ! i)"
proof -
  define i where "i = unat (uninstall_data_i s)"
  define old where "old = bytes_at (view s) (unat loc) (unat count)"
  from device_read_Ok [OF h, of "tick s" loc count] s xs obtain s1
    where rd: "device_read h loc count (tick s) = Ok old s1" and s1: "coherent s1" "view s1 = view s" "statics s1 = statics s"
      "disk s1 = disk s \<or> disk s1 = view s"
    by (auto simp: old_def)
  define ud where "ud = \<lparr>ud_data = Live old, ud_loc = loc, ud_count = count\<rparr>"
  have w1: "whole s1 = whole s" using s(1) s1 by (intro whole_same) auto
  from write_loop_Ok [OF h, of "set_entry i ud s1" 0 count loc xs] xs s1 w1 obtain t
    where wr: "device_write_loop h xs loc count 0 (set_entry i ud s1) = Ok () t" and t: "coherent t"
      "view t = put_at (view s) (unat loc) xs" "statics t = statics (set_entry i ud s1)"
      "\<forall>i<length (disk s1). i < unat loc \<or> unat loc + unat count \<le> i \<longrightarrow> disk t ! i = disk s1 ! i \<or> disk t ! i = view s1 ! i"
    by auto
  define u where "u = t\<lparr>uninstall_data_i := uninstall_data_i t + 1\<rparr>"
  have "device_write h xs loc count s = Ok () u"
    using h s(2,4) rd wr unfolding device_write_def
    by (simp add: Let_def i_def host_ok_def ud_def u_def)
  moreover have eq: "coherent u = coherent t" "view u = view t" "whole u = whole t" "disk u = disk t"
    by (simp_all add: u_def coherent_def geometry_def whole_def bsz_def block_pos_def view_def)
  moreover have "whole t = whole s"
    using t(1,2) s(1) xs(1,3) whole_le [of s] statics_eqD(4) [OF t(3)] statics_eqD(4) [OF s1(3)]
    by (intro whole_eqI) auto
  moreover have du: "uninstall_data u = (uninstall_data s)[unat (uninstall_data_i s) := ud]"
    "uninstall_data_i u = uninstall_data_i s + 1"
    using statics_eqD(1,2) [OF t(3)] statics_eqD(1,2) [OF s1(3)] by (simp_all add: u_def set_entry_def i_def)
  moreover have "entry_ok (whole s) ud"
    using xs s(1) whole_le [of s] by (simp add: entry_ok_def ud_def old_def unat_gt_0)
  then have "journal u = journal s @ [log_entry_of ud]" "journal_wf u"
    using entries_snoc [OF s(3,4) du _ \<open>entry_ok (whole s) ud\<close>] eq(3) \<open>whole t = whole s\<close> by simp_all
  moreover have "\<not> uninstalling u" "block_size u = block_size s" "udfile u = udfile s"
    using statics_eqD [OF t(3)] statics_eqD [OF s1(3)] s(2) by (simp_all add: u_def)
  moreover have "length (disk s1) = length (disk s)" using s1 s(1) by (metis length_view)
  ultimately show ?thesis using t s1 by (auto simp: log_entry_of_def ud_def live_bytes_def old_def)
qed

text \<open>A write that fails has at most written back the cache; the log is as before.\<close>

lemma device_write_Fail:
  assumes h: "host_ok h" and s: "coherent s" "\<not> uninstalling s" "journal_wf s" and "0 < count"
    and "unat (uninstall_data_i s) \<ge> UNINSTALL_DATA_MAX \<or> whole s < unat loc + unat count"
  shows "\<exists>t. device_write h xs loc count s = Fail t \<and> geometry t \<and> journal t = journal s \<and> journal_wf t
    \<and> udfile t = udfile s \<and> (disk t = disk s \<or> disk t = view s)"
proof (cases "unat (uninstall_data_i s) \<ge> UNINSTALL_DATA_MAX")
  case True
  then show ?thesis using s by (simp add: device_write_def Let_def coherent_geometry)
next
  case False
  with device_read_Fail [OF h, of "tick s" count loc] s assms(5,6) obtain t
    where rd: "device_read h loc count (tick s) = Fail t" and t: "geometry t" "statics t = statics s" "disk t = view s"
    by auto
  define i where "i = unat (uninstall_data_i s)"
  define u where "u = set_entry i ((uninstall_data s ! i)\<lparr>ud_data := Freed\<rparr>) t"
  have "device_write h xs loc count s = Fail u"
    using h s(2) False rd unfolding device_write_def by (simp add: Let_def i_def u_def host_ok_def)
  moreover have "whole u = whole s"
    using t s(1) statics_eqD(4) [OF t(2)] by (simp add: u_def whole_def bsz_def)
  then have "journal u = journal s" "journal_wf u"
    using free_entry_keeps [OF s(3), of u] statics_eqD [OF t(2)] by (auto simp: u_def set_entry_def i_def)
  ultimately show ?thesis using t statics_eqD [OF t(2)] by (auto simp: u_def)
qed

section \<open>The device keeps an undo log\<close>

definition device_inv :: "host \<Rightarrow> installer \<Rightarrow> bool" where
  "device_inv h s \<longleftrightarrow> host_ok h \<and> coherent s \<and> journal_wf s \<and> \<not> uninstalling s"

definition device_stores :: "host \<Rightarrow> u8 list \<Rightarrow> nat \<Rightarrow> installer \<Rightarrow> installer \<Rightarrow> bool" where
  "device_stores h xs l s t \<longleftrightarrow> (\<exists>loc count. unat loc = l \<and> unat count = length xs \<and> xs \<noteq> []
     \<and> device_write h xs loc count s = Ok () t)"

definition device_settles :: "host \<Rightarrow> installer \<Rightarrow> installer \<Rightarrow> bool" where
  "device_settles h s t \<longleftrightarrow> (\<exists>loc count xs. 0 < count \<and> device_read h loc count s = Ok xs t) \<or> device_flush_cache h s = Ok () t"

lemma device_stores_effect:
  assumes "device_inv h s" and "device_stores h xs l s t"
  shows "device_inv h t \<and> l + length xs \<le> length (view s) \<and> view t = put_at (view s) l xs
    \<and> journal t = journal s @ [(l, bytes_at (view s) l (length xs))]
    \<and> (\<forall>i<length (disk s). i < l \<or> l + length xs \<le> i \<longrightarrow> disk t ! i = disk s ! i \<or> disk t ! i = view s ! i)
    \<and> length (disk t) = length (disk s)"
proof -
  from assms(2) obtain loc count where l: "unat loc = l" "unat count = length xs" "xs \<noteq> []"
    and wr: "device_write h xs loc count s = Ok () t" by (auto simp: device_stores_def)
  have inv: "host_ok h" "coherent s" "\<not> uninstalling s" "journal_wf s" using assms(1) by (simp_all add: device_inv_def)
  have pos: "0 < count" using l by (auto simp: word_gt_0)
  have ok: "unat (uninstall_data_i s) < UNINSTALL_DATA_MAX" "unat loc + unat count \<le> whole s"
    using device_write_Fail [OF inv pos, of loc xs] wr by fastforce+
  from device_write_Ok [OF inv ok(1) _ pos ok(2), of xs] l(2) wr
  have e: "coherent t" "view t = put_at (view s) (unat loc) xs"
    "journal t = journal s @ [(unat loc, bytes_at (view s) (unat loc) (unat count))]" "journal_wf t" "\<not> uninstalling t"
    "\<forall>i<length (disk s). i < unat loc \<or> unat loc + unat count \<le> i \<longrightarrow> disk t ! i = disk s ! i \<or> disk t ! i = view s ! i"
    by auto
  have range: "l + length xs \<le> length (view s)" using ok(2) l whole_le [of s] inv(2) by simp
  then have "length (view t) = length (view s)" using e(2) l by simp
  then have "length (disk t) = length (disk s)" using e(1) inv(2) by simp
  then show ?thesis using e inv l range by (simp add: device_inv_def)
qed

lemma device_settles_effect:
  assumes "device_inv h s" and "device_settles h s t"
  shows "device_inv h t \<and> view t = view s \<and> journal t = journal s \<and> (disk t = disk s \<or> disk t = view s)"
proof -
  have inv: "host_ok h" "coherent s" "journal_wf s" "\<not> uninstalling s" using assms(1) by (simp_all add: device_inv_def)
  have e: "coherent t \<and> view t = view s \<and> statics t = statics s \<and> (disk t = disk s \<or> disk t = view s)"
    using assms(2) unfolding device_settles_def
  proof
    assume "\<exists>loc count xs. 0 < count \<and> device_read h loc count s = Ok xs t"
    then obtain loc count xs where r: "0 < count" "device_read h loc count s = Ok xs t" by blast
    then have "unat loc + unat count \<le> whole s" using device_read_Fail [OF inv(1,2) r(1), of loc] by fastforce
    then show ?thesis using device_read_Ok [OF inv(1,2)] r(2) by fastforce
  next
    assume "device_flush_cache h s = Ok () t"
    then show ?thesis using flush_cache [OF inv(1,2)] by fastforce
  qed
  then have st: "statics t = statics s" and "whole t = whole s" using inv by (auto intro: whole_same)
  then show ?thesis using inv e by (simp add: device_inv_def journal_wf_def statics_eqD [OF st])
qed

interpretation device_log: undo_log "device_inv h" view disk journal "device_stores h" "device_settles h" for h
  by unfold_locales (use device_stores_effect device_settles_effect in blast)+

end
