(* ===== verification/Limine_Undo.thy ===== *)
theory Limine_Undo
  imports Limine_Journal
begin

text \<open>
  \<open>uninstall\<close> replays the log onto the device, \<open>free_uninstall_data\<close> frees every entry once, and
  \<open>load_uninstall_data\<close> reads back what \<open>store_uninstall_data\<close> wrote.
\<close>

section \<open>Replaying\<close>

lemma entry_okD: "entry_ok n ud \<Longrightarrow> \<exists>d. ud_data ud = Live d \<and> length d = unat (ud_count ud)"
  by (auto simp: entry_ok_def split: heap_bytes.splits)

lemma entries_conv_nth: "journal_wf s \<Longrightarrow> entries s = map ((!) (uninstall_data s)) [0..<unat (uninstall_data_i s)]"
  by (auto simp: entries_def journal_wf_def intro: nth_equalityI)

lemma uninstall_entry_Ok:
  assumes "host_ok h" and "coherent s" and "uninstalling s" and "entry_ok (whole s) (uninstall_data s ! i)"
  shows "\<exists>t. uninstall_entry h i s = Ok (False, False) t \<and> coherent t \<and> statics t = statics s \<and> whole t = whole s
    \<and> view t = put_at (view s) (fst (log_entry_of (uninstall_data s ! i))) (snd (log_entry_of (uninstall_data s ! i)))"
proof -
  define ud where "ud = uninstall_data s ! i"
  obtain d where d: "ud_data ud = Live d" "length d = unat (ud_count ud)"
    using entry_okD [OF assms(4)] by (auto simp: ud_def)
  have r: "unat (ud_loc ud) + unat (ud_count ud) \<le> whole s" using assms(4) by (simp add: entry_ok_def ud_def)
  with write_loop_Ok [OF assms(1,2), of 0 "ud_count ud" "ud_loc ud" d] d(2) obtain t
    where wr: "device_write_loop h d (ud_loc ud) (ud_count ud) 0 s = Ok () t" and t: "coherent t"
      "view t = put_at (view s) (unat (ud_loc ud)) d" "statics t = statics s"
    by auto
  have "uninstall_entry h i s = Ok (False, False) t"
    using assms(3) d wr by (simp add: uninstall_entry_def device_write_def Let_def flip: ud_def)
  moreover have "length (view t) = length (view s)" using t(2) d r assms(2) whole_le [of s] by simp
  then have "whole t = whole s" using assms(2) t by (intro whole_same) auto
  ultimately show ?thesis using t d by (simp add: log_entry_of_def live_bytes_def flip: ud_def)
qed

lemma uninstall_loop_Ok:
  assumes "host_ok h" and "coherent s" and "uninstalling s" and "\<forall>i\<in>set is. entry_ok (whole s) (uninstall_data s ! i)"
  shows "\<exists>t. uninstall_loop h is fails s = Ok fails t \<and> coherent t \<and> statics t = statics s
    \<and> view t = replay (map (\<lambda>i. log_entry_of (uninstall_data s ! i)) is) (view s)"
  using assms(2-4)
proof (induction "is" arbitrary: s)
  case (Cons i "is")
  then obtain s1 where s1: "uninstall_entry h i s = Ok (False, False) s1" "coherent s1" "statics s1 = statics s" "whole s1 = whole s"
    "view s1 = put_at (view s) (fst (log_entry_of (uninstall_data s ! i))) (snd (log_entry_of (uninstall_data s ! i)))"
    using uninstall_entry_Ok [OF assms(1)] by force
  note eqs = statics_eqD [OF s1(3)]
  from Cons.IH [OF s1(2)] Cons.prems eqs s1(4) obtain t where "uninstall_loop h is fails s1 = Ok fails t" "coherent t" "statics t = statics s1"
    "view t = replay (map (\<lambda>i. log_entry_of (uninstall_data s1 ! i)) is) (view s1)" by auto
  then show ?case using s1 eqs by auto
qed simp

lemma uninstall_Ok:
  assumes "host_ok h" and "geometry s" and "journal_wf s"
  shows "\<exists>t. uninstall h s = Ok True t \<and> disk t = replay (journal s) (disk s)
    \<and> uninstall_data t = uninstall_data s \<and> uninstall_data_i t = uninstall_data_i s \<and> udfile t = udfile s"
proof -
  define s0 where "s0 = drop_cache (s\<lparr>uninstalling := True\<rparr>)"
  have eq: "bsz s0 = bsz s" "whole s0 = whole s" "uninstall_data s0 = uninstall_data s" "uninstall_data_i s0 = uninstall_data_i s"
    "udfile s0 = udfile s" "uninstalling s0"
    by (simp_all add: s0_def drop_cache_def bsz_def whole_def)
  have "geometry (s\<lparr>uninstalling := True\<rparr>)" using assms(2) by (simp add: geometry_def bsz_def)
  from drop_cache_coherent [OF this] have s0: "coherent s0" "view s0 = disk s" by (simp_all add: s0_def)
  have "entry_ok (whole s0) (uninstall_data s0 ! i)" if "i < unat (uninstall_data_i s)" for i
    using assms(3) that entries_conv_nth [OF assms(3)] by (simp add: journal_wf_def eq list_all_iff)
  then obtain t where t: "uninstall_loop h [0..<unat (uninstall_data_i s)] (False, False) s0 = Ok (False, False) t" "coherent t"
    "statics t = statics s0" "view t = replay (map (\<lambda>i. log_entry_of (uninstall_data s0 ! i)) [0..<unat (uninstall_data_i s)]) (view s0)"
    using uninstall_loop_Ok [OF assms(1) s0(1) eq(6), of "[0..<unat (uninstall_data_i s)]" "(False, False)"] by auto
  from flush_cache [OF assms(1) t(2)] obtain u where u: "device_flush_cache h t = Ok () u" "disk u = view t" "statics u = statics t"
    by blast
  have "uninstall h s = Ok True u" unfolding uninstall_def s0_def [symmetric] t(1) using u(1) by simp
  moreover have "view t = replay (journal s) (disk s)"
    using t(4) s0(2) entries_conv_nth [OF assms(3)] by (simp add: journal_def eq(3) comp_def)
  ultimately show ?thesis using u(2) statics_eqD [OF u(3)] statics_eqD [OF t(3)] eq by auto
qed

lemma reverse_frame [simp]:
  "disk (reverse_uninstall_data s) = disk s" "udfile (reverse_uninstall_data s) = udfile s"
  "geometry (reverse_uninstall_data s) = geometry s" "whole (reverse_uninstall_data s) = whole s"
  "uninstall_data_i (reverse_uninstall_data s) = uninstall_data_i s"
  by (simp_all add: reverse_uninstall_data_def Let_def geometry_def bsz_def whole_def)

lemma reverse_uninstall_data_rev:
  assumes "journal_wf s"
  shows "entries (reverse_uninstall_data s) = rev (entries s)" and "journal (reverse_uninstall_data s) = rev (journal s)"
    and "journal_wf (reverse_uninstall_data s)"
proof -
  show e: "entries (reverse_uninstall_data s) = rev (entries s)"
    using assms unfolding entries_def by (simp add: reverse_uninstall_data_def Let_def journal_wf_def)
  then show "journal (reverse_uninstall_data s) = rev (journal s)" by (simp add: journal_def rev_map)
  show "journal_wf (reverse_uninstall_data s)"
    using assms e by (simp add: journal_wf_def) (simp add: reverse_uninstall_data_def Let_def)
qed

text \<open>Undoing an undoable state: the device is as it was.\<close>

lemma uninstall_restores_disk:
  assumes "host_ok h" and "geometry s" and "journal_wf s" and "restores orig (journal s)" and "agrees orig (journal s) (disk s)"
  shows "\<exists>t. uninstall h (reverse_uninstall_data s) = Ok True t \<and> disk t = orig
    \<and> entries t = rev (entries s) \<and> journal_wf (reverse_uninstall_data s)
    \<and> uninstall_data t = uninstall_data (reverse_uninstall_data s) \<and> uninstall_data_i t = uninstall_data_i s \<and> udfile t = udfile s"
proof -
  note rv = reverse_uninstall_data_rev [OF assms(3)]
  from uninstall_Ok [OF assms(1) _ rv(3)] assms(2) obtain t
    where t: "uninstall h (reverse_uninstall_data s) = Ok True t" "disk t = replay (rev (journal s)) (disk s)"
      "uninstall_data t = uninstall_data (reverse_uninstall_data s)" "uninstall_data_i t = uninstall_data_i s" "udfile t = udfile s"
    by (auto simp: rv)
  moreover have "replay (rev (journal s)) (disk s) = orig" using assms(4,5) by (simp add: restores_def)
  moreover have "entries t = rev (entries s)" using t(3,4) rv(1) by (simp add: entries_def)
  ultimately show ?thesis using rv(3) by blast
qed

section \<open>Freeing\<close>

lemma free_entries_Ok:
  assumes "distinct is" and "\<forall>i\<in>set is. i < length (uninstall_data s) \<and> ud_data (uninstall_data s ! i) \<noteq> Freed"
  shows "\<exists>us. free_entries is s = Ok () (s\<lparr>uninstall_data := us\<rparr>)"
  using assms
proof (induction "is" arbitrary: s)
  case Nil
  then show ?case by (intro exI [of _ "uninstall_data s"]) simp
next
  case (Cons i "is")
  define u where "u = set_entry i ((uninstall_data s ! i)\<lparr>ud_data := (if ud_data (uninstall_data s ! i) = Null then Null else Freed)\<rparr>) s"
  have "uninstall_data u ! j = uninstall_data s ! j" if "j \<in> set is" for j
    using Cons.prems(1) that unfolding u_def set_entry_def by (cases "j = i") simp_all
  moreover have "length (uninstall_data u) = length (uninstall_data s)" by (simp add: u_def set_entry_def)
  ultimately have "\<forall>j\<in>set is. j < length (uninstall_data u) \<and> ud_data (uninstall_data u ! j) \<noteq> Freed"
    using Cons.prems(2) by simp
  with Cons.IH [of u] Cons.prems(1) obtain us where "free_entries is u = Ok () (u\<lparr>uninstall_data := us\<rparr>)" by force
  moreover have "u\<lparr>uninstall_data := us\<rparr> = s\<lparr>uninstall_data := us\<rparr>" unfolding u_def set_entry_def by simp
  moreover have "free_entries (i # is) s = free_entries is u" using Cons.prems(2) unfolding u_def by simp
  ultimately show ?case by (simp only:) blast
qed

lemma free_uninstall_data_Ok:
  assumes "unat (uninstall_data_i s) \<le> length (uninstall_data s)" and "\<forall>ud\<in>set (entries s). ud_data ud \<noteq> Freed"
  shows "\<exists>us. free_uninstall_data s = Ok () (s\<lparr>uninstall_data := us\<rparr>)"
proof -
  have "uninstall_data s ! i \<in> set (entries s)" if "i < unat (uninstall_data_i s)" for i
    using assms(1) that by (auto simp: entries_def in_set_conv_nth intro!: exI [of _ i])
  then show ?thesis
    unfolding free_uninstall_data_def using assms by (intro free_entries_Ok) auto
qed

lemma free_entries_Crash:
  assumes "i \<in> set is" and "distinct is" and "i \<ge> length (uninstall_data s) \<or> ud_data (uninstall_data s ! i) = Freed"
  shows "free_entries is s = Crash"
  using assms
proof (induction "is" arbitrary: s)
  case (Cons j "is")
  define u where "u = set_entry j ((uninstall_data s ! j)\<lparr>ud_data := (if ud_data (uninstall_data s ! j) = Null then Null else Freed)\<rparr>) s"
  have "free_entries is u = Crash" if "i \<in> set is" "i \<noteq> j"
    using that Cons.prems by (intro Cons.IH) (auto simp: u_def set_entry_def)
  then show ?case using Cons.prems unfolding free_entries.simps u_def [symmetric] by auto
qed simp

lemma journal_wf_not_freed: "journal_wf s \<Longrightarrow> ud \<in> set (entries s) \<Longrightarrow> ud_data ud \<noteq> Freed"
  by (auto simp: journal_wf_def list_all_iff entry_ok_def split: heap_bytes.splits)

section \<open>Storing and loading\<close>

definition encode_entry :: "bool \<Rightarrow> uninstall_data \<Rightarrow> u8 list" where
  "encode_entry be ud = native_store be 8 (ud_loc ud) @ native_store be 8 (ud_count ud) @ live_bytes (ud_data ud)"

lemma fwrite_ud_Ok:
  assumes "host_ok h" and "udfile s = Some d" and "xs \<noteq> []"
  shows "fwrite_ud h xs s = Ok () (s\<lparr>calls := Suc (calls s), udfile := Some (d @ xs)\<rparr>)"
  using assms by (simp add: fwrite_ud_def host_ok_def tick_def)

lemma native_store_not_Nil [simp]: "0 < n \<Longrightarrow> native_store be n w \<noteq> []"
  by (metis length_native_store less_numeral_extra(3) list.size(3))

lemma store_entry_Ok:
  assumes "host_ok h" and "udfile s = Some d" and "entry_ok n (uninstall_data s ! i)"
  shows "\<exists>k. store_entry h i s = Ok () (s\<lparr>calls := k, udfile := Some (d @ encode_entry (bigendian h) (uninstall_data s ! i))\<rparr>)"
proof -
  obtain xs where xs: "ud_data (uninstall_data s ! i) = Live xs" "length xs = unat (ud_count (uninstall_data s ! i))"
    using entry_okD [OF assms(3)] by blast
  moreover from this have "xs \<noteq> []" using assms(3) by (auto simp: entry_ok_def)
  ultimately show ?thesis
    using assms(1,2) by (simp add: store_entry_def Let_def fwrite_ud_Ok encode_entry_def live_bytes_def) blast
qed

lemma store_entries_Ok:
  assumes "host_ok h" and "udfile s = Some d" and "\<forall>i\<in>set is. entry_ok n (uninstall_data s ! i)"
  shows "\<exists>k. run_for is (store_entry h) s
    = Ok () (s\<lparr>calls := k, udfile := Some (d @ concat (map (\<lambda>i. encode_entry (bigendian h) (uninstall_data s ! i)) is))\<rparr>)"
  using assms(2,3)
proof (induction "is" arbitrary: s d)
  case Nil
  then show ?case by (intro exI [of _ "calls s"]) simp
next
  case (Cons i "is")
  then obtain k where st: "store_entry h i s = Ok () (s\<lparr>calls := k, udfile := Some (d @ encode_entry (bigendian h) (uninstall_data s ! i))\<rparr>)"
    using store_entry_Ok [OF assms(1)] by (metis list.set_intros(1))
  with Cons.IH [of "s\<lparr>calls := k, udfile := Some (d @ encode_entry (bigendian h) (uninstall_data s ! i))\<rparr>"] Cons.prems
  show ?case by auto
qed

definition encode_log :: "bool \<Rightarrow> uninstall_data list \<Rightarrow> u8 list" where
  "encode_log be uds = native_store be 8 (of_nat (length uds) :: u64) @ concat (map (encode_entry be) uds)"

lemma store_Ok:
  assumes "host_ok h" and "journal_wf s"
  shows "\<exists>k. store_uninstall_data h s = Ok () (s\<lparr>calls := k, udfile := Some (encode_log (bigendian h) (entries s))\<rparr>)"
proof -
  define n d where "n = unat (uninstall_data_i s)" and "d = native_store (bigendian h) 8 (uninstall_data_i s)"
  define s1 where "s1 = s\<lparr>calls := Suc (Suc (calls s)), udfile := Some d\<rparr>"
  have ok: "\<forall>i\<in>set [0..<n]. entry_ok (whole s) (uninstall_data s1 ! i)"
    using assms(2) entries_conv_nth [OF assms(2)] by (simp add: journal_wf_def list_all_iff s1_def n_def)
  have "store_uninstall_data h s = run_for [0..<n] (store_entry h) s1"
    using assms(1) by (simp add: store_uninstall_data_def call_def host_ok_def tick_def fwrite_ud_def s1_def d_def n_def)
  moreover have "concat (map (\<lambda>i. encode_entry (bigendian h) (uninstall_data s1 ! i)) [0..<n]) = concat (map (encode_entry (bigendian h)) (entries s))"
    using entries_conv_nth [OF assms(2)] by (simp add: s1_def n_def comp_def)
  moreover have "of_nat (length (entries s)) = uninstall_data_i s"
    using assms(2) by (simp add: entries_def journal_wf_def min_absorb1)
  ultimately show ?thesis
    using store_entries_Ok [OF assms(1) _ ok, of d] by (auto simp: s1_def encode_log_def d_def)
qed

lemma fread_ud_append:
  "host_ok h \<Longrightarrow> length xs = n \<Longrightarrow> 0 < n \<Longrightarrow> fread_ud h n (xs @ rest) s = (Some (xs, rest), tick s)"
  by (simp add: fread_ud_def host_ok_def)

lemma load_entries_Ok:
  assumes "host_ok h" and "list_all (entry_ok n) uds" and "i + length uds \<le> length (uninstall_data s)"
  shows "\<exists>k. load_entries h [i..<i + length uds] (concat (map (encode_entry (bigendian h)) uds)) s
    = Ok () (s\<lparr>calls := k, uninstall_data := take i (uninstall_data s) @ uds @ drop (i + length uds) (uninstall_data s)\<rparr>)"
  using assms(2,3)
proof (induction uds arbitrary: i s)
  case Nil
  then show ?case by (intro exI [of _ "calls s"]) simp
next
  case (Cons ud uds)
  obtain d where d: "ud_data ud = Live d" "length d = unat (ud_count ud)" "0 < unat (ud_count ud)"
    using Cons.prems(1) by (auto simp: entry_ok_def split: heap_bytes.splits)
  define s1 where "s1 = s\<lparr>calls := Suc (Suc (Suc (Suc (calls s)))), uninstall_data := (uninstall_data s)[i := ud]\<rparr>"
  have ud: "\<lparr>ud_data = Live d, ud_loc = ud_loc ud, ud_count = ud_count ud\<rparr> = ud" using d(1) by simp
  have upt: "[i..<i + length (ud # uds)] = i # [Suc i..<Suc i + length uds]" by (simp add: upt_conv_Cons del: upt_Suc)
  have "load_entries h [i..<i + length (ud # uds)] (concat (map (encode_entry (bigendian h)) (ud # uds))) s
      = load_entries h [Suc i..<Suc i + length uds] (concat (map (encode_entry (bigendian h)) uds)) s1"
    unfolding upt using assms(1) d
    by (simp add: encode_entry_def live_bytes_def fread_ud_append native_load_store host_ok_def Let_def
        tick_def set_entry_def s1_def ud del: upt_Suc)
  moreover from Cons.IH [of "Suc i" s1] Cons.prems obtain k
    where "load_entries h [Suc i..<Suc i + length uds] (concat (map (encode_entry (bigendian h)) uds)) s1 =
      Ok () (s1\<lparr>calls := k, uninstall_data := take (Suc i) (uninstall_data s1) @ uds @ drop (Suc i + length uds) (uninstall_data s1)\<rparr>)"
    by (auto simp: s1_def)
  moreover have "take (Suc i) (uninstall_data s1) = take i (uninstall_data s) @ [ud]"
    using Cons.prems(2) by (simp add: s1_def take_Suc_conv_app_nth)
  ultimately show ?case by (auto simp: s1_def)
qed

lemma load_Ok:
  assumes "host_ok h" and "udfile s = Some (encode_log (bigendian h) uds)" and "list_all (entry_ok n) uds"
    and "length uds \<le> UNINSTALL_DATA_MAX" and "length (uninstall_data s) = UNINSTALL_DATA_MAX"
  shows "\<exists>k. load_uninstall_data h s = Ok () (s\<lparr>uninstall_data_i := of_nat (length uds), calls := k,
    uninstall_data := uds @ drop (length uds) (uninstall_data s)\<rparr>)"
proof -
  define s1 where "s1 = s\<lparr>calls := Suc (Suc (calls s)), uninstall_data_i := of_nat (length uds)\<rparr>"
  have len: "unat (of_nat (length uds) :: u64) = length uds" using assms(4) by (simp add: UNINSTALL_DATA_MAX_def kunat)
  have "load_uninstall_data h s = load_entries h [0..<0 + length uds] (concat (map (encode_entry (bigendian h)) uds)) s1"
    using assms(1,2,4) len
    by (simp add: load_uninstall_data_def encode_log_def call_def host_ok_def fread_ud_append native_load_store Let_def
        tick_def s1_def)
  with load_entries_Ok [OF assms(1,3), of 0 s1] assms(4,5) show ?thesis by (auto simp: s1_def)
qed

text \<open>A first entry that is cut off: its buffer is freed, and the entry still points to it.\<close>

lemma load_cut_off:
  assumes "host_ok h" and "length xs < unat (count :: u64)" and "0 < n" and "0 < length (uninstall_data s)"
  shows "\<exists>u. load_entries h [0..<n] (native_store (bigendian h) 8 (loc :: u64) @ native_store (bigendian h) 8 count @ xs) s = Fail u
    \<and> uninstall_data_i u = uninstall_data_i s \<and> ud_data (uninstall_data u ! 0) = Freed"
proof -
  have upt: "[0..<n] = 0 # [Suc 0..<n]" using assms(3) by (simp add: upt_conv_Cons)
  have cut: "fread_ud h (unat count) xs u = (None, tick u)" for u using assms(2) by (simp add: fread_ud_def)
  show ?thesis
    unfolding upt using assms(1,4)
    by (simp add: fread_ud_append native_load_store host_ok_def cut load_error_def Let_def set_entry_def tick_def)
qed

end
