(* ===== verification/Limine_Phases.thy ===== *)
theory Limine_Phases
  imports Limine_Install Limine_Undo
begin

text \<open>
  Every phase of the installation keeps the device undoable: it goes on in a state from which the log
  restores the original contents, or it stops in such a state. The rules follow the structure of the
  code, one per operation and one per phase.
\<close>

section \<open>Rules\<close>

named_theorems keeps_rules \<open>phases that keep the device undoable\<close>

definition good :: "host \<Rightarrow> u8 list \<Rightarrow> u8 list option \<Rightarrow> installer \<Rightarrow> bool" where
  "good h orig f s \<longleftrightarrow> device_inv h s \<and> undoable orig (journal s) (view s) (disk s) \<and> udfile s = f \<and> bsz s = 512"

definition stopped :: "u8 list \<Rightarrow> u8 list option \<Rightarrow> installer \<Rightarrow> bool" where
  "stopped orig f s \<longleftrightarrow> geometry s \<and> journal_wf s \<and> restores orig (journal s) \<and> agrees orig (journal s) (disk s) \<and> udfile s = f"

definition keeps :: "host \<Rightarrow> u8 list \<Rightarrow> u8 list option \<Rightarrow> ('a \<Rightarrow> bool) \<Rightarrow> ('a, installer) run \<Rightarrow> bool" where
  "keeps h orig f Q r \<longleftrightarrow> (case r of Ok x t \<Rightarrow> good h orig f t \<and> Q x | Fail t \<Rightarrow> stopped orig f t | Crash \<Rightarrow> False)"

lemma good_stopped: "good h orig f s \<Longrightarrow> stopped orig f s"
  by (auto simp: good_def stopped_def device_inv_def undoable_def coherent_geometry)

lemma keeps_Ok [keeps_rules]: "good h orig f s \<Longrightarrow> Q x \<Longrightarrow> keeps h orig f Q (Ok x s)"
  by (simp add: keeps_def)

lemma keeps_Fail [keeps_rules]: "good h orig f s \<Longrightarrow> keeps h orig f Q (Fail s)"
  by (simp add: keeps_def good_stopped)

lemma keeps_if [keeps_rules]:
  "(b \<Longrightarrow> keeps h orig f Q r) \<Longrightarrow> (\<not> b \<Longrightarrow> keeps h orig f Q r') \<Longrightarrow> keeps h orig f Q (if b then r else r')"
  by simp

lemma keeps_bind:
  "keeps h orig f P r \<Longrightarrow> (\<And>x t. good h orig f t \<Longrightarrow> P x \<Longrightarrow> keeps h orig f Q (g x t)) \<Longrightarrow> keeps h orig f Q (run_bind r g)"
  by (cases r) (auto simp: keeps_def)

lemma keeps_bind_any [keeps_rules]:
  "keeps h orig f (\<lambda>_. True) r \<Longrightarrow> (\<And>x t. good h orig f t \<Longrightarrow> keeps h orig f Q (g x t)) \<Longrightarrow> keeps h orig f Q (run_bind r g)"
  by (rule keeps_bind)

lemma keeps_mono: "keeps h orig f P r \<Longrightarrow> (\<And>x. P x \<Longrightarrow> Q x) \<Longrightarrow> keeps h orig f Q r"
  by (auto simp: keeps_def split: run.splits)

lemma keeps_for:
  "good h orig f s \<Longrightarrow> (\<And>i t. i \<in> set is \<Longrightarrow> good h orig f t \<Longrightarrow> keeps h orig f (\<lambda>_. True) (body i t)) \<Longrightarrow>
    keeps h orig f (\<lambda>_. True) (run_for is body s)"
  by (induction "is" arbitrary: s) (auto intro!: keeps_rules)

text \<open>The operations on the device.\<close>

lemma keeps_read:
  assumes "good h orig f s" and "0 < count"
  shows "keeps h orig f (\<lambda>bs. length bs = unat count) (device_read h loc count s)"
proof -
  have inv: "device_inv h s" and g: "host_ok h" "coherent s" "journal_wf s" "undoable orig (journal s) (view s) (disk s)" "udfile s = f"
    using assms(1) by (auto simp: good_def device_inv_def)
  show ?thesis
  proof (cases "unat loc + unat count \<le> whole s")
    case True
    with device_read_Ok [OF g(1,2)] obtain t
      where t: "device_read h loc count s = Ok (bytes_at (view s) (unat loc) (unat count)) t" "statics t = statics s" by blast
    then have st: "device_settles h s t" using assms(2) by (auto simp: device_settles_def)
    have "good h orig f t"
      using device_log.settle_inv [OF inv st] device_log.settle_undoable [OF inv st g(4)] g(5) statics_eqD(4,5) [OF t(2)] assms(1)
      by (simp add: good_def bsz_def)
    then show ?thesis using t(1) True whole_le [of s] g(2) by (simp add: keeps_def)
  next
    case False
    with device_read_Fail [OF g(1,2) assms(2), of loc] obtain t
      where t: "device_read h loc count s = Fail t" "geometry t" "statics t = statics s" "disk t = view s" by auto
    have "whole t = whole s" using t(4) g(2) statics_eqD(4) [OF t(3)] by (simp add: whole_def bsz_def)
    then show ?thesis using t g by (simp add: keeps_def stopped_def statics_eqD [OF t(3)] journal_wf_def undoable_def)
  qed
qed

lemma keeps_read_bind [keeps_rules]:
  "good h orig f s \<Longrightarrow> 0 < count \<Longrightarrow>
    (\<And>bs t. good h orig f t \<Longrightarrow> length bs = unat count \<Longrightarrow> keeps h orig f Q (g bs t)) \<Longrightarrow>
    keeps h orig f Q (run_bind (device_read h loc count s) g)"
  by (rule keeps_bind [OF keeps_read])

lemma keeps_read_any [keeps_rules]: "good h orig f s \<Longrightarrow> 0 < count \<Longrightarrow> keeps h orig f (\<lambda>_. True) (device_read h loc count s)"
  by (rule keeps_mono [OF keeps_read]) auto

lemma keeps_write [keeps_rules]:
  assumes "good h orig f s" and "length xs = unat count" and "0 < count"
  shows "keeps h orig f (\<lambda>_. True) (device_write h xs loc count s)"
proof -
  have inv: "device_inv h s"
    and g: "host_ok h" "coherent s" "\<not> uninstalling s" "journal_wf s" "undoable orig (journal s) (view s) (disk s)" "udfile s = f"
    using assms(1) by (auto simp: good_def device_inv_def)
  show ?thesis
  proof (cases "unat (uninstall_data_i s) < UNINSTALL_DATA_MAX \<and> unat loc + unat count \<le> whole s")
    case True
    with device_write_Ok [OF g(1-4) _ assms(2,3)] obtain t
      where t: "device_write h xs loc count s = Ok () t" "udfile t = udfile s" "block_size t = block_size s" by blast
    moreover have "xs \<noteq> []" using assms(2,3) unat_gt_0 [of count] by (auto simp: word_gt_0)
    ultimately have st: "device_stores h xs (unat loc) s t" using assms(2) by (auto simp: device_stores_def)
    have "good h orig f t"
      using device_log.write_inv [OF inv st] device_log.write_undoable [OF inv st g(5)] g(6) t(2,3) assms(1)
      by (simp add: good_def bsz_def)
    then show ?thesis using t(1) by (simp add: keeps_def)
  next
    case False
    then have "unat (uninstall_data_i s) \<ge> UNINSTALL_DATA_MAX \<or> whole s < unat loc + unat count" by auto
    from device_write_Fail [OF g(1-4) assms(3) this, of xs] obtain t
      where "device_write h xs loc count s = Fail t" "geometry t" "journal t = journal s" "journal_wf t" "udfile t = udfile s"
        "disk t = disk s \<or> disk t = view s" by blast
    then show ?thesis using g by (auto simp: keeps_def stopped_def undoable_def)
  qed
qed

lemma keeps_flush [keeps_rules]:
  assumes "good h orig f s"
  shows "keeps h orig f (\<lambda>_. True) (device_flush_cache h s)"
proof -
  have inv: "device_inv h s" and g: "host_ok h" "coherent s" "undoable orig (journal s) (view s) (disk s)" "udfile s = f"
    using assms by (auto simp: good_def device_inv_def)
  from flush_cache [OF g(1,2)] obtain t where t: "device_flush_cache h s = Ok () t" "statics t = statics s" by blast
  then have st: "device_settles h s t" by (simp add: device_settles_def)
  show ?thesis
    using device_log.settle_inv [OF inv st] device_log.settle_undoable [OF inv st g(3)] g(4) t statics_eqD(4,5) [OF t(2)] assms
    by (simp add: keeps_def good_def bsz_def)
qed

lemma keeps_call [keeps_rules]:
  assumes "good h orig f s"
  shows "keeps h orig f (\<lambda>_. True) (call h s)"
proof -
  have "host_ok h" using assms by (simp add: good_def device_inv_def)
  moreover have "good h orig f (tick s)"
    using assms by (simp add: good_def device_inv_def journal_wf_def journal_def entries_def bsz_def) (simp add: tick_def)
  ultimately show ?thesis by (simp add: call_def keeps_def host_ok_def)
qed

section \<open>Phases\<close>

lemma length_ascii [simp]: "length (ascii str) = length str"
  by (simp add: ascii_def)

lemma keeps_validate_hint [keeps_rules]:
  assumes "good h orig f s" and "0 < length mark" and "length mark < 256" and "0 < erase"
  shows "keeps h orig f (\<lambda>_. True) (validate_hint h fo loc mark erase s)"
proof -
  have "0 < (of_nat (length mark) :: u64)" using assms(2,3) by (simp add: word_less_nat_alt kunat)
  then show ?thesis unfolding validate_hint_def using assms by (intro keeps_rules) simp_all
qed

lemma keeps_validate_ext [keeps_rules]:
  "good h orig f s \<Longrightarrow> keeps h orig f (\<lambda>_. True) (validate_ext h fo loc s)"
  unfolding validate_ext_def by (intro keeps_rules) simp_all

lemma keeps_validate_or_force [keeps_rules]:
  "good h orig f s \<Longrightarrow> keeps h orig f (\<lambda>_. True) (validate_or_force h loc fo s)"
  unfolding validate_or_force_def by (intro keeps_rules) simp_all

lemma keeps_probe_gpt:
  "good h orig f s \<Longrightarrow>
    keeps h orig f (\<lambda>r. case r of None \<Rightarrow> True | Some (g, _) \<Rightarrow> g \<in> set guesses) (probe_gpt h guesses s)"
proof (induction guesses arbitrary: s)
  case (Cons g guesses)
  have "keeps h orig f (\<lambda>r. case r of None \<Rightarrow> True | Some (g', _) \<Rightarrow> g' \<in> set (g # guesses)) (probe_gpt h guesses t)"
    if "good h orig f t" for t
    by (rule keeps_mono [OF Cons.IH [OF that]]) (auto split: option.splits)
  then show ?case using Cons.prems by (auto simp: Let_def intro!: keeps_rules)
qed (simp add: keeps_def)

lemma keeps_check_secondary [keeps_rules]:
  "good h orig f s \<Longrightarrow> keeps h orig f (\<lambda>_. True) (check_secondary h lb hdr s)"
  unfolding check_secondary_def by (intro keeps_rules) simp_all

lemma keeps_find_gpt:
  assumes "good h orig f s"
  shows "keeps h orig f (\<lambda>r. case r of None \<Rightarrow> True | Some (lb, _) \<Rightarrow> lb \<in> {512, 4096}) (find_gpt h s)"
  unfolding find_gpt_def
  by (rule keeps_bind [OF keeps_probe_gpt [OF assms]]) (auto split: option.splits intro!: keeps_rules)

definition part_ok :: "part_to_conv \<Rightarrow> bool" where
  "part_ok p \<longleftrightarrow> length (chs_start p) = 3 \<and> length (chs_end p) = 3"

definition parts_ok :: "part_to_conv list option \<Rightarrow> bool" where
  "parts_ok r \<longleftrightarrow> (case r of None \<Rightarrow> True | Some ps \<Rightarrow> list_all part_ok ps \<and> length ps \<le> 4)"

lemma parts_ok_simps [simp]: "parts_ok None" "parts_ok (Some ps) \<longleftrightarrow> list_all part_ok ps \<and> length ps \<le> 4"
  by (simp_all add: parts_ok_def)

lemma convert_entry_ok: "convert_entry be e = Some p \<Longrightarrow> part_ok p"
  by (auto simp: convert_entry_def Let_def part_ok_def lba2chs_def split: if_splits)

lemma keeps_gather_parts:
  "good h orig f s \<Longrightarrow> list_all part_ok parts \<Longrightarrow> length parts \<le> 4 \<Longrightarrow>
    keeps h orig f parts_ok (gather_parts h hdr base left i parts s)"
proof (induction left arbitrary: i parts s)
  case (Suc left)
  then show ?case
    by (auto simp: Let_def intro!: keeps_rules Suc.IH split: prod.splits option.splits)
      (rule convert_entry_ok)
qed (simp add: keeps_def)

lemma keeps_nuke_gpt [keeps_rules]:
  "good h orig f s \<Longrightarrow> 0 < lb \<Longrightarrow> keeps h orig f (\<lambda>_. True) (nuke_gpt h lb hdr s)"
  unfolding nuke_gpt_def Let_def by (intro keeps_rules keeps_for) simp_all

lemma keeps_write_partition [keeps_rules]:
  "good h orig f s \<Longrightarrow> part_ok (snd ip) \<Longrightarrow> keeps h orig f (\<lambda>_. True) (write_partition h ip s)"
  by (cases ip) (auto simp: write_partition_def Let_def part_ok_def intro!: keeps_rules)

lemma keeps_convert [keeps_rules]:
  assumes "good h orig f s" and "0 < lb"
  shows "keeps h orig f (\<lambda>_. True) (convert_isohybrid h lb hdr s)"
proof -
  have go: "keeps h orig f (\<lambda>_. True) (case r of None \<Rightarrow> Ok True t
           | Some parts \<Rightarrow>
               run_bind (nuke_gpt h lb hdr t) (\<lambda>_ s.
               run_bind (run_for [0..<4] (\<lambda>i. device_write h [random_byte h i] (0x1b8 + of_nat i) 1) s) (\<lambda>_ s.
               run_bind (run_for (zip [0..<length parts] parts) (write_partition h) s) (\<lambda>_ s.
               Ok False s))))"
    if "good h orig f t" "parts_ok r" for r t
    using that assms(2) by (auto split: option.splits intro!: keeps_rules keeps_for simp: list_all_iff dest: set_zip_rightD)
  show ?thesis
    unfolding convert_isohybrid_def Let_def case_prod_beta
    using assms(1) by (intro keeps_read_bind keeps_if keeps_bind [OF keeps_gather_parts] go keeps_Ok) simp_all
qed

lemma keeps_check_partition [keeps_rules]:
  assumes "good h orig f s"
  shows "keeps h orig f (\<lambda>_. True) (check_partition h fo base st s)"
  unfolding check_partition_def Let_def
  using assms by (auto intro!: keeps_rules split: prod.splits)

lemma keeps_check_partitions [keeps_rules]:
  "good h orig f s \<Longrightarrow> keeps h orig f (\<lambda>_. True) (check_partitions h fo bases st s)"
  by (induction bases arbitrary: st s) (auto intro!: keeps_rules)

lemma keeps_check_mbr [keeps_rules]:
  "good h orig f s \<Longrightarrow> keeps h orig f (\<lambda>_. True) (check_mbr h fo s)"
  unfolding check_mbr_def by (auto intro!: keeps_rules split: prod.splits)

lemma keeps_entry_at:
  "good h orig f s \<Longrightarrow> keeps h orig f (\<lambda>_. True) (entry_at h hdr base n s)"
  unfolding entry_at_def Let_def by (auto intro!: keeps_rules keeps_read_any split: prod.splits)

lemma keeps_detect_entry:
  "good h orig f s \<Longrightarrow> keeps h orig f (\<lambda>_. True) (detect_entry h hdr base left n s)"
  by (induction left arbitrary: n s) (auto intro!: keeps_rules keeps_entry_at)

lemma keeps_chosen_entry:
  "good h orig f s \<Longrightarrow> keeps h orig f (\<lambda>_. True) (chosen_entry h fo hdr base str s)"
  unfolding chosen_entry_def Let_def by (auto intro!: keeps_rules keeps_entry_at split: option.splits)

lemma keeps_gpt_stage2 [keeps_rules]:
  "good h orig f s \<Longrightarrow> keeps h orig f (\<lambda>_. True) (gpt_stage2 h fo ndx lb hdr s)"
  unfolding gpt_stage2_def Let_def
  by (auto intro!: keeps_rules keeps_detect_entry keeps_chosen_entry split: prod.splits option.splits)

text \<open>A boot loader image with a second stage that fits into memory.\<close>

definition image_ok :: "u8 list \<Rightarrow> bool" where
  "image_ok img \<longleftrightarrow> 512 < length img \<and> length img < 2 ^ 63"

lemma image_count:
  assumes "image_ok img"
  shows "unat (of_nat (length img) - 512 :: u64) = length img - 512" and "0 < (of_nat (length img) - 512 :: u64)"
  using assms by (simp_all add: image_ok_def kunat word_less_nat_alt)

lemma keeps_write_boot_code [keeps_rules]:
  assumes "good h orig f s" and "image_ok img"
  shows "keeps h orig f (\<lambda>_. True) (write_boot_code h img loc s)"
  unfolding write_boot_code_def
  using assms by (intro keeps_read_bind keeps_rules) (simp_all add: image_count image_ok_def)

lemma keeps_install:
  assumes "good h orig f s" and "image_ok img"
  shows "keeps h orig f (\<lambda>_. True) (install h opts img s)"
  unfolding install_def
  by (rule keeps_bind [OF keeps_find_gpt [OF assms(1)]])
    (use assms(2) in \<open>auto intro!: keeps_rules split: option.splits bool.splits prod.splits\<close>)

end
