(* ===== verification/Limine_Run.thy ===== *)
theory Limine_Run
  imports Limine_Phases
begin

text \<open>
  The program as a whole: from the start of the process to its exit code, on a host whose calls succeed.
\<close>

section \<open>Opening the device\<close>

lemma device_init_Ok:
  assumes "host_ok h" and "512 \<le> length (disk s)"
  shows "\<exists>p n. device_init h s = Ok () (s\<lparr>calls := n, fpos := p, cache := bytes_at (disk s) 0 512, block_size := 512,
    cache_state := CACHE_CLEAN, cached_block := 0\<rparr>)"
  using assms
  by (simp add: device_init_def call_def host_ok_def fread_def rewind_def tick_def Let_def) blast

lemma device_init_loop_Fail:
  assumes "host_ok h" and "\<forall>g\<in>set guesses. length (disk s) < unat g"
  shows "\<exists>n p c. device_init_loop h guesses s = Fail (s\<lparr>calls := n, fpos := p, cache := c\<rparr>)"
  using assms(2)
proof (induction guesses arbitrary: s)
  case Nil
  show ?case by (intro exI [of _ "calls s"] exI [of _ "fpos s"] exI [of _ "cache s"]) simp
next
  case (Cons g guesses)
  have "\<exists>c. device_init_loop h (g # guesses) s = device_init_loop h guesses (s\<lparr>fpos := 0, calls := Suc (Suc (calls s)), cache := c\<rparr>)"
    using assms(1) Cons.prems by (simp add: call_def host_ok_def fread_def rewind_def tick_def Let_def) (rule exI, rule refl)
  then obtain c where "device_init_loop h (g # guesses) s = device_init_loop h guesses (s\<lparr>fpos := 0, calls := Suc (Suc (calls s)), cache := c\<rparr>)"
    by blast
  moreover define u where "u = s\<lparr>fpos := 0, calls := Suc (Suc (calls s)), cache := c\<rparr>"
  moreover have "\<exists>n p c. device_init_loop h guesses u = Fail (u\<lparr>calls := n, fpos := p, cache := c\<rparr>)"
    using Cons.prems by (intro Cons.IH) (simp add: u_def)
  moreover have "u\<lparr>calls := n, fpos := p, cache := c\<rparr> = s\<lparr>calls := n, fpos := p, cache := c\<rparr>" for n p c
    by (simp add: u_def)
  ultimately show ?case by simp
qed

lemma device_init_Fail:
  assumes "host_ok h" and "length (disk s) < 512"
  shows "\<exists>n p c. device_init h s = Fail (s\<lparr>calls := n, fpos := p, cache := c\<rparr>)"
  unfolding device_init_def using assms by (intro device_init_loop_Fail) auto

text \<open>The first state of an installation.\<close>

definition opened :: "host \<Rightarrow> installer \<Rightarrow> installer \<Rightarrow> bool" where
  "opened h s t \<longleftrightarrow> device_inv h t \<and> view t = disk s \<and> disk t = disk s \<and> udfile t = udfile s \<and> bsz t = 512
     \<and> uninstall_data t = uninstall_data s \<and> uninstall_data_i t = 0"

lemma device_init_opened:
  assumes "host_ok h" and "512 \<le> length (disk s)" and "length (disk s) < 2 ^ 63" and "\<not> uninstalling s"
    and "uninstall_data_i s = 0" and "length (uninstall_data s) = UNINSTALL_DATA_MAX"
  shows "\<exists>t. device_init h s = Ok () t \<and> opened h s t"
proof -
  from device_init_Ok [OF assms(1,2)] obtain p n t where t: "device_init h s = Ok () t"
    "t = s\<lparr>calls := n, fpos := p, cache := bytes_at (disk s) 0 512, block_size := 512,
      cache_state := CACHE_CLEAN, cached_block := 0\<rparr>" by blast
  have "coherent t" using assms(2,3) by (simp add: t(2) coherent_def geometry_def bsz_def block_pos_def)
  moreover have "view t = disk t" using view_clean [OF \<open>coherent t\<close>] by (simp add: t(2))
  ultimately show ?thesis
    using assms t(1) by (simp add: opened_def device_inv_def journal_wf_def entries_def) (simp add: t(2) bsz_def UNINSTALL_DATA_MAX_def)
qed

lemma opened_good: "opened h s t \<Longrightarrow> good h (disk s) (udfile s) t"
  using undoable_init [of "disk s"] by (simp add: opened_def good_def journal_def entries_def)

section \<open>Arguments\<close>

lemma parse_args_state: "\<exists>n. snd (parse_args h args opts s) = s\<lparr>calls := n\<rparr>"
proof (induction args arbitrary: opts s)
  case Nil
  show ?case by (intro exI [of _ "calls s"]) simp
next
  case (Cons arg args)
  have "\<exists>n. snd (parse_args h args opts' (tick s)) = s\<lparr>calls := n\<rparr>" for opts'
    using Cons.IH [of opts' "tick s"] by (auto simp: tick_def)
  moreover have "\<exists>n. s = s\<lparr>calls := n\<rparr>" by (intro exI [of _ "calls s"]) simp
  ultimately show ?case using Cons.IH [of _ s] by (auto simp: tick_def)
qed

lemma parse_args_exit: "fst (parse_args h args opts s) = Inl c \<Longrightarrow> c = EXIT_SUCCESS \<or> c = EXIT_FAILURE"
  by (induction args arbitrary: opts s) (auto split: if_splits)

lemma parse_args_mode:
  "fst (parse_args h args opts s) = Inr opts' \<Longrightarrow> ''--uninstall'' \<notin> set args \<Longrightarrow> uninstall_mode opts' = uninstall_mode opts"
proof (induction args arbitrary: opts s)
  case (Cons arg args)
  then show ?case by (fastforce split: if_splits)
qed simp

section \<open>The end of the program\<close>

lemma finish_Ok:
  assumes "unat (uninstall_data_i s) \<le> length (uninstall_data s)" and "\<forall>ud\<in>set (entries s). ud_data ud \<noteq> Freed"
  shows "\<exists>us. finish c s = Ok c (s\<lparr>uninstall_data := us\<rparr>)"
  using free_uninstall_data_Ok [OF assms] by (auto simp: finish_def)

lemma finish_wf: "journal_wf s \<Longrightarrow> \<exists>us. finish c s = Ok c (s\<lparr>uninstall_data := us\<rparr>)"
  by (rule finish_Ok) (simp add: journal_wf_def, blast dest: journal_wf_not_freed)

lemma run_install_stopped:
  assumes "host_ok h" and "stopped orig f s"
  shows "\<exists>t. run_bind (uninstall h (reverse_uninstall_data s)) (\<lambda>_. finish EXIT_FAILURE) = Ok EXIT_FAILURE t
    \<and> disk t = orig \<and> udfile t = f"
proof -
  have st: "geometry s" "journal_wf s" "restores orig (journal s)" "agrees orig (journal s) (disk s)" "udfile s = f"
    using assms(2) by (simp_all add: stopped_def)
  from uninstall_restores_disk [OF assms(1) st(1-4)] obtain t
    where t: "uninstall h (reverse_uninstall_data s) = Ok True t" "disk t = orig" "entries t = rev (entries s)"
      "uninstall_data t = uninstall_data (reverse_uninstall_data s)" "uninstall_data_i t = uninstall_data_i s" "udfile t = udfile s"
      and wf: "journal_wf (reverse_uninstall_data s)" by blast
  have "unat (uninstall_data_i t) \<le> length (uninstall_data t)"
    using wf t(4,5) by (simp add: journal_wf_def)
  moreover have "\<forall>ud\<in>set (entries t). ud_data ud \<noteq> Freed" using t(3) st(2) journal_wf_not_freed by auto
  ultimately obtain us where "finish EXIT_FAILURE t = Ok EXIT_FAILURE (t\<lparr>uninstall_data := us\<rparr>)" using finish_Ok by blast
  then show ?thesis using t st(5) by simp
qed

text \<open>An installation that succeeds: what it leaves behind is undoable, and so is the stored log.\<close>

lemma run_install_success:
  assumes "host_ok h" and "good h orig f s" and "install h opts img s0 = Ok () s"
  shows "\<exists>t. run_install h opts img s0 = Ok EXIT_SUCCESS t \<and> disk t = disk s
    \<and> udfile t = (if uninstall_file opts = None then f else Some (encode_log (bigendian h) (rev (entries s))))"
proof -
  have wf: "journal_wf s" "udfile s = f" using assms(2) by (simp_all add: good_def device_inv_def)
  note rv = reverse_uninstall_data_rev [OF wf(1)]
  show ?thesis
  proof (cases "uninstall_file opts = None")
    case True
    then show ?thesis using finish_wf [OF rv(3), of EXIT_SUCCESS] assms(3) wf(2) by (auto simp: run_install_def)
  next
    case False
    from store_Ok [OF assms(1) rv(3)] obtain k u where u: "store_uninstall_data h (reverse_uninstall_data s) = Ok () u"
      "u = (reverse_uninstall_data s)\<lparr>calls := k, udfile := Some (encode_log (bigendian h) (rev (entries s)))\<rparr>" by (auto simp: rv)
    have "journal_wf u" using rv(3) by (simp add: u(2) journal_wf_def entries_def whole_def bsz_def)
    from finish_wf [OF this, of EXIT_SUCCESS] obtain us where "finish EXIT_SUCCESS u = Ok EXIT_SUCCESS (u\<lparr>uninstall_data := us\<rparr>)" by blast
    then show ?thesis using False assms(3) u(1) by (auto simp: run_install_def u(2))
  qed
qed

end
