(* ===== verification/Limine_Mbr.thy ===== *)
theory Limine_Mbr
  imports Limine_Run
begin

text \<open>
  The exact course of an installation on a device with an MBR and no GPT: every check passes, and the
  contents of the device afterwards are known byte by byte.
\<close>

section \<open>Rules\<close>

text \<open>A state whose device, seen through the cache, holds \<open>v\<close>, with \<open>n\<close> entries of uninstall data.\<close>

definition state_is :: "host \<Rightarrow> u8 list \<Rightarrow> nat \<Rightarrow> installer \<Rightarrow> bool" where
  "state_is h v n s \<longleftrightarrow> device_inv h s \<and> view s = v \<and> bsz s = 512 \<and> unat (uninstall_data_i s) = n"

definition ends :: "host \<Rightarrow> u8 list \<Rightarrow> nat \<Rightarrow> 'a \<Rightarrow> ('a, installer) run \<Rightarrow> bool" where
  "ends h v n x r \<longleftrightarrow> (\<exists>t. r = Ok x t \<and> state_is h v n t)"

definition on_device :: "u8 list \<Rightarrow> nat \<Rightarrow> bool" where
  "on_device v p \<longleftrightarrow> p \<le> length v div 512 * 512"

lemma on_device_le: "on_device v p \<Longrightarrow> p \<le> length v"
  by (metis div_times_less_eq_dividend on_device_def order_trans)

lemma on_device_mono: "on_device v q \<Longrightarrow> p \<le> q \<Longrightarrow> on_device v p"
  by (simp add: on_device_def)

lemma on_device_put_at [simp]: "p + length xs \<le> length v \<Longrightarrow> on_device (put_at v p xs) q \<longleftrightarrow> on_device v q"
  by (simp add: on_device_def)

lemma state_is_whole: "state_is h v n s \<Longrightarrow> on_device v p \<longleftrightarrow> p \<le> whole s"
  by (auto simp: state_is_def device_inv_def whole_def on_device_def)

lemma ends_Ok: "state_is h v n s \<Longrightarrow> ends h v n x (Ok x s)"
  by (simp add: ends_def)

lemma ends_if: "(b \<Longrightarrow> ends h v n x r) \<Longrightarrow> (\<not> b \<Longrightarrow> ends h v n x r') \<Longrightarrow> ends h v n x (if b then r else r')"
  by simp

lemma ends_bind: "ends h v n x r \<Longrightarrow> (\<And>t. state_is h v n t \<Longrightarrow> ends h v' n' y (g x t)) \<Longrightarrow> ends h v' n' y (run_bind r g)"
  by (auto simp: ends_def)

lemma ends_read:
  assumes "state_is h v n s" and "on_device v (unat loc + unat count)"
  shows "ends h v n (bytes_at v (unat loc) (unat count)) (device_read h loc count s)"
proof -
  have inv: "host_ok h" "coherent s" "journal_wf s" "\<not> uninstalling s" "view s = v" "bsz s = 512"
    using assms(1) by (simp_all add: state_is_def device_inv_def)
  from device_read_Ok [OF inv(1,2), of loc count] assms(2) state_is_whole [OF assms(1)] obtain t
    where t: "device_read h loc count s = Ok (bytes_at v (unat loc) (unat count)) t" "coherent t" "view t = v" "statics t = statics s"
    by (auto simp: inv)
  have "whole t = whole s" using inv t by (intro whole_same) auto
  then have "state_is h v n t"
    using assms(1) inv t statics_eqD [OF t(4)] by (simp add: state_is_def device_inv_def journal_wf_def bsz_def)
  then show ?thesis using t(1) by (simp add: ends_def)
qed

lemma ends_read_bind:
  "state_is h v n s \<Longrightarrow> on_device v (unat loc + unat count) \<Longrightarrow>
    (\<And>t. state_is h v n t \<Longrightarrow> ends h v' n' y (g (bytes_at v (unat loc) (unat count)) t)) \<Longrightarrow>
    ends h v' n' y (run_bind (device_read h loc count s) g)"
  by (rule ends_bind [OF ends_read])

lemma ends_write:
  assumes "state_is h v n s" and "on_device v (unat loc + unat count)" and "length xs = unat count" and "0 < count" and "n < 256"
  shows "ends h (put_at v (unat loc) xs) (Suc n) () (device_write h xs loc count s)"
proof -
  have inv: "host_ok h" "coherent s" "\<not> uninstalling s" "journal_wf s" "unat (uninstall_data_i s) < UNINSTALL_DATA_MAX"
    and v: "view s = v" "bsz s = 512" "unat (uninstall_data_i s) = n"
    using assms(1,5) by (simp_all add: state_is_def device_inv_def UNINSTALL_DATA_MAX_def)
  from device_write_Ok [OF inv assms(3,4), of loc] assms(2) state_is_whole [OF assms(1)] obtain t
    where t: "device_write h xs loc count s = Ok () t" "coherent t" "view t = put_at v (unat loc) xs" "journal_wf t"
      "\<not> uninstalling t" "block_size t = block_size s" "length (journal t) = Suc (length (journal s))"
    by (auto simp: v)
  have len: "length (journal u) = unat (uninstall_data_i u)" if "journal_wf u" for u
    using that by (simp add: journal_def entries_def journal_wf_def min_absorb2)
  have "unat (uninstall_data_i t) = Suc n" using t(7) len [OF t(4)] len [OF inv(4)] v by simp
  moreover have "bsz t = 512" using t(6) v(2) by (simp add: bsz_def)
  ultimately have "state_is h (put_at v (unat loc) xs) (Suc n) t" using t inv by (simp add: state_is_def device_inv_def)
  then show ?thesis using t(1) by (simp add: ends_def)
qed

lemma ends_write_bind:
  "state_is h v n s \<Longrightarrow> on_device v (unat loc + unat count) \<Longrightarrow> length xs = unat count \<Longrightarrow> 0 < count \<Longrightarrow> n < 256 \<Longrightarrow>
    (\<And>t. state_is h (put_at v (unat loc) xs) (Suc n) t \<Longrightarrow> ends h v' n' y (g () t)) \<Longrightarrow>
    ends h v' n' y (run_bind (device_write h xs loc count s) g)"
  by (rule ends_bind [OF ends_write])

lemma ends_flush:
  assumes "state_is h v n s"
  shows "\<exists>t. device_flush_cache h s = Ok () t \<and> state_is h v n t \<and> disk t = v"
proof -
  have inv: "host_ok h" "coherent s" "journal_wf s" "\<not> uninstalling s" "view s = v" "bsz s = 512"
    using assms by (simp_all add: state_is_def device_inv_def)
  from flush_cache [OF inv(1,2)] obtain t
    where t: "device_flush_cache h s = Ok () t" "coherent t" "view t = v" "statics t = statics s" "disk t = v"
    by (auto simp: inv)
  have "whole t = whole s" using inv t by (intro whole_same) auto
  then have "state_is h v n t"
    using assms inv t statics_eqD [OF t(4)] by (simp add: state_is_def device_inv_def journal_wf_def bsz_def)
  then show ?thesis using t by blast
qed

section \<open>A device with an MBR\<close>

definition MBR_ENTRIES :: "nat list" where
  "MBR_ENTRIES = [446, 462, 478, 494]"

definition no_file_system :: "u8 list \<Rightarrow> nat \<Rightarrow> bool" where
  "no_file_system d p \<longleftrightarrow> bytes_at d (p + 3) 4 \<noteq> ascii ''NTFS'' \<and> bytes_at d (p + 54) 3 \<noteq> ascii ''FAT''
     \<and> bytes_at d (p + 82) 3 \<noteq> ascii ''FAT'' \<and> bytes_at d (p + 3) 5 \<noteq> ascii ''FAT32''
     \<and> (bytes_word (bytes_at d (p + 1080) 2) :: u16) \<noteq> 0xef53"

definition mbr_disk :: "u8 list \<Rightarrow> bool" where
  "mbr_disk d \<longleftrightarrow> 4608 \<le> length d
     \<and> bytes_at d 512 8 \<noteq> ascii ''EFI PART'' \<and> bytes_at d 4096 8 \<noteq> ascii ''EFI PART''
     \<and> list_all (\<lambda>b. (d ! b = 0 \<or> d ! b = 0x80) \<and> (d ! (b + 4) \<noteq> 0 \<longrightarrow> 63 \<le> (bytes_word (bytes_at d (b + 8) 4) :: u32))) MBR_ENTRIES
     \<and> no_file_system d 0"

definition has_active :: "u8 list \<Rightarrow> bool" where
  "has_active d \<longleftrightarrow> list_ex (\<lambda>b. d ! b = 0x80) MBR_ENTRIES"

definition with_active :: "u8 list \<Rightarrow> u8 list" where
  "with_active d = (if has_active d then d else put_at d 446 [0x80])"

lemma zero_no_marks:
  "replicate 8 (0 :: u8) \<noteq> ascii ''EFI PART''" "replicate 4 (0 :: u8) \<noteq> ascii ''NTFS''" "replicate 3 (0 :: u8) \<noteq> ascii ''FAT''"
  "replicate 5 (0 :: u8) \<noteq> ascii ''FAT32''" "(bytes_word (replicate 2 0) :: u16) \<noteq> 0xef53"
  by code_simp+

lemma bytes_at_1: "p < length v \<Longrightarrow> bytes_at v p (Suc 0) = [v ! p]"
  by (simp add: bytes_at_def take_Suc Cons_nth_drop_Suc [symmetric])

lemma mbr_disk_on_device: "mbr_disk d \<Longrightarrow> p \<le> 4608 \<Longrightarrow> on_device d p"
proof -
  assume "mbr_disk d" "p \<le> 4608"
  then have "4608 div 512 \<le> length d div 512" by (intro div_le_mono) (simp add: mbr_disk_def)
  then have "9 \<le> length d div 512" by simp
  then have "9 * 512 \<le> length d div 512 * 512" by (rule mult_le_mono1)
  then show ?thesis using \<open>p \<le> 4608\<close> by (simp add: on_device_def)
qed

lemma probe_gpt_none:
  assumes "state_is h d n s" and "mbr_disk d"
  shows "ends h d n None (find_gpt h s)"
proof -
  have sig: "signature (gpt_header_of be (bytes_at d p 96)) = bytes_at d p 8" for be p
    by (simp add: gpt_header_of_def bytes_at_bytes_at)
  show ?thesis
    using assms unfolding find_gpt_def probe_gpt.simps Let_def
    by (intro ends_bind [where x = None] ends_read_bind)
      (auto simp: sig mbr_disk_def mbr_disk_on_device intro!: ends_read_bind ends_Ok)
qed

lemma check_partition_valid:
  assumes "state_is h d n s" and "mbr_disk d" and "unat b \<in> set MBR_ENTRIES"
  shows "ends h d n (fst st, snd st \<or> d ! unat b = 0x80) (check_partition h fo b st s)"
proof -
  have b: "unat b \<le> 494" using assms(3) by (auto simp: MBR_ENTRIES_def)
  have len: "4608 \<le> length d" using assms(2) by (simp add: mbr_disk_def)
  have u: "unat (b + 4) = unat b + 4" "unat (b + 8) = unat b + 8" using b by (simp_all add: kunat)
  have fl: "d ! unat b = 0 \<or> d ! unat b = 0x80"
    and lo: "d ! (unat b + 4) \<noteq> 0 \<Longrightarrow> \<not> (bytes_word (bytes_at d (unat b + 8) 4) :: u32) < 63"
    using assms(2,3) by (auto simp: mbr_disk_def list_all_iff not_less)
  have od: "on_device d (unat b + 1)" "on_device d (unat b + 4 + 1)" "on_device d (unat b + 8 + 4)"
    using b by (simp_all add: mbr_disk_on_device [OF assms(2)])
  have one: "bytes_at d (unat b) (Suc 0) = [d ! unat b]" "bytes_at d (unat b + 4) (Suc 0) = [d ! (unat b + 4)]"
    using b len by (auto intro: bytes_at_1)
  have four: "ENDSWAP32 (bigendian h) (native_load (bigendian h) (bytes_at d (unat b + 8) 4)) = bytes_word (bytes_at d (unat b + 8) 4)"
    using b len by simp
  have tail: "ends h d n (m, a) (run_bind (device_read h (b + 4) 1 t) (\<lambda>bs s.
      if hd bs \<noteq> 0x00 then run_bind (device_read h (b + 8) 4 s) (\<lambda>bs s.
        if ENDSWAP32 (bigendian h) (native_load (bigendian h) bs) < 63 then Fail s else Ok (m, a) s)
      else Ok (m, a) s))" if "state_is h d n t" for t m a
    using that od lo by (intro ends_read_bind ends_if ends_Ok) (simp_all add: u one four)
  have flag: "(d ! unat b \<noteq> 0 \<and> d ! unat b \<noteq> 0x80) = False" using fl by blast
  have active: "(d ! unat b AND 0x80 \<noteq> 0) = (d ! unat b = 0x80)" using fl by auto
  have one': "hd (bytes_at d (unat b) (unat (1 :: u64))) = d ! unat b" by (simp add: one)
  show ?thesis
    unfolding check_partition_def Let_def
  proof (rule ends_read_bind [OF assms(1)], goal_cases)
    case 1
    then show ?case using od(1) by simp
  next
    case (2 t)
    from tail [OF 2, of "fst st" "snd st \<or> d ! unat b = 0x80"] show ?case
      unfolding one' flag by (simp, unfold active)
  qed
qed

lemma check_partitions_valid:
  assumes "mbr_disk d" and "\<forall>b\<in>set bases. unat b \<in> set MBR_ENTRIES"
  shows "state_is h d n s \<Longrightarrow>
    ends h d n (fst st, snd st \<or> list_ex (\<lambda>b. d ! unat b = 0x80) bases) (check_partitions h fo bases st s)"
  using assms(2)
proof (induction bases arbitrary: st s)
  case (Cons b bases)
  have "ends h d n (fst st, (snd st \<or> d ! unat b = 0x80) \<or> list_ex (\<lambda>b. d ! unat b = 0x80) bases)
      (check_partitions h fo (b # bases) st s)"
    unfolding check_partitions.simps
    using Cons.IH [of _ "(fst st, snd st \<or> d ! unat b = 0x80)"] Cons.prems
    by (intro ends_bind [OF check_partition_valid [OF Cons.prems(1) assms(1)]]) auto
  then show ?case by (simp add: disj_assoc)
qed (simp add: ends_Ok)

lemma validate_hint_valid:
  assumes "state_is h d n s" and "on_device d (unat loc + length mark)" and "length mark < 256"
    and "bytes_at d (unat loc) (length mark) \<noteq> mark"
  shows "ends h d n True (validate_hint h fo loc mark e s)"
  unfolding validate_hint_def
  using assms by (intro ends_read_bind ends_if ends_Ok) (simp_all add: kunat)

lemma validate_valid:
  assumes "state_is h d n s" and "no_file_system d (unat loc)" and "on_device d (unat loc + 1082)" and "length d < 2 ^ 63"
  shows "ends h d n True (validate_or_force h loc fo s)"
proof -
  have len: "unat loc + 1082 \<le> length d" using on_device_le [OF assms(3)] .
  have u: "unat (loc + 3) = unat loc + 3" "unat (loc + 54) = unat loc + 54" "unat (loc + 82) = unat loc + 82"
    "unat (loc + 1080) = unat loc + 1080" using len assms(4) by (simp_all add: kunat)
  have od: "on_device d p" if "p \<le> unat loc + 1082" for p using on_device_mono [OF assms(3) that] .
  have ne: "(bytes_word (bytes_at d (unat loc + 1080) 2) :: u16) \<noteq> 0xef53" using assms(2) by (simp add: no_file_system_def)
  have ext: "ends h d n True (validate_ext h fo (loc + 1080) t)" if "state_is h d n t" for t
    unfolding validate_ext_def using that len ne
    by (intro ends_read_bind ends_if ends_Ok) (simp_all add: od u)
  have hint: "ends h d n True (run_bind (validate_hint h fo p mark e t) (\<lambda>ok s. if \<not> ok then Ok False s else g s))"
    if "state_is h d n t" "unat p + length mark \<le> unat loc + 1082" "length mark < 256" "bytes_at d (unat p) (length mark) \<noteq> mark"
      "\<And>u. state_is h d n u \<Longrightarrow> ends h d n True (g u)" for p mark e t g
    using that by (intro ends_bind [OF validate_hint_valid]) (auto intro: od)
  have len3: "(3 :: nat) = Suc (Suc (Suc 0))" and len4: "(4 :: nat) = Suc (Suc (Suc (Suc 0)))"
    and len5: "(5 :: nat) = Suc (Suc (Suc (Suc (Suc 0))))" by simp_all
  have marks: "bytes_at d (unat (loc + 3)) 4 \<noteq> ascii ''NTFS''" "bytes_at d (unat (loc + 54)) 3 \<noteq> ascii ''FAT''"
    "bytes_at d (unat (loc + 82)) 3 \<noteq> ascii ''FAT''" "bytes_at d (unat (loc + 3)) 5 \<noteq> ascii ''FAT32''"
    using assms(2) unfolding u by (simp_all add: no_file_system_def)
  note marks = marks(1) [unfolded len4] marks(2,3) [unfolded len3] marks(4) [unfolded len5]
  show ?thesis
    unfolding validate_or_force_def using assms(1) marks by (intro hint ext) (simp_all add: u)
qed

lemma state_is_small: "state_is h d n s \<Longrightarrow> length d < 2 ^ 63"
  using coherent_geometry [of s] by (auto simp: state_is_def device_inv_def geometry_def)

lemma check_mbr_valid:
  assumes "state_is h d n s" and "mbr_disk d" and "n < 256"
  shows "ends h (with_active d) (if has_active d then n else Suc n) True (check_mbr h fo s)"
proof -
  have valid: "ends h d n True (validate_or_force h 0 fo t)" if "state_is h d n t" for t
    using validate_valid [OF that, of 0] mbr_disk_on_device [OF assms(2), of 1082] assms(2) state_is_small [OF assms(1)]
    by (simp add: mbr_disk_def)
  have "ends h d n (True, has_active d) (check_partitions h fo [446, 462, 478, 494] (True, False) s)"
    using check_partitions_valid [OF assms(2) _ assms(1), of "[446, 462, 478, 494]" "(True, False)"]
    by (simp add: MBR_ENTRIES_def has_active_def)
  then show ?thesis
    unfolding check_mbr_def
  proof (rule ends_bind, goal_cases)
    case (1 t)
    show ?case
    proof (cases "has_active d")
      case True
      then show ?thesis using valid [OF 1] by (auto simp: with_active_def intro: ends_bind ends_Ok)
    next
      case False
      have "ends h (put_at d 446 [0x80]) (Suc n) True (run_bind (device_write h [0x80] 446 1 u) (\<lambda>_. Ok True))" if "state_is h d n u" for u
        using that assms(3) mbr_disk_on_device [OF assms(2), of 447] by (intro ends_write_bind) (auto intro: ends_Ok)
      then show ?thesis
        using valid [OF 1] False by (auto simp: with_active_def intro!: ends_bind)
    qed
  qed
qed

section \<open>The boot code\<close>

definition boot_code :: "u8 list \<Rightarrow> u64 \<Rightarrow> u8 list \<Rightarrow> u8 list" where
  "boot_code img loc v =
     put_at (put_at (put_at (put_at (put_at v 0 (take 512 img)) (unat loc) (drop 512 img)) 420 (word_bytes 8 loc))
       218 (bytes_at v 218 6)) 440 (bytes_at v 440 70)"

lemma write_boot_code_ends:
  assumes "state_is h v n s" and "image_ok img" and "n < 200" and "on_device v 512" and "on_device v (unat loc + (length img - 512))"
  shows "\<exists>t. write_boot_code h img loc s = Ok () t \<and> device_inv h t \<and> disk t = boot_code img loc v"
proof -
  define v1 where "v1 = put_at v 0 (take 512 img)"
  define v2 where "v2 = put_at v1 (unat loc) (drop 512 img)"
  define v3 where "v3 = put_at v2 420 (word_bytes 8 loc)"
  define v4 where "v4 = put_at v3 218 (bytes_at v 218 6)"
  have img: "512 < length img" using assms(2) by (simp add: image_ok_def)
  have len: "512 \<le> length v" "unat loc + (length img - 512) \<le> length v" using assms(4,5) on_device_le by blast+
  have ls: "length v1 = length v" "length v2 = length v" "length v3 = length v" "length v4 = length v"
    using len img by (simp_all add: v1_def v2_def v3_def v4_def)
  have od: "on_device w p" if "length w = length v" "p \<le> 512 \<or> p = unat loc + (length img - 512)" for w p
    using that assms(4,5) by (auto simp: on_device_def)
  obtain s1 where s1: "device_read h 218 6 s = Ok (bytes_at v 218 6) s1" "state_is h v n s1"
    using ends_read [OF assms(1), of 218 6] od [of v] by (auto simp: ends_def)
  obtain s2 where s2: "device_read h 440 70 s1 = Ok (bytes_at v 440 70) s2" "state_is h v n s2"
    using ends_read [OF s1(2), of 440 70] od [of v] by (auto simp: ends_def)
  obtain s3 where s3: "device_write h (take 512 img) 0 512 s2 = Ok () s3" "state_is h v1 (Suc n) s3"
    using ends_write [OF s2(2), of 0 512 "take 512 img"] od [of v] img assms(3) by (auto simp: ends_def v1_def)
  obtain s4 where s4: "device_write h (drop 512 img) loc (of_nat (length img) - 512) s3 = Ok () s4" "state_is h v2 (Suc (Suc n)) s4"
    using ends_write [OF s3(2), of loc "of_nat (length img) - 512" "drop 512 img"] od [of v1] ls image_count [OF assms(2)] assms(3)
    by (auto simp: ends_def v2_def)
  obtain s5 where s5: "device_write h (word_bytes 8 loc) 0x1a4 8 s4 = Ok () s5" "state_is h v3 (Suc (Suc (Suc n))) s5"
    using ends_write [OF s4(2), of 420 8 "word_bytes 8 loc"] od [of v2] ls assms(3) by (auto simp: ends_def v3_def)
  obtain s6 where s6: "device_write h (bytes_at v 218 6) 218 6 s5 = Ok () s6" "state_is h v4 (Suc (Suc (Suc (Suc n)))) s6"
    using ends_write [OF s5(2), of 218 6 "bytes_at v 218 6"] od [of v3] ls len assms(3) by (auto simp: ends_def v4_def)
  obtain s7 where s7: "device_write h (bytes_at v 440 70) 440 70 s6 = Ok () s7" "state_is h (boot_code img loc v) (Suc (Suc (Suc (Suc (Suc n))))) s7"
    using ends_write [OF s6(2), of 440 70 "bytes_at v 440 70"] od [of v4] ls len assms(3)
    by (auto simp: ends_def boot_code_def v1_def v2_def v3_def v4_def)
  from ends_flush [OF s7(2)] obtain t where "device_flush_cache h s7 = Ok () t" "state_is h (boot_code img loc v) (Suc (Suc (Suc (Suc (Suc n))))) t"
    "disk t = boot_code img loc v" by blast
  then show ?thesis using s1(1) s2(1) s3(1) s4(1) s5(1) s6(1) s7(1) by (simp add: write_boot_code_def state_is_def)
qed

lemma install_on_mbr:
  assumes "state_is h v n s" and "n < 199" and "mbr_disk v" and "image_ok img" and "on_device v (length img)"
  shows "\<exists>t. run_bind (run_bind (check_mbr h fo s) (\<lambda>mbr s. if mbr then Ok 512 s else Fail s)) (write_boot_code h img) = Ok () t
    \<and> device_inv h t \<and> disk t = boot_code img 512 (with_active v)"
proof -
  obtain s2 where s2: "check_mbr h fo s = Ok True s2" "state_is h (with_active v) (if has_active v then n else Suc n) s2"
    using check_mbr_valid [OF assms(1,3)] assms(2) by (auto simp: ends_def)
  have few: "(if has_active v then n else Suc n) < 200" using assms(2) by simp
  have "length (with_active v) = length v" using assms(3) by (simp add: with_active_def mbr_disk_def)
  then have "on_device (with_active v) p \<longleftrightarrow> on_device v p" for p by (simp add: on_device_def)
  moreover have "512 < length img" using assms(4) by (simp add: image_ok_def)
  ultimately obtain t where "write_boot_code h img 512 s2 = Ok () t" "device_inv h t" "disk t = boot_code img 512 (with_active v)"
    using write_boot_code_ends [OF s2(2) assms(4) few, of 512] assms(5) on_device_mono [OF assms(5), of 512] by auto
  then show ?thesis using s2(1) by simp
qed

lemma install_mbr:
  assumes "state_is h d 0 s" and "mbr_disk d" and "image_ok img" and "on_device d (length img)"
  shows "\<exists>t. install h opts img s = Ok () t \<and> device_inv h t \<and> disk t = boot_code img 512 (with_active d)"
proof -
  obtain s1 where s1: "find_gpt h s = Ok None s1" "state_is h d 0 s1"
    using probe_gpt_none [OF assms(1,2)] by (auto simp: ends_def)
  then show ?thesis using install_on_mbr [OF s1(2) _ assms(2-4), of "force opts"] by (simp add: install_def)
qed

lemma nth_boot_code:
  assumes "image_ok img" and "length img \<le> length v" and "i < length v"
  shows "boot_code img 512 v ! i =
    (if 440 \<le> i \<and> i < 510 \<or> 218 \<le> i \<and> i < 224 then v ! i
     else if 420 \<le> i \<and> i < 428 then word_bytes 8 (512 :: u64) ! (i - 420)
     else if i < length img then img ! i else v ! i)"
  using assms unfolding boot_code_def by (auto simp: nth_put_at nth_bytes_at image_ok_def)

end
