(* ===== verification/Limine_Enroll.thy ===== *)
theory Limine_Enroll
  imports Limine_Install
begin

text \<open>
  The command \<open>enroll-config\<close> of \<open>src/limine/limine.c\<close>, which puts the checksum of the configuration file
  into a boot loader executable, and the command dispatch of \<open>main\<close>. The executable is a file of its own;
  its contents and the number of library calls made are the state. The texts printed for the user are
  not modelled.
\<close>

section \<open>Searching the place of the checksum\<close>

definition CONFIG_B2SUM_SIGNATURE :: "u8 list" where
  "CONFIG_B2SUM_SIGNATURE = ascii ''++CONFIG_B2SUM_SIGNATURE++''"

text \<open>
  The loop over the bytes of the executable: \<open>i\<close> is the current byte, \<open>checked\<close> the number of bytes that have
  matched, and \<open>limit\<close> the bound of the loop. After a mismatch the search goes back to the byte behind the
  beginning of the failed match. The result is the place behind the signature.
\<close>

function find_signature :: "u8 list \<Rightarrow> u8 list \<Rightarrow> nat \<Rightarrow> nat \<Rightarrow> nat \<Rightarrow> nat option" where
  "find_signature sign bs limit i checked =
     (if i < limit \<and> checked \<le> i \<and> checked < length sign then
        if bs ! i \<noteq> sign ! checked then find_signature sign bs limit (i - checked + 1) 0
        else if Suc checked = length sign then Some (i + 1)
        else find_signature sign bs limit (i + 1) (Suc checked)
      else None)"
  by pat_completeness auto
termination
proof (relation "measures [\<lambda>(sign, bs, limit, i, checked). limit - (i - checked), \<lambda>(sign, bs, limit, i, checked). limit - i]", goal_cases)
  case 1
  show ?case by simp
next
  case (2 sign bs limit i checked)
  then show ?case by simp linarith
next
  case (3 sign bs limit i checked)
  then show ?case by (simp add: diff_less_mono2)
qed

declare find_signature.simps [simp del]

definition min_size :: nat where
  "min_size = length CONFIG_B2SUM_SIGNATURE + 128"

section \<open>Arguments\<close>

text \<open>\<open>remove_arg\<close> moves the arguments behind \<open>index\<close> down by one.\<close>

definition remove_arg :: "string list \<Rightarrow> nat \<Rightarrow> string list" where
  "remove_arg argv index = butlast (fold (\<lambda>i argv. argv[i := argv ! (i + 1)]) [index..<length argv - 1] argv)"

lemma length_remove_arg [simp]: "length (remove_arg argv index) = length argv - 1"
proof -
  have "length (fold (\<lambda>i argv. argv[i := argv ! (i + 1)]) is argv) = length argv" for "is"
    by (induction "is" arbitrary: argv) auto
  then show ?thesis by (simp add: remove_arg_def)
qed

text \<open>The options are removed from the arguments: an exit code, or the other arguments and whether \<open>--reset\<close> was given.\<close>

function enroll_args :: "string list \<Rightarrow> nat \<Rightarrow> bool \<Rightarrow> nat + (string list \<times> bool)" where
  "enroll_args argv i reset =
     (if i < length argv then
        if argv ! i = ''--help'' \<or> argv ! i = ''-h'' then Inl EXIT_SUCCESS
        else if argv ! i = ''--quiet'' then enroll_args (remove_arg argv i) i reset
        else if argv ! i = ''--reset'' then enroll_args (remove_arg argv i) i True
        else enroll_args argv (i + 1) reset
      else Inr (argv, reset))"
  by pat_completeness auto
termination
  by (relation "measure (\<lambda>(argv, i, reset). length argv - i)") auto

declare enroll_args.simps [simp del]

section \<open>Enrolling\<close>

text \<open>The exit code, the executable afterwards, and the number of library calls made.\<close>

definition enroll_config :: "host \<Rightarrow> string list \<Rightarrow> u8 list \<Rightarrow> nat \<Rightarrow> nat \<times> u8 list \<times> nat" where
  "enroll_config h argv bootloader n =
     (case enroll_args argv 1 False of
        Inl code \<Rightarrow> (code, bootloader, n)
      | Inr (argv, reset) \<Rightarrow>
         if length argv \<le> (if reset then 1 else 2) then (EXIT_FAILURE, bootloader, n)
         else if \<not> reset \<and> length (argv ! 2) \<noteq> 128 then (EXIT_FAILURE, bootloader, n)
         else if \<not> call_ok h n then (EXIT_FAILURE, bootloader, n + 1)
         else if \<not> call_ok h (n + 1) then (EXIT_FAILURE, bootloader, n + 2)
         else if \<not> call_ok h (n + 2) then (EXIT_FAILURE, bootloader, n + 3)
         else if length bootloader < min_size then (EXIT_FAILURE, bootloader, n + 3)
         else if \<not> call_ok h (n + 3) then (EXIT_FAILURE, bootloader, n + 4)
         else if \<not> call_ok h (n + 4) then (EXIT_FAILURE, bootloader, n + 5)
         else case find_signature CONFIG_B2SUM_SIGNATURE bootloader (length bootloader - min_size + 1) 0 0 of
             None \<Rightarrow> (EXIT_FAILURE, bootloader, n + 5)
           | Some checksum_loc \<Rightarrow>
              let new = put_at bootloader checksum_loc (if reset then replicate 128 (of_char CHR ''0'') else ascii (argv ! 2)) in
              if \<not> call_ok h (n + 5) then (EXIT_FAILURE, bootloader, n + 6)
              else if \<not> call_ok h (n + 6) then (EXIT_FAILURE, put_at bootloader 0 (take (torn h (n + 6)) new), n + 7)
              else (EXIT_SUCCESS, new, n + 7))"

section \<open>The commands of the program\<close>

definition version :: "string list \<Rightarrow> string list" where
  "version argv =
     (if length argv \<ge> 2 \<and> argv ! 1 = ''--help'' then []
      else if length argv \<ge> 2 \<and> argv ! 1 = ''--version-only'' then [''10.8.5'']
      else [''Limine 10.8.5'', ''Copyright (C) 2019-2026 Mintsuki and contributors.'',
        ''Limine is distributed under the terms of the BSD-2-Clause license.'',
        ''There is ABSOLUTELY NO WARRANTY, to the extent permitted by law.''])"

text \<open>
  \<open>main\<close>: the exit code with the states of installer and executable. The program is built without
  \<open>LIMINE_DATADIR\<close>, so the command that prints it fails.
\<close>

definition limine_main :: "host \<Rightarrow> u8 list \<Rightarrow> string list \<Rightarrow> installer \<Rightarrow> u8 list \<Rightarrow> (nat, installer \<times> u8 list) run" where
  "limine_main h img argv s exe =
     (if length argv \<le> 1 then Ok EXIT_FAILURE (s, exe)
      else if argv ! 1 = ''help'' \<or> argv ! 1 = ''--help'' \<or> argv ! 1 = ''-h'' then Ok EXIT_SUCCESS (s, exe)
      else if argv ! 1 = ''bios-install'' then
        (case bios_install h img (drop 2 argv) s of
           Ok code s \<Rightarrow> Ok code (s, exe) | Fail s \<Rightarrow> Fail (s, exe) | Crash \<Rightarrow> Crash)
      else if argv ! 1 = ''enroll-config'' then
        (case enroll_config h (drop 1 argv) exe (calls s) of (code, exe, n) \<Rightarrow> Ok code (s\<lparr>calls := n\<rparr>, exe))
      else if argv ! 1 = ''--print-datadir'' then Ok EXIT_FAILURE (s, exe)
      else if argv ! 1 = ''version'' \<or> argv ! 1 = ''--version'' then Ok EXIT_SUCCESS (s, exe)
      else Ok EXIT_FAILURE (s, exe))"

section \<open>What the search finds\<close>

text \<open>The reference: the first place of the signature that ends before the bound of the loop.\<close>

definition signature_at :: "u8 list \<Rightarrow> u8 list \<Rightarrow> nat \<Rightarrow> bool" where
  "signature_at sign bs q \<longleftrightarrow> bytes_at bs q (length sign) = sign"

definition first_signature :: "u8 list \<Rightarrow> u8 list \<Rightarrow> nat \<Rightarrow> nat option" where
  "first_signature sign bs limit = find (signature_at sign bs) [0..<Suc limit - length sign]"

lemma find_upt_step: "find P [q..<n] = (if q < n then if P q then Some q else find P [Suc q..<n] else None)"
  by (simp add: upt_conv_Cons)

lemma signature_at_iff:
  "q + length sign \<le> length bs \<Longrightarrow> signature_at sign bs q \<longleftrightarrow> (\<forall>j<length sign. bs ! (q + j) = sign ! j)"
  by (auto simp: signature_at_def list_eq_iff_nth_eq nth_bytes_at)

lemma find_signature_from:
  assumes "limit \<le> length bs" and "checked \<le> i" and "checked < length sign" and "\<forall>j<checked. bs ! (i - checked + j) = sign ! j"
  shows "find_signature sign bs limit i checked
    = map_option (\<lambda>q. q + length sign) (find (signature_at sign bs) [i - checked..<Suc limit - length sign])"
  using assms
proof (induction sign bs limit i checked rule: find_signature.induct)
  case (1 sign bs limit i checked)
  define q n where "q = i - checked" and "n = Suc limit - length sign"
  have i: "i = q + checked" using 1 by (simp add: q_def)
  show ?case
  proof (cases "i < limit")
    case False
    then have "\<not> q < n" using 1 by (simp add: i n_def)
    then show ?thesis using False by (subst find_signature.simps) (simp add: q_def n_def)
  next
    case in_range: True
    consider "bs ! i \<noteq> sign ! checked" | "bs ! i = sign ! checked" "Suc checked = length sign"
      | "bs ! i = sign ! checked" "Suc checked < length sign" using 1 by fastforce
    then show ?thesis
    proof cases
      case 1
      have step: "find_signature sign bs limit i checked = find_signature sign bs limit (q + 1) 0"
        using in_range 1 "1.prems" by (subst find_signature.simps) (simp add: q_def)
      have "\<not> signature_at sign bs q" if "q < n"
        using that 1 "1.prems" by (subst signature_at_iff) (auto simp: n_def i)
      then have "find (signature_at sign bs) [q..<n] = find (signature_at sign bs) [Suc q..<n]"
        by (subst find_upt_step) simp
      moreover have "sign \<noteq> []" using "1.prems" by auto
      ultimately show ?thesis using step "1.IH"(1) in_range 1 "1.prems" by (simp add: q_def n_def)
    next
      case 2
      have found: "find_signature sign bs limit i checked = Some (i + 1)"
        using in_range 2 "1.prems" by (subst find_signature.simps) simp
      have "q < n" using in_range 2(2) i by (simp add: n_def)
      moreover have "bs ! (q + j) = sign ! j" if "j < length sign" for j
      proof (cases "j = checked")
        case True
        then show ?thesis using 2(1) i by simp
      next
        case False
        then show ?thesis using that 2(2) "1.prems"(4) unfolding q_def by simp
      qed
      then have "signature_at sign bs q"
        using in_range 2(2) "1.prems"(1) i by (subst signature_at_iff) auto
      ultimately have "find (signature_at sign bs) [q..<n] = Some q" by (subst find_upt_step) simp
      with found show ?thesis using 2(2) i by (simp flip: q_def n_def)
    next
      case 3
      have step: "find_signature sign bs limit i checked = find_signature sign bs limit (i + 1) (Suc checked)"
        using in_range 3 "1.prems" by (subst find_signature.simps) simp
      have "\<forall>j<Suc checked. bs ! (q + j) = sign ! j" using "1.prems" 3 by (auto simp: q_def less_Suc_eq)
      then show ?thesis using step "1.IH"(2) in_range 3 "1.prems" by (simp add: q_def)
    qed
  qed
qed

lemma find_signature_first:
  "limit \<le> length bs \<Longrightarrow> sign \<noteq> [] \<Longrightarrow>
    find_signature sign bs limit 0 0 = map_option (\<lambda>q. q + length sign) (first_signature sign bs limit)"
  using find_signature_from [of limit bs 0 0 sign] by (simp add: first_signature_def)

lemma first_signature_Some:
  "first_signature sign bs limit = Some q \<longleftrightarrow>
    signature_at sign bs q \<and> q < Suc limit - length sign \<and> (\<forall>p<q. \<not> signature_at sign bs p)"
  unfolding first_signature_def find_Some_iff by auto

lemma first_signature_None:
  "first_signature sign bs limit = None \<longleftrightarrow> (\<forall>q<Suc limit - length sign. \<not> signature_at sign bs q)"
  unfolding first_signature_def find_None_iff by auto

lemma length_signature: "length CONFIG_B2SUM_SIGNATURE = 26"
  by (simp add: CONFIG_B2SUM_SIGNATURE_def ascii_def)

lemma signature_not_Nil [simp]: "CONFIG_B2SUM_SIGNATURE \<noteq> []"
  using length_signature by force

text \<open>
  \<open>remove_arg\<close> is the removal of one list element.
\<close>

lemma shift_down:
  "index + n < length xs \<Longrightarrow> k < length xs \<Longrightarrow>
    fold (\<lambda>i xs. xs[i := xs ! (i + 1)]) [index..<index + n] xs ! k = (if index \<le> k \<and> k < index + n then xs ! Suc k else xs ! k)
    \<and> length (fold (\<lambda>i xs. xs[i := xs ! (i + 1)]) [index..<index + n] xs) = length xs"
proof (induction n arbitrary: k)
  case (Suc n)
  then show ?case using Suc.IH [of k] Suc.IH [of "index + n + 1"] by (cases "k = index + n") auto
qed auto

lemma remove_arg_eq: "index < length argv \<Longrightarrow> remove_arg argv index = take index argv @ drop (Suc index) argv"
proof (rule nth_equalityI)
  fix k assume i: "index < length argv" and "k < length (remove_arg argv index)"
  then have k: "k < length argv - 1" by simp
  then show "remove_arg argv index ! k = (take index argv @ drop (Suc index) argv) ! k"
    using shift_down [of index "length argv - 1 - index" argv k] i
    by (simp add: remove_arg_def nth_butlast nth_append)
qed simp

end
