(* ===== verification/Limine_Properties.thy ===== *)
theory Limine_Properties
  imports Limine_Mbr Limine_Enroll
begin

text \<open>
  The properties of the installer: the cached device is an array of bytes, everything that was written
  can be undone, a failed installation leaves the device as it was, a successful one leaves exactly
  the boot code and can be undone from its data file.
\<close>

section \<open>An example host and device\<close>

definition ex_host :: host where
  "ex_host = \<lparr>call_ok = \<lambda>_. True, junk = \<lambda>_. [], torn = \<lambda>_. 0, random_byte = \<lambda>_. 0, sizeof_long = 8, bigendian = False\<rparr>"

definition ex_disk :: "u8 list" where
  "ex_disk = replicate 8192 0"

definition ex_image :: "u8 list" where
  "ex_image = replicate 600 0x90"

definition ex_opened :: installer where
  "ex_opened = (program_start ex_disk None)\<lparr>cache := bytes_at ex_disk 0 512, block_size := 512\<rparr>"

lemma ex_host_ok [simp]: "host_ok ex_host"
  by (simp add: host_ok_def ex_host_def)

lemma ex_image_ok [simp]: "image_ok ex_image"
  by (simp add: image_ok_def ex_image_def)

lemma ex_opened_opened: "opened ex_host (program_start ex_disk None) ex_opened"
proof -
  have "coherent ex_opened"
    by (simp add: ex_opened_def program_start_def coherent_def geometry_def bsz_def block_pos_def ex_disk_def)
  moreover have "view ex_opened = disk ex_opened"
    using view_clean [OF \<open>coherent ex_opened\<close>] by (simp add: ex_opened_def program_start_def)
  ultimately show ?thesis
    by (simp add: opened_def device_inv_def journal_wf_def entries_def)
      (simp add: ex_opened_def program_start_def bsz_def UNINSTALL_DATA_MAX_def)
qed

section \<open>The cached device\<close>

text \<open>C38: the block cache is invisible: on a host whose calls succeed, a read returns the bytes of the
  device with the cached block put in place and changes none of them, a write changes exactly its range,
  and both work for every range on whole blocks, across block borders and whatever is cached.\<close>

theorem device_refines_bytes:
  assumes "device_inv h s" and "unat loc + unat count \<le> whole s"
  shows "(\<exists>t. device_read h loc count s = Ok (bytes_at (view s) (unat loc) (unat count)) t \<and> device_inv h t \<and> view t = view s)
    \<and> (0 < count \<and> length xs = unat count \<and> unat (uninstall_data_i s) < UNINSTALL_DATA_MAX \<longrightarrow>
        (\<exists>t. device_write h xs loc count s = Ok () t \<and> device_inv h t \<and> view t = put_at (view s) (unat loc) xs))
    \<and> (\<exists>t. device_flush_cache h s = Ok () t \<and> device_inv h t \<and> view t = view s \<and> disk t = view s)"
proof -
  have inv: "host_ok h" "coherent s" "\<not> uninstalling s" "journal_wf s" using assms(1) by (simp_all add: device_inv_def)
  have settled: "device_inv h t" if "coherent t" "view t = view s" "statics t = statics s" for t
    using that whole_same [OF inv(2) that(1) _ that(3)] inv by (simp add: device_inv_def journal_wf_def statics_eqD [OF that(3)])
  show ?thesis
    using device_read_Ok [OF inv(1,2) assms(2)] device_write_Ok [OF inv, of xs count loc] assms(2) flush_cache [OF inv(1,2)] inv(1)
    by (intro conjI impI; (elim conjE)?) (blast intro: settled, force simp: device_inv_def, blast intro: settled)
qed

theorem device_refines_bytes_witness:
  "device_inv ex_host ex_opened \<and> unat (500 :: u64) + unat (40 :: u64) \<le> whole ex_opened
    \<and> (\<exists>t. device_write ex_host (replicate 40 1) 500 40 ex_opened = Ok () t \<and> view t = put_at ex_disk 500 (replicate 40 1))"
proof -
  have i: "device_inv ex_host ex_opened" "view ex_opened = ex_disk"
    using ex_opened_opened by (simp_all add: opened_def program_start_def)
  have w: "unat (500 :: u64) + unat (40 :: u64) \<le> whole ex_opened"
    by (simp add: whole_def bsz_def ex_opened_def program_start_def ex_disk_def)
  have "unat (uninstall_data_i ex_opened) < UNINSTALL_DATA_MAX"
    by (simp add: ex_opened_def program_start_def UNINSTALL_DATA_MAX_def)
  then show ?thesis using device_refines_bytes [OF i(1) w, of "replicate 40 1"] i w by auto
qed

section \<open>Undoing\<close>

text \<open>Whatever an installation has read, written and flushed, in any order, undoing it gives the
  original contents of the device, even though the cache is discarded and overlapping writes occur.\<close>

theorem uninstall_restores:
  assumes "device_inv h s" and "journal s = []" and "disk s = view s" and "log_runs (device_stores h) (device_settles h) s t"
  shows "\<exists>u. uninstall h (reverse_uninstall_data t) = Ok True u \<and> disk u = view s"
proof -
  have "undoable (view s) (journal s) (view s) (disk s)" using undoable_init assms(2,3) by simp
  with device_log.runs_undoable [OF assms(4,1)]
  have t: "device_inv h t" "undoable (view s) (journal t) (view t) (disk t)" by blast+
  then show ?thesis
    using uninstall_restores_disk [of h t "view s"] by (auto simp: device_inv_def undoable_def coherent_geometry)
qed

theorem uninstall_restores_witness:
  "\<exists>t u. device_write ex_host (replicate 40 1) 500 40 ex_opened = Ok () t
    \<and> uninstall ex_host (reverse_uninstall_data t) = Ok True u \<and> disk u = ex_disk"
proof -
  have i: "device_inv ex_host ex_opened" "view ex_opened = ex_disk" "disk ex_opened = ex_disk" "journal ex_opened = []"
    using ex_opened_opened by (simp_all add: opened_def program_start_def journal_def entries_def)
  have "unat (500 :: u64) + unat (40 :: u64) \<le> whole ex_opened" "unat (uninstall_data_i ex_opened) < UNINSTALL_DATA_MAX"
    by (simp_all add: whole_def bsz_def ex_opened_def program_start_def ex_disk_def UNINSTALL_DATA_MAX_def)
  then obtain t where t: "device_write ex_host (replicate 40 1) 500 40 ex_opened = Ok () t"
    using device_write_Ok [of ex_host ex_opened "replicate 40 1" 40 500] i(1) by (auto simp: device_inv_def)
  have "device_stores ex_host (replicate 40 1) 500 ex_opened t"
    unfolding device_stores_def using t by (intro exI [of _ 500] exI [of _ 40]) simp
  then have "log_runs (device_stores ex_host) (device_settles ex_host) ex_opened t" by (blast intro: log_runs.intros)
  from uninstall_restores [OF i(1,4) _ this] i t show ?thesis by auto
qed

section \<open>Whole runs\<close>

lemma program_start_simps [simp]:
  "disk (program_start d f) = d" "udfile (program_start d f) = f" "uninstall_data_i (program_start d f) = 0"
  "\<not> uninstalling (program_start d f)" "length (uninstall_data (program_start d f)) = UNINSTALL_DATA_MAX"
  by (simp_all add: program_start_def)

lemma finish_start: "uninstall_data_i s = 0 \<Longrightarrow> finish c s = Ok c s"
  by (simp add: finish_def free_uninstall_data_def)

lemma bios_install_opened:
  assumes "host_ok h" and "512 \<le> length d" and "length d < 2 ^ 63" and "args \<noteq> []"
    and "parse_args h args no_options (program_start d f) = (Inr opts, s)" and "device opts"
  shows "\<exists>t. opened h (program_start d f) t
    \<and> bios_install h img args (program_start d f) = (if uninstall_mode opts then run_uninstall h opts t else run_install h opts img t)"
proof -
  obtain n where s: "s = (program_start d f)\<lparr>calls := n\<rparr>" using parse_args_state [of h args no_options "program_start d f"] assms(5) by auto
  from device_init_opened [OF assms(1), of s] assms(2,3) obtain t where t: "device_init h s = Ok () t" "opened h s t" by (auto simp: s)
  then show ?thesis using assms(4-6) by (intro exI [of _ t]) (simp add: bios_install_def, simp add: opened_def s)
qed

lemma bios_install_small:
  assumes "host_ok h" and "length d < 512" and "args \<noteq> []"
    and "parse_args h args no_options (program_start d f) = (Inr opts, s)" and "device opts"
  shows "\<exists>t. bios_install h img args (program_start d f) = Ok EXIT_FAILURE t \<and> disk t = d \<and> udfile t = f"
proof -
  obtain n where s: "s = (program_start d f)\<lparr>calls := n\<rparr>" using parse_args_state [of h args no_options "program_start d f"] assms(4) by auto
  with device_init_Fail [OF assms(1), of s] assms(2) obtain n p c where "device_init h s = Fail (s\<lparr>calls := n, fpos := p, cache := c\<rparr>)"
    by auto
  then show ?thesis using assms(3-5) by (simp add: bios_install_def finish_start s)
qed

lemma parse_args_device: "parse_args h args no_options s = (Inr opts, s') \<Longrightarrow> device opts \<Longrightarrow> args \<noteq> []"
  by (auto simp: no_options_def)

lemma bios_install_cases:
  assumes "host_ok h" and "length d < 2 ^ 63" and "''--uninstall'' \<notin> set args"
  shows "(\<exists>c t. bios_install h img args (program_start d f) = Ok c t \<and> c \<in> {EXIT_SUCCESS, EXIT_FAILURE} \<and> disk t = d \<and> udfile t = f)
    \<or> (\<exists>opts t. opened h (program_start d f) t \<and> bios_install h img args (program_start d f) = run_install h opts img t)"
proof (cases "args = []")
  case True
  then show ?thesis by (simp add: bios_install_def)
next
  case False
  obtain r s where p: "parse_args h args no_options (program_start d f) = (r, s)" by fastforce
  obtain n where s: "s = (program_start d f)\<lparr>calls := n\<rparr>" using parse_args_state [of h args no_options "program_start d f"] p by auto
  show ?thesis
  proof (cases r)
    case (Inl c)
    then show ?thesis using p False parse_args_exit [of h args no_options "program_start d f" c] by (simp add: bios_install_def s)
  next
    case (Inr opts)
    have m: "\<not> uninstall_mode opts"
      using parse_args_mode [of h args no_options "program_start d f" opts] p Inr assms(3) by (simp add: no_options_def)
    consider "\<not> device opts" | "device opts" "length d < 512" | "device opts" "512 \<le> length d" by linarith
    then show ?thesis
    proof cases
      case 1
      then show ?thesis using p Inr False by (simp add: bios_install_def s)
    next
      case 2
      then show ?thesis using bios_install_small [OF assms(1) 2(2) False, of f opts s img] p Inr by auto
    next
      case 3
      then show ?thesis using bios_install_opened [OF assms(1) _ assms(2) False, of f opts s img] p Inr m by auto
    qed
  qed
qed

text \<open>What the two modes do once the device is open.\<close>

lemma run_install_result:
  assumes "host_ok h" and "image_ok img" and "opened h (program_start d f) s" and "run_install h opts img s = Ok EXIT_SUCCESS t"
  shows "\<exists>x. good h d f x \<and> disk t = disk x
    \<and> udfile t = (if uninstall_file opts = None then f else Some (encode_log (bigendian h) (rev (entries x))))"
proof -
  have k: "keeps h d f (\<lambda>_. True) (install h opts img s)" using keeps_install [OF opened_good [OF assms(3)] assms(2)] by simp
  show ?thesis
  proof (cases "install h opts img s")
    case (Ok u x)
    then have "good h d f x" using k by (simp add: keeps_def)
    with run_install_success [OF assms(1) this, of opts img s] Ok assms(4) show ?thesis by auto
  next
    case (Fail x)
    then have "stopped d f x" using k by (simp add: keeps_def)
    from run_install_stopped [OF assms(1) this] Fail assms(4) show ?thesis
      by (auto simp: run_install_def EXIT_SUCCESS_def EXIT_FAILURE_def)
  next
    case Crash
    then show ?thesis using k by (simp add: keeps_def)
  qed
qed

lemma run_uninstall_result:
  assumes "host_ok h" and "bigendian h = be" and "opened h (program_start (disk t) (udfile t)) s"
    and "good h0 d f x" and "disk t = disk x" and "udfile t = Some (encode_log be (rev (entries x)))" and "uninstall_file opts \<noteq> None"
  shows "\<exists>u. run_uninstall h opts s = Ok EXIT_SUCCESS u \<and> disk u = d"
proof -
  have x: "journal_wf x" "bsz x = 512" "restores d (journal x)" "agrees d (journal x) (disk x)"
    using assms(4) by (simp_all add: good_def device_inv_def undoable_def)
  define uds where "uds = rev (entries x)"
  have s: "device_inv h s" "disk s = disk x" "bsz s = 512" "udfile s = Some (encode_log (bigendian h) uds)"
    "length (uninstall_data s) = UNINSTALL_DATA_MAX"
    using assms(2,3,5,6) by (simp_all add: opened_def uds_def)
  have w: "whole s = whole x" using s x by (simp add: whole_def)
  have ok: "list_all (entry_ok (whole s)) uds" and few: "length uds \<le> UNINSTALL_DATA_MAX"
    using x(1) by (simp_all add: w uds_def journal_wf_def list_all_iff entries_def)
  from load_Ok [OF assms(1) s(4) ok few s(5)] obtain k y where y: "load_uninstall_data h s = Ok () y"
    "y = s\<lparr>uninstall_data_i := of_nat (length uds), calls := k, uninstall_data := uds @ drop (length uds) (uninstall_data s)\<rparr>" by blast
  have n: "unat (of_nat (length uds) :: u64) = length uds" using few by (simp add: UNINSTALL_DATA_MAX_def kunat)
  have e: "entries y = uds" by (simp add: y(2) entries_def n)
  have wy: "whole y = whole s" "disk y = disk x" using s(2) by (simp_all add: y(2) whole_def bsz_def)
  have wf: "journal_wf y"
    using ok few s(5) e wy by (simp add: journal_wf_def) (simp add: y(2) n)
  have geo: "geometry y" using coherent_geometry [of s] s(1) by (simp add: y(2) device_inv_def geometry_def bsz_def)
  have "journal y = rev (journal x)" by (simp add: journal_def e uds_def rev_map)
  with uninstall_Ok [OF assms(1) geo wf] x(3,4) wy(2) obtain u
    where u: "uninstall h y = Ok True u" "disk u = d" "uninstall_data u = uninstall_data y" "uninstall_data_i u = uninstall_data_i y"
    by (auto simp: restores_def)
  have "unat (uninstall_data_i u) \<le> length (uninstall_data u)" "\<forall>ud\<in>set (entries u). ud_data ud \<noteq> Freed"
    using wf u(3,4) journal_wf_not_freed [OF wf] by (simp_all add: journal_wf_def entries_def)
  from finish_Ok [OF this, of EXIT_SUCCESS] obtain us where "finish EXIT_SUCCESS u = Ok EXIT_SUCCESS (u\<lparr>uninstall_data := us\<rparr>)" by blast
  then show ?thesis using assms(7) y(1) u(1,2) by (auto simp: run_uninstall_def)
qed



lemma install_run:
  assumes "host_ok h" and "image_ok img" and "512 \<le> length d" and "length d < 2 ^ 63"
    and "parse_args h args no_options (program_start d f) = (Inr opts, s)" and "device opts" and "\<not> uninstall_mode opts"
    and "\<And>s. state_is h d 0 s \<Longrightarrow> \<exists>t. install h opts img s = Ok () t \<and> device_inv h t \<and> disk t = v"
  shows "\<exists>t. bios_install h img args (program_start d f) = Ok EXIT_SUCCESS t \<and> disk t = v \<and> length (disk t) = length d"
proof -
  from bios_install_opened [OF assms(1,3,4) parse_args_device [OF assms(5,6)] assms(5,6), of img] assms(7)
  obtain s0 where o: "opened h (program_start d f) s0" and run: "bios_install h img args (program_start d f) = run_install h opts img s0"
    by auto
  have "state_is h d 0 s0" using o by (simp add: state_is_def opened_def)
  from assms(8) [OF this] obtain u where u: "install h opts img s0 = Ok () u" "disk u = v" by auto
  have g: "good h d f u" using keeps_install [OF opened_good [OF o] assms(2), of opts] u(1) by (simp add: keeps_def)
  from run_install_success [OF assms(1) g u(1)] obtain t
    where t: "run_install h opts img s0 = Ok EXIT_SUCCESS t" "disk t = disk u" by auto
  then show ?thesis using g run u(2) by (simp add: good_def undoable_def agrees_def)
qed

lemma mbr_install_run:
  assumes "host_ok h" and "image_ok img" and "mbr_disk d" and "on_device d (length img)" and "length d < 2 ^ 63"
    and "parse_args h args no_options (program_start d f) = (Inr opts, s)" and "device opts" and "\<not> uninstall_mode opts"
  shows "\<exists>t. bios_install h img args (program_start d f) = Ok EXIT_SUCCESS t \<and> disk t = boot_code img 512 (with_active d)
    \<and> length (disk t) = length d"
  using assms install_mbr [of h d _ img opts] by (intro install_run) (auto simp: mbr_disk_def)

text \<open>C37: on a device with a valid MBR, no GPT and no recognised file system, that is large enough for the
  image, \<open>bios_install\<close> succeeds and leaves exactly this: the image from the first byte on, with the location
  of the second stage patched in, but the timestamp and the partition table of the device, the first
  partition marked active if none was, and every byte behind the image.\<close>

theorem mbr_install_correct:
  assumes "host_ok h" and "image_ok img" and "mbr_disk d" and "on_device d (length img)" and "length d < 2 ^ 63"
    and "parse_args h args no_options (program_start d f) = (Inr opts, s)" and "device opts" and "\<not> uninstall_mode opts"
  shows "\<exists>t. bios_install h img args (program_start d f) = Ok EXIT_SUCCESS t \<and> length (disk t) = length d
    \<and> (\<forall>i<length d. disk t ! i =
        (if 440 \<le> i \<and> i < 510 \<or> 218 \<le> i \<and> i < 224 then with_active d ! i
         else if 420 \<le> i \<and> i < 428 then word_bytes 8 (512 :: u64) ! (i - 420)
         else if i < length img then img ! i else d ! i))"
proof -
  have wa: "length (with_active d) = length d" using assms(3) by (simp add: with_active_def mbr_disk_def)
  have img: "length img \<le> length (with_active d)" using on_device_le [OF assms(4)] wa by simp
  have rest: "with_active d ! i = d ! i" if "512 \<le> i" "i < length d" for i
    using that by (simp add: with_active_def nth_put_at)
  have "512 < length img" using assms(2) by (simp add: image_ok_def)
  then show ?thesis
    using mbr_install_run [OF assms] nth_boot_code [OF assms(2) img] wa rest by (auto simp: not_less)
qed

lemma ex_disk_zero: "p + n \<le> 8192 \<Longrightarrow> bytes_at ex_disk p n = replicate n 0" "i < 8192 \<Longrightarrow> ex_disk ! i = 0"
  by (simp_all add: ex_disk_def bytes_at_def)

lemma ex_mbr_disk: "mbr_disk ex_disk" "on_device ex_disk (length ex_image)"
proof -
  have "length ex_disk = 8192" by (simp add: ex_disk_def)
  then show "mbr_disk ex_disk"
    using zero_no_marks by (simp add: mbr_disk_def no_file_system_def ex_disk_zero MBR_ENTRIES_def)
  show "on_device ex_disk (length ex_image)" by (simp add: on_device_def ex_disk_def ex_image_def)
qed

theorem mbr_install_correct_witness:
  "mbr_disk ex_disk \<and> on_device ex_disk (length ex_image)
    \<and> (\<exists>t. bios_install ex_host ex_image [''disk.img''] (program_start ex_disk None) = Ok EXIT_SUCCESS t
        \<and> disk t ! 0 = 0x90 \<and> disk t ! 446 = 0x80 \<and> disk t ! 462 = 0 \<and> disk t ! 700 = 0)"
proof -
  define opts where "opts = no_options\<lparr>device := True\<rparr>"
  have p: "parse_args ex_host [''disk.img''] no_options (program_start ex_disk None) = (Inr opts, tick (program_start ex_disk None))"
    by (simp add: opts_def no_options_def ex_host_def)
  have o: "device opts" "\<not> uninstall_mode opts" by (simp_all add: opts_def no_options_def)
  have l: "length ex_disk = 8192" "length ex_disk < 2 ^ 63" "length ex_image = 600" "ex_image ! 0 = 0x90"
    by (simp_all add: ex_disk_def ex_image_def)
  have a: "with_active ex_disk ! 446 = 0x80" "with_active ex_disk ! 462 = 0"
    using l(1) by (simp_all add: with_active_def has_active_def MBR_ENTRIES_def ex_disk_zero nth_put_at)
  obtain t where t: "bios_install ex_host ex_image [''disk.img''] (program_start ex_disk None) = Ok EXIT_SUCCESS t"
    "\<forall>i<length ex_disk. disk t ! i =
        (if 440 \<le> i \<and> i < 510 \<or> 218 \<le> i \<and> i < 224 then with_active ex_disk ! i
         else if 420 \<le> i \<and> i < 428 then word_bytes 8 (512 :: u64) ! (i - 420)
         else if i < length ex_image then ex_image ! i else ex_disk ! i)"
    using mbr_install_correct [OF ex_host_ok ex_image_ok ex_mbr_disk l(2) p o] by blast
  have "disk t ! 0 = 0x90" "disk t ! 446 = 0x80" "disk t ! 462 = 0" "disk t ! 700 = 0"
    using t(2) l a by (simp_all add: ex_disk_zero)
  then show ?thesis using t(1) ex_mbr_disk by blast
qed

text \<open>C15: installing and then running the program again with \<open>--uninstall\<close> and the data file of the first
  run gives back the original device, for every device and every successful installation.\<close>

theorem install_uninstall_roundtrip:
  assumes "host_ok h" and "image_ok img" and "length d < 2 ^ 63"
    and "parse_args h args no_options (program_start d f) = (Inr opts, s)" and "device opts" and "\<not> uninstall_mode opts"
    and "uninstall_file opts \<noteq> None" and "bios_install h img args (program_start d f) = Ok EXIT_SUCCESS t"
    and "host_ok h'" and "bigendian h' = bigendian h"
    and "parse_args h' args' no_options (program_start (disk t) (udfile t)) = (Inr opts', s')" and "device opts'"
    and "uninstall_mode opts'" and "uninstall_file opts' \<noteq> None"
  shows "\<exists>u. bios_install h' img' args' (program_start (disk t) (udfile t)) = Ok EXIT_SUCCESS u \<and> disk u = d"
proof -
  have big: "512 \<le> length d"
    using bios_install_small [OF assms(1) _ parse_args_device [OF assms(4,5)] assms(4,5), of img] assms(8)
    by (force simp: EXIT_SUCCESS_def EXIT_FAILURE_def not_le [symmetric])
  obtain s0 where o: "opened h (program_start d f) s0" and run: "bios_install h img args (program_start d f) = run_install h opts img s0"
    using bios_install_opened [OF assms(1) big assms(3) parse_args_device [OF assms(4,5)] assms(4,5), of img] assms(6) by auto
  obtain x where x: "good h d f x" "disk t = disk x" "udfile t = Some (encode_log (bigendian h) (rev (entries x)))"
    using run_install_result [OF assms(1,2) o trans [OF run [symmetric] assms(8)]] assms(7) by auto
  obtain s1 where o1: "opened h' (program_start (disk t) (udfile t)) s1"
    and run1: "bios_install h' img' args' (program_start (disk t) (udfile t)) = run_uninstall h' opts' s1"
    using bios_install_opened [OF assms(9) _ _ parse_args_device [OF assms(11,12)] assms(11,12), of img'] assms(3,13) big x(1,2)
    by (auto simp: good_def undoable_def agrees_def)
  show ?thesis unfolding run1 using run_uninstall_result [OF assms(9,10) o1 x assms(14)] by blast
qed

theorem install_uninstall_roundtrip_witness:
  "\<exists>t u. bios_install ex_host ex_image [''--uninstall-data-file=u'', ''disk.img''] (program_start ex_disk None) = Ok EXIT_SUCCESS t
    \<and> bios_install ex_host ex_image [''--uninstall'', ''--uninstall-data-file=u'', ''disk.img''] (program_start (disk t) (udfile t))
        = Ok EXIT_SUCCESS u \<and> disk u = ex_disk"
proof -
  define opts where "opts = no_options\<lparr>uninstall_file := Some ''u'', device := True\<rparr>"
  have p: "parse_args ex_host [''--uninstall-data-file=u'', ''disk.img''] no_options (program_start d f)
      = (Inr opts, tick (program_start d f))" for d f
    by (simp add: opts_def no_options_def ex_host_def)
  have p': "parse_args ex_host [''--uninstall'', ''--uninstall-data-file=u'', ''disk.img''] no_options (program_start d f)
      = (Inr (opts\<lparr>uninstall_mode := True\<rparr>), tick (program_start d f))" for d f
    by (simp add: opts_def no_options_def ex_host_def)
  have o: "device opts" "\<not> uninstall_mode opts" "uninstall_file opts \<noteq> None" by (simp_all add: opts_def no_options_def)
  have l: "length ex_disk < 2 ^ 63" by (simp add: ex_disk_def)
  obtain t where t: "bios_install ex_host ex_image [''--uninstall-data-file=u'', ''disk.img''] (program_start ex_disk None) = Ok EXIT_SUCCESS t"
    using mbr_install_run [OF ex_host_ok ex_image_ok ex_mbr_disk l p o(1,2)] by blast
  from install_uninstall_roundtrip [OF ex_host_ok ex_image_ok l p o t ex_host_ok refl p'] o t show ?thesis by auto
qed

section \<open>A damaged data file\<close>

text \<open>C40: \<open>load_uninstall_data\<close> does not reset the number of entries when it fails, and the cleanup of
  \<open>bios_install\<close> frees that many entries again: a data file that claims more than 256 entries, or whose first
  entry is cut off, makes \<open>--uninstall\<close> access entries outside the array or free a pointer twice.\<close>

theorem damaged_log_crashes:
  assumes "host_ok h" and "512 \<le> length d" and "length d < 2 ^ 63"
    and "parse_args h args no_options (program_start d (Some (native_store (bigendian h) 8 (n :: u64) @ bs))) = (Inr opts, s)"
    and "device opts" and "uninstall_mode opts" and "uninstall_file opts \<noteq> None"
    and "256 < unat n \<or> 0 < unat n \<and> (\<exists>loc count xs. bs = native_store (bigendian h) 8 (loc :: u64)
      @ native_store (bigendian h) 8 (count :: u64) @ xs \<and> length xs < unat count)"
  shows "bios_install h img args (program_start d (Some (native_store (bigendian h) 8 n @ bs))) = Crash"
proof -
  from bios_install_opened [OF assms(1-3) parse_args_device [OF assms(4,5)] assms(4,5), of img] assms(6)
  obtain s0 where o: "opened h (program_start d (Some (native_store (bigendian h) 8 n @ bs))) s0"
    and run: "bios_install h img args (program_start d (Some (native_store (bigendian h) 8 n @ bs))) = run_uninstall h opts s0" by auto
  define s1 where "s1 = s0\<lparr>calls := Suc (Suc (calls s0)), uninstall_data_i := n\<rparr>"
  have len: "length (uninstall_data s1) = 256" using o by (simp add: opened_def s1_def UNINSTALL_DATA_MAX_def)
  have f: "udfile s0 = Some (native_store (bigendian h) 8 n @ bs)" using o by (simp add: opened_def)
  have ld: "load_uninstall_data h s0 = (if unat n > UNINSTALL_DATA_MAX then Fail s1 else load_entries h [0..<unat n] bs s1)"
    using assms(1) f by (simp add: load_uninstall_data_def call_def host_ok_def fread_ud_append native_load_store tick_def s1_def Let_def)
  have fin: "run_uninstall h opts s0 = (case load_uninstall_data h s0 of Crash \<Rightarrow> Crash | Fail s \<Rightarrow> finish EXIT_FAILURE s
      | Ok _ s \<Rightarrow> run_bind (uninstall h s) (\<lambda>ok. finish (if ok then EXIT_SUCCESS else EXIT_FAILURE)))"
    using assms(7) by (auto simp: run_uninstall_def)
  show ?thesis
  proof (cases "256 < unat n")
    case True
    have "free_uninstall_data s1 = Crash"
      unfolding free_uninstall_data_def using True len by (intro free_entries_Crash [of 256]) (auto simp: s1_def)
    then show ?thesis using run fin ld True by (simp add: finish_def UNINSTALL_DATA_MAX_def)
  next
    case False
    with assms(8) obtain loc count :: u64 and xs where bs: "bs = native_store (bigendian h) 8 loc @ native_store (bigendian h) 8 count @ xs"
      "length xs < unat count" and n: "0 < unat n" by blast
    have "0 < length (uninstall_data s1)" using len by simp
    then obtain u where u: "load_entries h [0..<unat n] bs s1 = Fail u" "uninstall_data_i u = n" "ud_data (uninstall_data u ! 0) = Freed"
      using load_cut_off [OF assms(1) bs(2) n, of s1 loc] by (auto simp: bs(1) s1_def)
    have "free_uninstall_data u = Crash"
      unfolding free_uninstall_data_def u(2) using n u(3) by (intro free_entries_Crash [of 0]) auto
    then show ?thesis using run fin ld u(1) False by (simp add: finish_def UNINSTALL_DATA_MAX_def)
  qed
qed

theorem damaged_log_crashes_witness:
  "bios_install ex_host ex_image [''--uninstall'', ''--uninstall-data-file=u'', ''disk.img'']
    (program_start ex_disk (Some (native_store False 8 (257 :: u64) @ []))) = Crash"
proof -
  define opts where "opts = no_options\<lparr>uninstall_mode := True, uninstall_file := Some ''u'', device := True\<rparr>"
  have p: "parse_args ex_host [''--uninstall'', ''--uninstall-data-file=u'', ''disk.img''] no_options (program_start d f)
      = (Inr opts, tick (program_start d f))" for d f
    by (simp add: opts_def no_options_def ex_host_def)
  have o: "device opts" "uninstall_mode opts" "uninstall_file opts \<noteq> None" by (simp_all add: opts_def no_options_def)
  have l: "512 \<le> length ex_disk" "length ex_disk < 2 ^ 63" by (simp_all add: ex_disk_def)
  have be: "bigendian ex_host = False" by (simp add: ex_host_def)
  have n: "256 < unat (257 :: u64)" by simp
  show ?thesis
    using damaged_log_crashes [OF ex_host_ok l p o disjI1 [OF n], where bs = "[]" and img = ex_image] unfolding be .
qed

section \<open>Cylinder, head and sector\<close>

text \<open>\<open>lba2chs\<close> gives a valid address (head below 255, sector from 1 to 63, ten bits of cylinder) from which
  the block number is read back, for every block number that such an address can express, and the
  conventional largest address for all others.\<close>

theorem lba2chs_correct:
  "if unat lba < 63 * 255 * 1024
   then chs2lba (lba2chs lba) = unat lba \<and> (\<exists>h sc c. lba2chs lba = [h, sc, c] \<and> unat h < 255 \<and> sc AND 0x3F \<noteq> 0)
   else lba2chs lba = [0xFE, 0xFF, 0xFF]"
  using lba2chs_small lba2chs_large by (simp add: not_less)

section \<open>Enrolling a checksum\<close>



text \<open>
  So an executable that ends right behind its checksum, which is as long as the program asks for, is
  refused: the loop ends before the last byte of the signature.
\<close>

lemma enroll_refuses_minimal:
  assumes "\<forall>n. call_ok h n" and "enroll_args argv 1 False = Inr (argv', reset)" and "length bs = 128"
  shows "fst (enroll_config h argv (CONFIG_B2SUM_SIGNATURE @ bs) n) = EXIT_FAILURE"
proof -
  have "find_signature CONFIG_B2SUM_SIGNATURE (CONFIG_B2SUM_SIGNATURE @ bs) 1 0 0 = None"
    using find_signature_first [of 1 "CONFIG_B2SUM_SIGNATURE @ bs" CONFIG_B2SUM_SIGNATURE] assms(3)
    by (simp add: first_signature_None length_signature)
  then show ?thesis using assms by (simp add: enroll_config_def min_size_def)
qed

end
