(* ===== verification/Limine_Gpt.thy ===== *)
theory Limine_Gpt
  imports Limine_Mbr
begin

text \<open>
  The exact course of an installation on a device with a GUID partition table, when it is kept: the
  table is found through its header, the BIOS boot partition is the first of its type or the one the
  user chose, and the boot code goes to the boot sector and to the start of that partition.
\<close>

section \<open>The table on the device\<close>

text \<open>The fields of header and entries as numbers, read from the bytes of the device.\<close>

definition le32 :: "u8 list \<Rightarrow> nat \<Rightarrow> nat" where
  "le32 d p = unat (bytes_word (bytes_at d p 4) :: u32)"

definition le64 :: "u8 list \<Rightarrow> nat \<Rightarrow> nat" where
  "le64 d p = unat (bytes_word (bytes_at d p 8) :: u64)"

definition alternate_of :: "u8 list \<Rightarrow> nat \<Rightarrow> nat" where
  "alternate_of d lb = le64 d (lb + 32)"

definition entries_of :: "u8 list \<Rightarrow> nat \<Rightarrow> nat" where
  "entries_of d lb = le32 d (lb + 80)"

definition entry_pos :: "u8 list \<Rightarrow> nat \<Rightarrow> nat \<Rightarrow> nat" where
  "entry_pos d lb k = le64 d (lb + 72) * lb + k * le32 d (lb + 84)"

definition gpt_disk :: "u8 list \<Rightarrow> nat \<Rightarrow> bool" where
  "gpt_disk d lb \<longleftrightarrow> (lb = 512 \<or> lb = 4096 \<and> bytes_at d 512 8 \<noteq> ascii ''EFI PART'')
     \<and> on_device d (lb + 96) \<and> bytes_at d lb 8 = ascii ''EFI PART''
     \<and> on_device d (alternate_of d lb * lb + 96) \<and> bytes_at d (alternate_of d lb * lb) 8 = ascii ''EFI PART''"

definition first_lba :: "u8 list \<Rightarrow> nat \<Rightarrow> nat \<Rightarrow> nat" where
  "first_lba d lb k = le64 d (entry_pos d lb k + 32)"

definition last_lba :: "u8 list \<Rightarrow> nat \<Rightarrow> nat \<Rightarrow> nat" where
  "last_lba d lb k = le64 d (entry_pos d lb k + 40)"

text \<open>The partition the boot code goes to: the first BIOS boot partition, or the entry of the given number.\<close>

definition boot_type :: "u8 list \<Rightarrow> nat \<Rightarrow> nat \<Rightarrow> bool" where
  "boot_type d lb k \<longleftrightarrow> bytes_at d (entry_pos d lb k) 16 = BIOS_BOOT_GUID"

definition selected :: "options \<Rightarrow> u8 list \<Rightarrow> nat \<Rightarrow> nat \<Rightarrow> bool" where
  "selected opts d lb k \<longleftrightarrow> k < entries_of d lb \<and> on_device d (entry_pos d lb k + 128) \<and>
     (case part_ndx opts of
        None \<Rightarrow> boot_type d lb k \<and> (\<forall>j<k. \<not> boot_type d lb j)
      | Some str \<Rightarrow> sscanf_u32 str = Some (of_nat (Suc k)) \<and> bytes_at d (entry_pos d lb k + 16) 16 \<noteq> replicate 16 0
          \<and> (force opts \<or> boot_type d lb k))"

text \<open>A partition with room for the second stage, without a file system and inside the device.\<close>

definition room :: "u8 list \<Rightarrow> nat \<Rightarrow> nat \<Rightarrow> bool" where
  "room d lb k \<longleftrightarrow> 0 < first_lba d lb k \<and> first_lba d lb k * lb + 32768 \<le> Suc (last_lba d lb k) * lb
     \<and> on_device d (Suc (last_lba d lb k) * lb) \<and> no_file_system d (first_lba d lb k * lb)"

definition table_kept :: "options \<Rightarrow> u8 list \<Rightarrow> bool" where
  "table_kept opts d \<longleftrightarrow> \<not> gpt2mbr_allowed opts \<or> bytes_at d 32769 5 \<noteq> ascii ''CD001''"

section \<open>Fields read by the program\<close>

lemma header_signature: "signature (gpt_header_of be (bytes_at d p 96)) = bytes_at d p 8"
  by (simp add: gpt_header_of_def bytes_at_bytes_at)

lemma header_fields:
  assumes "p + 96 \<le> length d"
  shows "unat (ENDSWAP64 be (alternate_lba (gpt_header_of be (bytes_at d p 96)))) = alternate_of d p"
    and "unat (ENDSWAP64 be (partition_entry_lba (gpt_header_of be (bytes_at d p 96)))) = le64 d (p + 72)"
    and "unat (ENDSWAP32 be (number_of_partition_entries (gpt_header_of be (bytes_at d p 96)))) = entries_of d p"
    and "unat (ENDSWAP32 be (size_of_partition_entry (gpt_header_of be (bytes_at d p 96)))) = le32 d (p + 84)"
  using assms
  by (simp_all add: gpt_header_of_def field64_def field32_def bytes_at_bytes_at alternate_of_def entries_of_def le64_def le32_def)

lemma take_bytes_at: "n \<le> m \<Longrightarrow> take n (bytes_at d p m) = bytes_at d p n"
  by (simp add: bytes_at_def min_absorb1)

lemma gpt_entry_of_sel:
  "partition_type_guid (gpt_entry_of be bs) = (field64 be bs 0, field64 be bs 8)"
  "unique_partition_guid (gpt_entry_of be bs) = (field64 be bs 16, field64 be bs 24)"
  "starting_lba (gpt_entry_of be bs) = field64 be bs 32" "ending_lba (gpt_entry_of be bs) = field64 be bs 40"
  by (simp_all only: gpt_entry_of_def gpt_entry.simps)

lemma entry_fields:
  assumes "p + 128 \<le> length d"
  shows "unat (ENDSWAP64 be (starting_lba (gpt_entry_of be (bytes_at d p 128)))) = le64 d (p + 32)"
    and "unat (ENDSWAP64 be (ending_lba (gpt_entry_of be (bytes_at d p 128)))) = le64 d (p + 40)"
    and "take 16 (bytes_at d p 128) = bytes_at d p 16"
  using assms by (simp_all add: gpt_entry_of_sel field64_def bytes_at_bytes_at le64_def take_bytes_at)

lemma bytes_word_0_iff:
  "8 * length bs \<le> LENGTH('a) \<Longrightarrow> (bytes_word bs :: 'a::len word) = 0 \<longleftrightarrow> bs = replicate (length bs) 0"
proof
  assume "8 * length bs \<le> LENGTH('a)" and "(bytes_word bs :: 'a word) = 0"
  then have "word_bytes (length bs) (0 :: 'a word) = bs" using word_bytes_bytes_word by metis
  moreover have "word_bytes n (0 :: 'a word) = replicate n 0" for n by (simp add: word_bytes_def list_eq_iff_nth_eq)
  ultimately show "bs = replicate (length bs) 0" by metis
next
  assume "bs = replicate (length bs) 0"
  moreover have "(bytes_word (replicate n 0) :: 'a word) = 0" for n by (induction n) simp_all
  ultimately show "(bytes_word bs :: 'a word) = 0" by metis
qed

lemma unused_entry:
  assumes "p + 128 \<le> length d"
  shows "unique_partition_guid (gpt_entry_of be (bytes_at d p 128)) = (0, 0) \<longleftrightarrow> bytes_at d (p + 16) 16 = replicate 16 0"
proof -
  have ld: "(native_load be bs :: u64) = 0 \<longleftrightarrow> bs = replicate 8 0" if "length bs = 8" for bs
    using that bytes_word_0_iff [of bs, where 'a = 64] bytes_word_0_iff [of "rev bs", where 'a = 64]
    by (auto simp: native_load_def) (metis rev_replicate rev_rev_ident)+
  have "bytes_at d (p + 16) 16 = bytes_at d (p + 16) 8 @ bytes_at d (p + 24) 8"
    using bytes_at_append [of "p + 16" 8 8 d] assms by (simp add: add.assoc)
  moreover have "replicate 16 (0 :: u8) = replicate 8 0 @ replicate 8 0" by (simp flip: replicate_add)
  ultimately show ?thesis
    using assms by (simp add: gpt_entry_of_sel field64_def bytes_at_bytes_at ld)
qed

section \<open>Finding the table\<close>

definition header_of :: "host \<Rightarrow> u8 list \<Rightarrow> nat \<Rightarrow> gpt_table_header" where
  "header_of h d lb = gpt_header_of (bigendian h) (bytes_at d lb 96)"

lemma gpt_disk_lb: "gpt_disk d lb \<Longrightarrow> lb = 512 \<or> lb = 4096"
  by (auto simp: gpt_disk_def)

lemma gpt_disk_length: "gpt_disk d lb \<Longrightarrow> lb + 96 \<le> length d"
  by (auto simp: gpt_disk_def dest: on_device_le)

lemmas gpt_fields = header_fields [OF gpt_disk_length, where be = "bigendian (h :: host)" for h, folded header_of_def]

lemma find_gpt_finds:
  assumes "state_is h d n s" and "gpt_disk d lb"
  shows "ends h d n (Some (of_nat lb, header_of h d lb)) (find_gpt h s)"
proof -
  have probed: "ends h d n (Some (of_nat lb, header_of h d lb)) (probe_gpt h [512, 4096] s)"
  proof (cases "lb = 512")
    case True
    have od: "on_device d (512 + 96)" using assms(2) unfolding gpt_disk_def True by blast
    show ?thesis
      using assms unfolding probe_gpt.simps Let_def
      by (intro ends_read_bind) (auto simp: True header_of_def gpt_disk_def header_signature on_device_le [OF od] od intro: ends_Ok)
  next
    case False
    then have lb: "lb = 4096" using gpt_disk_lb [OF assms(2)] by simp
    have od: "on_device d 4192" "on_device d 608"
      using assms(2) on_device_mono [of d 4192 608] unfolding gpt_disk_def lb by auto
    show ?thesis
      using assms unfolding probe_gpt.simps Let_def
      by (intro ends_read_bind)
        (auto simp: lb header_of_def gpt_disk_def header_signature on_device_le [OF od(1)] on_device_le [OF od(2)] od
          intro!: ends_Ok ends_read_bind)
  qed
  have alt: "on_device d (alternate_of d lb * lb + 96)" "bytes_at d (alternate_of d lb * lb) 8 = ascii ''EFI PART''"
    using assms(2) by (auto simp: gpt_disk_def)
  have small: "alternate_of d lb * lb < 2 ^ 63" using on_device_le [OF alt(1)] state_is_small [OF assms(1)] by linarith
  have u: "unat (of_nat lb * ENDSWAP64 (bigendian h) (alternate_lba (header_of h d lb)) :: u64) = alternate_of d lb * lb"
    using small gpt_disk_lb [OF assms(2)] gpt_fields(1) [OF assms(2), of h] by (auto simp: kunat mult.commute)
  have second: "ends h d n () (check_secondary h (of_nat lb) (header_of h d lb) t)" if "state_is h d n t" for t
    unfolding check_secondary_def using that alt
    by (intro ends_read_bind) (auto simp: u header_signature on_device_le intro: ends_Ok)
  show ?thesis
    unfolding find_gpt_def by (rule ends_bind [OF probed]) (auto intro!: ends_bind [OF second] ends_Ok)
qed

section \<open>Choosing the partition\<close>

lemma unat_ucast_u32: "unat (ucast (k :: u32) :: u64) = unat k"
  using order_less_trans [OF unat_u32_less, of 18446744073709551616 k] by (simp add: unsigned_ucast_eq take_bit_eq_mod)

lemma entry_offset:
  assumes "state_is h d n s" and "gpt_disk d lb" and "on_device d (entry_pos d lb (unat i) + 128)" and "unat base = le64 d (lb + 72) * lb"
  defines "off \<equiv> add_u64_overflow base (i * ucast (ENDSWAP32 (bigendian h) (size_of_partition_entry (header_of h d lb))))"
  shows "\<not> fst off" and "ends h d n (bytes_at d (entry_pos d lb (unat i)) 128) (device_read h (snd off) 128 s)"
proof -
  define e where "e = i * ucast (ENDSWAP32 (bigendian h) (size_of_partition_entry (header_of h d lb)))"
  have "unat i * le32 d (lb + 84) < 18446744073709551616"
    using on_device_le [OF assms(3)] state_is_small [OF assms(1)] by (simp add: entry_pos_def)
  then have "unat e = unat i * le32 d (lb + 84)"
    using gpt_fields(4) [OF assms(2), of h] by (simp add: e_def kunat unat_ucast_u32)
  then have pos: "unat base + unat e = entry_pos d lb (unat i)" by (simp add: assms(4) entry_pos_def)
  have off: "off = add_u64_overflow base e" by (simp add: off_def e_def)
  show no: "\<not> fst off"
    unfolding off add_u64_overflow_iff using on_device_le [OF assms(3)] state_is_small [OF assms(1)] pos by simp
  have "unat (snd off) = entry_pos d lb (unat i)" using add_u64_exact no pos unfolding off by simp
  then show "ends h d n (bytes_at d (entry_pos d lb (unat i)) 128) (device_read h (snd off) 128 s)"
    using ends_read [OF assms(1), of "snd off" 128] assms(3) by simp
qed

lemma entry_at_reads:
  assumes "state_is h d n s" and "gpt_disk d lb" and "on_device d (entry_pos d lb (unat k) + 128)"
    and "unat base = le64 d (lb + 72) * lb"
  shows "ends h d n (bytes_at d (entry_pos d lb (unat k)) 128) (entry_at h (header_of h d lb) base k s)"
  using entry_offset [OF assms(1,2) _ assms(4), of "ucast k"] assms(3)
  by (auto simp: entry_at_def case_prod_beta unat_ucast_u32)

lemma entry_pos_mono: "j \<le> k \<Longrightarrow> entry_pos d lb j \<le> entry_pos d lb k"
  by (simp add: entry_pos_def)

lemma detect_finds:
  assumes "gpt_disk d lb" and "unat base = le64 d (lb + 72) * lb" and "on_device d (entry_pos d lb k + 128)" and "k < 4294967295"
    and "boot_type d lb k" and "\<forall>j<k. \<not> boot_type d lb j"
  shows "state_is h d n s \<Longrightarrow> unat m + j = k \<Longrightarrow>
    ends h d n (bytes_at d (entry_pos d lb k) 128) (detect_entry h (header_of h d lb) base (Suc j + rest) m s)"
proof (induction j arbitrary: m s)
  case 0
  then have k: "unat m = k" by simp
  have "take 16 (bytes_at d (entry_pos d lb k) 128) = BIOS_BOOT_GUID"
    using assms(5) entry_fields(3) [OF on_device_le [OF assms(3)]] by (simp add: boot_type_def)
  then show ?case
    using entry_at_reads [OF 0(1) assms(1) _ assms(2), of m] assms(3) unfolding k
    by (auto intro!: ends_bind ends_Ok)
next
  case (Suc j)
  have m: "unat m < k" using Suc.prems(2) by simp
  then have od: "on_device d (entry_pos d lb (unat m) + 128)"
    using on_device_mono [OF assms(3)] entry_pos_mono [of "unat m" k d lb] by simp
  have ne: "take 16 (bytes_at d (entry_pos d lb (unat m)) 128) \<noteq> BIOS_BOOT_GUID"
    using assms(6) m entry_fields(3) [OF on_device_le [OF od]] by (simp add: boot_type_def)
  have "unat (m + 1) + j = k" using Suc.prems(2) assms(4) by (simp add: unat_word_ariths)
  note IH = Suc.IH [OF _ this]
  show ?case
    unfolding add_Suc detect_entry.simps
    by (rule ends_bind [OF entry_at_reads [OF Suc.prems(1) assms(1) od assms(2)]]) (use ne IH in auto)
qed

lemma chosen_found:
  assumes "gpt_disk d lb" and "unat base = le64 d (lb + 72) * lb" and "on_device d (entry_pos d lb k + 128)" and "k < entries_of d lb"
    and "sscanf_u32 str = Some (of_nat (Suc k))" and "bytes_at d (entry_pos d lb k + 16) 16 \<noteq> replicate 16 0"
    and "fo \<or> boot_type d lb k" and "state_is h d n s"
  shows "ends h d n (bytes_at d (entry_pos d lb k) 128) (chosen_entry h fo (header_of h d lb) base str s)"
proof -
  note len = on_device_le [OF assms(3)]
  have "k < 4294967296" using assms(4) unat_u32_less order_less_trans unfolding entries_of_def le32_def by blast
  then have k: "unat (of_nat k :: u32) = k" by (simp add: unat_of_nat)
  have few: "\<not> of_nat k \<ge> ENDSWAP32 (bigendian h) (number_of_partition_entries (header_of h d lb))"
    using assms(4) gpt_fields(3) [OF assms(1), of h] by (simp add: word_le_nat_alt k)
  have rd: "ends h d n (bytes_at d (entry_pos d lb k) 128) (entry_at h (header_of h d lb) base (of_nat k) s)"
    using entry_at_reads [OF assms(8,1) _ assms(2), of "of_nat k"] assms(3) by (simp add: k)
  show ?thesis
    using assms(5,7) few unused_entry [OF len] assms(6) entry_fields(3) [OF len]
    by (auto simp: chosen_entry_def Let_def boot_type_def intro!: ends_bind [OF rd] ends_Ok)
qed

lemma stage2_found:
  assumes "state_is h d n s" and "gpt_disk d lb" and "selected opts d lb k" and "room d lb k"
  shows "ends h d n (of_nat (first_lba d lb k * lb)) (gpt_stage2 h (force opts) (part_ndx opts) (of_nat lb) (header_of h d lb) s)"
proof -
  have lb: "unat (of_nat lb :: u64) = lb" using gpt_disk_lb [OF assms(2)] by auto
  note small = state_is_small [OF assms(1)]
  have sel: "k < entries_of d lb" "on_device d (entry_pos d lb k + 128)" using assms(3) by (simp_all add: selected_def)
  note len = on_device_le [OF sel(2)]
  define base where "base = mul_u64_overflow (ENDSWAP64 (bigendian h) (partition_entry_lba (header_of h d lb))) (of_nat lb)"
  have "le64 d (lb + 72) * lb < 2 ^ 63" using len small by (simp add: entry_pos_def)
  then have no: "\<not> fst base" unfolding base_def mul_u64_overflow_iff lb gpt_fields(2) [OF assms(2)] by simp
  have base: "unat (snd base) = le64 d (lb + 72) * lb"
    using mul_u64_exact no unfolding base_def by (simp add: lb gpt_fields(2) [OF assms(2)])
  have entry: "ends h d n (bytes_at d (entry_pos d lb k) 128)
      (case part_ndx opts of Some str \<Rightarrow> chosen_entry h (force opts) (header_of h d lb) (snd base) str s
       | None \<Rightarrow> detect_entry h (header_of h d lb) (snd base)
          (unat (ENDSWAP32 (bigendian h) (number_of_partition_entries (header_of h d lb)))) 0 s)"
  proof (cases "part_ndx opts")
    case None
    then have b: "boot_type d lb k" "\<forall>j<k. \<not> boot_type d lb j" using assms(3) by (simp_all add: selected_def)
    have "entries_of d lb < 4294967296" unfolding entries_of_def le32_def by (rule unat_u32_less)
    then have "k < 4294967295" using sel(1) by linarith
    from detect_finds [OF assms(2) base sel(2) this b assms(1), of 0 k "entries_of d lb - Suc k"] sel(1) None
    show ?thesis by (simp add: gpt_fields(3) [OF assms(2)])
  next
    case (Some str)
    then show ?thesis
      using chosen_found [OF assms(2) base sel(2,1) _ _ _ assms(1)] assms(3) by (simp add: selected_def)
  qed
  define e where "e = gpt_entry_of (bigendian h) (bytes_at d (entry_pos d lb k) 128)"
  define start last where "start = ENDSWAP64 (bigendian h) (starting_lba e)" and "last = ENDSWAP64 (bigendian h) (ending_lba e)"
  have u: "unat start = first_lba d lb k" "unat last = last_lba d lb k"
    using entry_fields [OF len] by (simp_all add: start_def last_def e_def first_lba_def last_lba_def)
  have r: "0 < first_lba d lb k" "first_lba d lb k * lb + 32768 \<le> Suc (last_lba d lb k) * lb"
    "on_device d (Suc (last_lba d lb k) * lb)" "no_file_system d (first_lba d lb k * lb)" using assms(4) by (simp_all add: room_def)
  note end_small = on_device_le [OF r(3)]
  have "first_lba d lb k * lb < Suc (last_lba d lb k) * lb" using r(2) by linarith
  then have "first_lba d lb k \<le> last_lba d lb k" using mult_less_cancel2 less_Suc_eq_le by blast
  moreover have "Suc (last_lba d lb k) \<le> Suc (last_lba d lb k) * lb" using gpt_disk_lb [OF assms(2)] by auto
  note order_le_less_trans [OF order_trans [OF this end_small] small]
  ultimately have order: "\<not> last < start" and count: "unat (last - start + 1) = Suc (last_lba d lb k) - first_lba d lb k"
    using u by (simp_all add: word_less_nat_alt kunat)
  have size: "(Suc (last_lba d lb k) - first_lba d lb k) * lb = Suc (last_lba d lb k) * lb - first_lba d lb k * lb"
    by (rule diff_mult_distrib)
  define sz where "sz = mul_u64_overflow (last - start + 1) (of_nat lb)"
  define loc where "loc = mul_u64_overflow start (of_nat lb)"
  have e63: "Suc (last_lba d lb k) * lb < 9223372036854775808" using order_le_less_trans [OF end_small small] by simp
  have sz: "\<not> fst sz" unfolding sz_def mul_u64_overflow_iff count lb size not_le
    by (rule order_le_less_trans [OF diff_le_self order_less_trans [OF e63]]) simp
  have big: "\<not> snd sz < 32768"
    using mul_u64_exact sz r(2) size unfolding sz_def by (simp add: word_less_nat_alt count lb)
  have loc: "\<not> fst loc" unfolding loc_def mul_u64_overflow_iff u lb using r(2) e63 by linarith
  then have uloc: "unat (snd loc) = first_lba d lb k * lb" using mul_u64_exact unfolding loc_def by (simp add: u lb)
  have "of_nat (unat (snd loc)) = snd loc" by simp
  then have at: "of_nat (first_lba d lb k * lb) = snd loc" unfolding uloc .
  have "on_device d (unat (snd loc) + 1082)" unfolding uloc by (rule on_device_mono [OF r(3)]) (use r(2) in linarith)
  with validate_valid [of h d n _ "snd loc" "force opts"] r(4) small uloc
  have ok: "ends h d n (snd loc) (run_bind (validate_or_force h (snd loc) (force opts) t) (\<lambda>valid s. if \<not> valid then Fail s else Ok (snd loc) s))"
    if "state_is h d n t" for t using that by (auto intro!: ends_bind ends_Ok)
  have tail: "ends h d n (snd loc)
      (if last < start then Fail t else case sz of (overflow, part_size) \<Rightarrow>
        if overflow then Fail t else if part_size < 32768 then Fail t
        else case loc of (overflow, stage2_loc) \<Rightarrow> if overflow then Fail t
          else run_bind (validate_or_force h stage2_loc (force opts) t) (\<lambda>valid s. if \<not> valid then Fail s else Ok stage2_loc s))"
    if "state_is h d n t" for t
    using order sz big loc ok [OF that] by (simp add: case_prod_beta)
  show ?thesis
    unfolding gpt_stage2_def base_def [symmetric] at
    by (simp only: case_prod_beta Let_def no if_False, rule ends_bind [OF entry])
      (use tail [unfolded sz_def loc_def start_def last_def e_def case_prod_beta] in \<open>simp only: loc_def start_def e_def\<close>)
qed

section \<open>The installation\<close>

lemma room_end:
  assumes "room d lb k" and "length img \<le> 33280"
  shows "first_lba d lb k * lb + (length img - 512) \<le> Suc (last_lba d lb k) * lb"
  using assms unfolding room_def by linarith

lemma room_start: "gpt_disk d lb \<Longrightarrow> room d lb k \<Longrightarrow> 512 \<le> first_lba d lb k * lb"
  by (auto simp: room_def dest: gpt_disk_lb)

lemma unat_of_place: "state_is h d n s \<Longrightarrow> on_device d p \<Longrightarrow> unat (of_nat p :: u64) = p"
  using on_device_le [of d p] state_is_small [of h d n s] by (intro unat_of_nat_u64) simp

lemma install_gpt:
  assumes "state_is h d 0 s" and "gpt_disk d lb" and "selected opts d lb k" and "room d lb k" and "table_kept opts d"
    and "image_ok img" and "length img \<le> 33280"
  shows "\<exists>t. install h opts img s = Ok () t \<and> device_inv h t \<and> disk t = boot_code img (of_nat (first_lba d lb k * lb)) d"
proof -
  have last: "on_device d (Suc (last_lba d lb k) * lb)" using assms(4) by (simp add: room_def)
  have "33280 \<le> Suc (last_lba d lb k) * lb" using assms(4) room_start [OF assms(2,4)] by (simp add: room_def)
  then have od: "on_device d p" if "p \<le> 33280" for p using on_device_mono [OF last] that by simp
  obtain s1 where s1: "find_gpt h s = Ok (Some (of_nat lb, header_of h d lb)) s1" "state_is h d 0 s1"
    using find_gpt_finds [OF assms(1,2)] by (auto simp: ends_def)
  have "ends h d 0 True (if gpt2mbr_allowed opts then convert_isohybrid h (of_nat lb) (header_of h d lb) s1 else Ok True s1)"
    unfolding convert_isohybrid_def using s1(2) assms(5) od
    by (intro ends_if ends_read_bind ends_Ok) (auto simp: table_kept_def intro: ends_Ok)
  then obtain s2 where s2: "(if gpt2mbr_allowed opts then convert_isohybrid h (of_nat lb) (header_of h d lb) s1 else Ok True s1) = Ok True s2"
    "state_is h d 0 s2" by (auto simp: ends_def)
  obtain s3 where s3: "gpt_stage2 h (force opts) (part_ndx opts) (of_nat lb) (header_of h d lb) s2 = Ok (of_nat (first_lba d lb k * lb)) s3"
    "state_is h d 0 s3" using stage2_found [OF s2(2) assms(2-4)] by (auto simp: ends_def)
  note fits = on_device_mono [OF last room_end [OF assms(4,7)]]
  have "unat (of_nat (first_lba d lb k * lb) :: u64) = first_lba d lb k * lb"
    by (rule unat_of_place [OF assms(1) on_device_mono [OF fits]]) simp
  with write_boot_code_ends [OF s3(2) assms(6), of "of_nat (first_lba d lb k * lb)"] fits od
  obtain t where "write_boot_code h img (of_nat (first_lba d lb k * lb)) s3 = Ok () t" "device_inv h t"
    "disk t = boot_code img (of_nat (first_lba d lb k * lb)) d" by auto
  then show ?thesis using s1(1) s2(1) s3(1) by (simp add: install_def)
qed

lemma nth_boot_code_at:
  assumes "image_ok img" and "512 \<le> unat loc" and "unat loc + (length img - 512) \<le> length v" and "i < length v"
  shows "boot_code img loc v ! i =
    (if 440 \<le> i \<and> i < 510 \<or> 218 \<le> i \<and> i < 224 then v ! i
     else if 420 \<le> i \<and> i < 428 then word_bytes 8 loc ! (i - 420)
     else if i < 512 then img ! i
     else if unat loc \<le> i \<and> i < unat loc + (length img - 512) then img ! (512 + (i - unat loc)) else v ! i)"
  using assms unfolding boot_code_def by (auto simp: nth_put_at nth_bytes_at image_ok_def)

end
