(* ===== verification/Limine_Iso.thy ===== *)
theory Limine_Iso
  imports Limine_Gpt
begin

text \<open>
  The exact course of an installation on an ISO image with a GUID partition table: the table is
  converted to an MBR with one entry for each partition, and the installation goes on as on a device
  with an MBR.
\<close>

section \<open>The partitions to convert\<close>

definition used :: "u8 list \<Rightarrow> nat \<Rightarrow> nat \<Rightarrow> bool" where
  "used d lb k \<longleftrightarrow> bytes_at d (entry_pos d lb k + 16) 16 \<noteq> replicate 16 0"

definition used_entries :: "u8 list \<Rightarrow> nat \<Rightarrow> nat list" where
  "used_entries d lb = filter (used d lb) [0..<entries_of d lb]"

definition entry_type :: "u8 list \<Rightarrow> nat \<Rightarrow> nat \<Rightarrow> int" where
  "entry_type d lb k = gpt2mbr_type (bytes_word (bytes_at d (entry_pos d lb k) 8)) (bytes_word (bytes_at d (entry_pos d lb k + 8) 8))"

definition convertible :: "u8 list \<Rightarrow> nat \<Rightarrow> nat \<Rightarrow> bool" where
  "convertible d lb k \<longleftrightarrow> 63 \<le> first_lba d lb k \<and> first_lba d lb k \<le> last_lba d lb k \<and> last_lba d lb k \<le> 0xFFFFFFFF
     \<and> entry_type d lb k \<noteq> - 1"

definition part_of :: "u8 list \<Rightarrow> nat \<Rightarrow> nat \<Rightarrow> part_to_conv" where
  "part_of d lb k = \<lparr>lba_start = of_nat (first_lba d lb k), lba_end = of_nat (last_lba d lb k),
     chs_start = lba2chs (of_nat (first_lba d lb k)), chs_end = lba2chs (of_nat (last_lba d lb k)), ptype = of_int (entry_type d lb k)\<rparr>"

text \<open>An entry of the MBR, without its active flag.\<close>

definition mbr_slot :: "u8 list \<Rightarrow> nat \<Rightarrow> nat \<Rightarrow> u8 list" where
  "mbr_slot d lb k = lba2chs (of_nat (first_lba d lb k)) @ [of_int (entry_type d lb k)] @ lba2chs (of_nat (last_lba d lb k))
     @ word_bytes 4 (of_nat (first_lba d lb k) :: u32) @ word_bytes 4 (of_nat (Suc (last_lba d lb k) - first_lba d lb k) :: u32)"

definition iso_disk :: "u8 list \<Rightarrow> nat \<Rightarrow> bool" where
  "iso_disk d lb \<longleftrightarrow> gpt_disk d lb \<and> bytes_at d 32769 5 = ascii ''CD001'' \<and> on_device d (34 * lb) \<and> on_device d 32774
     \<and> 32 \<le> alternate_of d lb \<and> on_device d (Suc (alternate_of d lb) * lb)
     \<and> on_device d (entry_pos d lb (entries_of d lb) + 128)
     \<and> length (used_entries d lb) \<le> 4 \<and> list_all (convertible d lb) (used_entries d lb)"

lemma lba_bounds: "first_lba d lb k < 18446744073709551616" "last_lba d lb k < 18446744073709551616"
  by (simp_all add: first_lba_def last_lba_def le64_def)

lemma convert_entry_part:
  assumes "entry_pos d lb k + 128 \<le> length d" and "convertible d lb k"
    and "last_lba d lb k - first_lba d lb k < 0xFFFFFFFF"
  shows "convert_entry be (gpt_entry_of be (bytes_at d (entry_pos d lb k) 128)) = Some (part_of d lb k)"
proof -
  define e where "e = gpt_entry_of be (bytes_at d (entry_pos d lb k) 128)"
  have u: "unat (ENDSWAP64 be (starting_lba e)) = first_lba d lb k" "unat (ENDSWAP64 be (ending_lba e)) = last_lba d lb k"
    using entry_fields [OF assms(1)] by (simp_all add: e_def first_lba_def last_lba_def)
  have w: "ENDSWAP64 be (starting_lba e) = of_nat (first_lba d lb k)" "ENDSWAP64 be (ending_lba e) = of_nat (last_lba d lb k)"
    unfolding u [symmetric] by simp_all
  have guid: "ENDSWAP64 be (fst (partition_type_guid e)) = bytes_word (bytes_at d (entry_pos d lb k) 8)"
    "ENDSWAP64 be (snd (partition_type_guid e)) = bytes_word (bytes_at d (entry_pos d lb k + 8) 8)"
    using assms(1) by (simp_all add: e_def gpt_entry_of_sel field64_def bytes_at_bytes_at)
  have c: "63 \<le> first_lba d lb k" "first_lba d lb k \<le> last_lba d lb k" "last_lba d lb k \<le> 0xFFFFFFFF" "entry_type d lb k \<noteq> - 1"
    using assms(2) by (simp_all add: convertible_def)
  have uf: "unat (of_nat (first_lba d lb k) :: u64) = first_lba d lb k" and ul: "unat (of_nat (last_lba d lb k) :: u64) = last_lba d lb k"
    by (simp_all add: unat_of_nat_u64 lba_bounds)
  have "\<not> of_nat (first_lba d lb k) > (0xFFFFFFFF :: u64)" "\<not> of_nat (last_lba d lb k) > (0xFFFFFFFF :: u64)"
    "\<not> of_nat (last_lba d lb k) - of_nat (first_lba d lb k) + 1 > (0xFFFFFFFF :: u64)"
    using c assms(3) by (simp_all add: word_less_nat_alt uf ul kunat)
  then show ?thesis
    using c(4) unfolding convert_entry_def Let_def e_def [symmetric] w guid
    by (simp add: part_of_def entry_type_def)
qed

lemma convertible_count: "convertible d lb k \<Longrightarrow> last_lba d lb k - first_lba d lb k < 0xFFFFFFFF"
  by (auto simp: convertible_def)

lemma gather_all:
  assumes "gpt_disk d lb" and "unat base = le64 d (lb + 72) * lb" and "on_device d (entry_pos d lb m + 128)"
    and "m < 4294967296"
  shows "state_is h d n s \<Longrightarrow> unat i + left = m \<Longrightarrow> list_all (convertible d lb) (filter (used d lb) [unat i..<m]) \<Longrightarrow>
    length parts + length (filter (used d lb) [unat i..<m]) \<le> 4 \<Longrightarrow>
    ends h d n (Some (parts @ map (part_of d lb) (filter (used d lb) [unat i..<m])))
      (gather_parts h (header_of h d lb) base left i parts s)"
proof (induction left arbitrary: i parts s)
  case 0
  then show ?case by (simp add: ends_Ok)
next
  case (Suc left)
  have i: "unat i < m" using Suc.prems(2) by simp
  have od: "on_device d (entry_pos d lb (unat i) + 128)"
    using on_device_mono [OF assms(3)] entry_pos_mono [of "unat i" m d lb] i by simp
  note len = on_device_le [OF od]
  note off = entry_offset [OF Suc.prems(1) assms(1) od assms(2)]
  have upt: "[unat i..<m] = unat i # [unat (i + 1)..<m]" and i1: "unat (i + 1) + left = m"
    using i assms(4) Suc.prems(2) by (simp_all add: upt_conv_Cons kunat)
  define bs where "bs = bytes_at d (entry_pos d lb (unat i)) 128"
  have free: "unique_partition_guid (gpt_entry_of (bigendian h) bs) = (0, 0) \<longleftrightarrow> \<not> used d lb (unat i)"
    unfolding bs_def used_def using unused_entry [OF len] by simp
  have rest: "ends h d n (Some (parts @ map (part_of d lb) (filter (used d lb) [unat i..<m])))
      (if unique_partition_guid (gpt_entry_of (bigendian h) bs) = (0, 0)
       then gather_parts h (header_of h d lb) base left (i + 1) parts t
       else if length parts = 4 then Ok None t
       else case convert_entry (bigendian h) (gpt_entry_of (bigendian h) bs) of None \<Rightarrow> Ok None t
         | Some p \<Rightarrow> gather_parts h (header_of h d lb) base left (i + 1) (parts @ [p]) t)" if t: "state_is h d n t" for t
  proof (cases "used d lb (unat i)")
    case True
    then have c: "convertible d lb (unat i)" using Suc.prems(3) unfolding upt by simp
    have "convert_entry (bigendian h) (gpt_entry_of (bigendian h) bs) = Some (part_of d lb (unat i))"
      unfolding bs_def by (rule convert_entry_part [OF len c convertible_count [OF c]])
    then show ?thesis
      using Suc.IH [OF t i1, of "parts @ [part_of d lb (unat i)]"] Suc.prems(3,4) True free unfolding upt by simp
  next
    case False
    then show ?thesis using Suc.IH [OF t i1, of parts] Suc.prems(3,4) free unfolding upt by simp
  qed
  show ?case
    unfolding gather_parts.simps case_prod_beta Let_def using off(1)
    by (simp only: if_False, intro ends_bind [OF off(2)] rest [unfolded bs_def])
qed

section \<open>Writing blocks in sequence\<close>

lemma length_concat_const: "(\<And>x. x \<in> set xs \<Longrightarrow> length (f x) = c) \<Longrightarrow> length (concat (map f xs)) = length xs * c"
  by (induction xs) simp_all

lemma ends_blocks:
  assumes "unat cw = c" and "0 < c"
  shows "state_is h v n s \<Longrightarrow> on_device v (p + length is * c) \<Longrightarrow> n + length is \<le> 256 \<Longrightarrow>
    (\<And>j. j < length is \<Longrightarrow> length (f (is ! j)) = c \<and> unat (loc (is ! j)) = p + j * c) \<Longrightarrow>
    ends h (put_at v p (concat (map f is))) (n + length is) () (run_for is (\<lambda>i. device_write h (f i) (loc i) cw) s)"
proof (induction "is" arbitrary: v n s p)
  case Nil
  then show ?case using on_device_le [of v p] by (simp add: ends_Ok)
next
  case (Cons i js)
  have i: "length (f i) = c" "unat (loc i) = p" using Cons.prems(4) [of 0] by simp_all
  have js: "length (f (js ! j)) = c \<and> unat (loc (js ! j)) = (p + c) + j * c" if "j < length js" for j
    using Cons.prems(4) [of "Suc j"] that by simp
  have od: "on_device v (p + c)" and len: "p + c + length js * c \<le> length v"
    using Cons.prems(2) on_device_mono [OF Cons.prems(2)] on_device_le [OF Cons.prems(2)] by simp_all
  have cat: "length (concat (map f js)) = length js * c"
    using js by (intro length_concat_const) (auto simp: in_set_conv_nth)
  have w: "ends h (put_at v p (f i)) (Suc n) () (device_write h (f i) (loc i) cw s)"
    using ends_write [OF Cons.prems(1), of "loc i" cw "f i"] od i assms Cons.prems(3) by (simp add: word_less_nat_alt)
  have "ends h (put_at (put_at v p (f i)) (p + c) (concat (map f js))) (Suc n + length js) () (run_for js (\<lambda>i. device_write h (f i) (loc i) cw) t)"
    if "state_is h (put_at v p (f i)) (Suc n) t" for t
    using Cons.IH [OF that, of "p + c"] Cons.prems(2,3) js len i by (simp add: add.assoc)
  moreover have "put_at (put_at v p (f i)) (p + c) (concat (map f js)) = put_at v p (concat (map f (i # js)))"
    using put_at_append [of p "f i" "concat (map f js)" v] len i cat by simp
  ultimately show ?case using w by (auto intro!: ends_bind)
qed

lemma concat_zeros: "concat (map (\<lambda>_. replicate c x) xs) = replicate (length xs * c) x"
  by (induction xs) (simp_all add: replicate_add)

text \<open>The device without its two tables.\<close>

definition wiped :: "u8 list \<Rightarrow> nat \<Rightarrow> u8 list" where
  "wiped d lb = put_at (put_at d 0 (replicate (34 * lb) 0)) ((alternate_of d lb - 32) * lb) (replicate (33 * lb) 0)"

lemma iso_disk_ends:
  assumes "iso_disk d lb"
  shows "(alternate_of d lb - 32) * lb + 33 * lb = Suc (alternate_of d lb) * lb"
proof -
  have "alternate_of d lb - 32 + 33 = Suc (alternate_of d lb)" using assms by (simp add: iso_disk_def)
  then show ?thesis by (simp only: add_mult_distrib [symmetric])
qed

lemma ends_call: "state_is h v n s \<Longrightarrow> ends h v n () (call h s)"
  by (simp add: state_is_def device_inv_def journal_wf_def entries_def bsz_def call_def ends_def host_ok_def) (auto simp: tick_def)

lemma nuke_wipes:
  assumes "state_is h d 0 s" and "iso_disk d lb"
  shows "ends h (wiped d lb) 67 () (nuke_gpt h (of_nat lb) (header_of h d lb) s)"
proof -
  have g: "gpt_disk d lb" and a: "32 \<le> alternate_of d lb" and od: "on_device d (34 * lb)" "on_device d (Suc (alternate_of d lb) * lb)"
    using assms(2) by (simp_all add: iso_disk_def)
  note lb = gpt_disk_lb [OF g] and small = state_is_small [OF assms(1)] and alt_end = iso_disk_ends [OF assms(2)]
  have ulb: "unat (of_nat lb :: u64) = lb" "0 < lb" using lb by auto
  define zeros :: "u8 list" where "zeros = replicate lb 0"
  define alt where "alt = ENDSWAP64 (bigendian h) (alternate_lba (header_of h d lb))"
  have alt: "unat alt = alternate_of d lb" using gpt_fields(1) [OF g, of h] by (simp add: alt_def)
  have lim: "alternate_of d lb < 2 ^ 60" using lb on_device_le [OF od(2)] small by auto
  have w1: "ends h (put_at d 0 (replicate (34 * lb) 0)) 34 () (run_for [0..<34] (\<lambda>i. device_write h zeros (of_nat i * of_nat lb) (of_nat lb)) t)"
    if "state_is h d 0 t" for t
    using ends_blocks [OF ulb that, of 0 "[0..<34]" "\<lambda>_. zeros" "\<lambda>i. of_nat i * of_nat lb"] od(1) ulb lb
    by (auto simp: concat_zeros zeros_def kunat)
  have loc: "unat ((alt - 32 + of_nat j) * of_nat lb) = (alternate_of d lb - 32) * lb + j * lb" if "j < 33" for j
  proof -
    have "unat (alt - 32 + of_nat j) = alternate_of d lb - 32 + j" using a alt lim that by (simp add: kunat)
    moreover have "(alternate_of d lb - 32 + j) * lb \<le> Suc (alternate_of d lb) * lb" using a that by (intro mult_le_mono1) simp
    then have "(alternate_of d lb - 32 + j) * lb < 18446744073709551616" using on_device_le [OF od(2)] small by simp
    ultimately show ?thesis by (subst unat_mult_u64) (simp_all only: ulb add_mult_distrib)
  qed
  have "length (put_at d 0 (replicate (34 * lb) 0)) = length d" using on_device_le [OF od(1)] by simp
  then have "on_device (put_at d 0 (replicate (34 * lb) 0)) ((alternate_of d lb - 32) * lb + 33 * lb)"
    using od(2) unfolding alt_end on_device_def by simp
  then have w2: "ends h (wiped d lb) 67 () (run_for [0..<33] (\<lambda>i. device_write h zeros ((alt - 32 + of_nat i) * of_nat lb) (of_nat lb)) t)"
    if "state_is h (put_at d 0 (replicate (34 * lb) 0)) 34 t" for t
    using ends_blocks [OF ulb that, of "(alternate_of d lb - 32) * lb" "[0..<33]" "\<lambda>_. zeros" "\<lambda>i. (alt - 32 + of_nat i) * of_nat lb"] ulb loc
    by (auto simp: concat_zeros zeros_def wiped_def)
  have "alt \<ge> 32" using a alt by (simp add: word_le_nat_alt)
  then show ?thesis
    unfolding nuke_gpt_def Let_def ulb(1) zeros_def [symmetric] alt_def [symmetric]
    using w1 w2 by (auto intro!: ends_bind [OF ends_call [OF assms(1)]] ends_bind)
qed

section \<open>Writing the partition table\<close>

definition part_slot :: "part_to_conv \<Rightarrow> u8 list" where
  "part_slot p = chs_start p @ [ptype p] @ chs_end p @ word_bytes 4 (ucast (lba_start p) :: u32)
     @ word_bytes 4 (ucast (lba_end p - lba_start p + 1) :: u32)"

lemma length_part_slot: "part_ok p \<Longrightarrow> length (part_slot p) = 15"
  by (simp add: part_slot_def part_ok_def)

lemma put_at_commute:
  assumes "p + length xs \<le> q \<or> q + length ys \<le> p" and "p + length xs \<le> length v" and "q + length ys \<le> length v"
  shows "put_at (put_at v p xs) q ys = put_at (put_at v q ys) p xs"
  using assms by (intro nth_equalityI) (auto simp: nth_put_at)

lemma put_slot:
  assumes "b + 16 \<le> length v" and "length x1 = 3" and "length x2 = 3" and "length y1 = 4" and "length y2 = 4"
  shows "put_at (put_at (put_at (put_at (put_at v (b + 4) [z]) (b + 8) y1) (b + 12) y2) (b + 1) x1) (b + 5) x2
    = put_at v (b + 1) (x1 @ [z] @ x2 @ y1 @ y2)"
proof -
  have "put_at v (b + 1) (x1 @ [z] @ x2 @ y1 @ y2)
    = put_at (put_at (put_at (put_at (put_at v (b + 1) x1) (b + 4) [z]) (b + 5) x2) (b + 8) y1) (b + 12) y2"
    using assms put_at_append [of "b + 1" x1 "[z]" v] put_at_append [of "b + 1" "x1 @ [z]" x2 v]
      put_at_append [of "b + 1" "x1 @ [z] @ x2" y1 v] put_at_append [of "b + 1" "x1 @ [z] @ x2 @ y1" y2 v]
    by (simp add: numeral_eq_Suc)
  also have "\<dots> = put_at (put_at (put_at (put_at (put_at v (b + 4) [z]) (b + 8) y1) (b + 12) y2) (b + 1) x1) (b + 5) x2"
    using assms by (simp add: put_at_commute [of "b + 5" x2] put_at_commute [of "Suc b" x1 "b + 4" "[z]"]
      put_at_commute [of "Suc b" x1 "b + 8" y1] put_at_commute [of "Suc b" x1 "b + 12" y2])
  finally show ?thesis by (rule sym)
qed

lemma write_partition_ends:
  assumes "state_is h v n s" and "j < 4" and "n + 5 \<le> 256" and "part_ok p" and "on_device v 510"
  shows "ends h (put_at v (446 + 16 * j + 1) (part_slot p)) (n + 5) () (write_partition h (j, p) s)"
proof -
  define b where "b = 446 + 16 * j"
  have b: "b + 16 \<le> 510" using assms(2) by (simp add: b_def)
  have len: "510 \<le> length v" using on_device_le [OF assms(5)] .
  have u: "unat (0x1be + of_nat j * 16 + x :: u64) = b + unat x" if "unat x < 16" for x
    using that assms(2) by (simp add: kunat b_def)
  have od: "on_device w q" if "length w = length v" "q \<le> 510" for w q
    using that on_device_mono [OF assms(5), of q] by (simp add: on_device_def)
  have w: "ends h (put_at w (b + unat x) xs) (Suc m) () (device_write h xs (0x1be + of_nat j * 16 + x) c t)"
    if "state_is h w m t" "length w = length v" "m < 256" "length xs = unat c" "0 < c" "unat x + unat c \<le> 16" for w x xs m c t
  proof -
    have "0 < unat c" using that(5) by (simp add: word_less_nat_alt)
    then show ?thesis
      using ends_write [OF that(1) _ that(4,5,3), of "0x1be + of_nat j * 16 + x"] u [of x] b od that(2,6) by simp
  qed
  define y1 y2 where "y1 = word_bytes 4 (ucast (lba_start p) :: u32)" and "y2 = word_bytes 4 (ucast (lba_end p - lba_start p + 1) :: u32)"
  define v1 v2 v3 v4 where "v1 = put_at v (b + 4) [ptype p]" and "v2 = put_at v1 (b + 8) y1" and "v3 = put_at v2 (b + 12) y2"
    and "v4 = put_at v3 (b + 1) (chs_start p)"
  note vs = v1_def v2_def v3_def v4_def
  have p: "length (chs_start p) = 3" "length (chs_end p) = 3" "length y1 = 4" "length y2 = 4"
    using assms(4) by (simp_all add: part_ok_def y1_def y2_def)
  have l: "length v1 = length v" "length v2 = length v" "length v3 = length v" "length v4 = length v"
    using len b p by (simp_all add: vs)
  obtain s1 where s1: "device_write h [ptype p] (0x1be + of_nat j * 16 + 4) 1 s = Ok () s1" "state_is h v1 (Suc n) s1"
    using w [OF assms(1), of "[ptype p]" 1 4] assms(3) by (auto simp: ends_def vs)
  obtain s2 where s2: "device_write h y1 (0x1be + of_nat j * 16 + 8) 4 s1 = Ok () s2" "state_is h v2 (Suc (Suc n)) s2"
    using w [OF s1(2) l(1), of y1 4 8] assms(3) p by (auto simp: ends_def vs)
  obtain s3 where s3: "device_write h y2 (0x1be + of_nat j * 16 + 12) 4 s2 = Ok () s3" "state_is h v3 (Suc (Suc (Suc n))) s3"
    using w [OF s2(2) l(2), of y2 4 12] assms(3) p by (auto simp: ends_def vs)
  obtain s4 where s4: "device_write h (chs_start p) (0x1be + of_nat j * 16 + 1) 3 s3 = Ok () s4" "state_is h v4 (Suc (Suc (Suc (Suc n)))) s4"
    using w [OF s3(2) l(3), of "chs_start p" 3 1] assms(3) p by (auto simp: ends_def vs)
  obtain t where t: "device_write h (chs_end p) (0x1be + of_nat j * 16 + 5) 3 s4 = Ok () t"
    "state_is h (put_at v4 (b + 5) (chs_end p)) (Suc (Suc (Suc (Suc (Suc n))))) t"
    using w [OF s4(2) l(4), of "chs_end p" 3 5] assms(3) p by (auto simp: ends_def)
  have "put_at v4 (b + 5) (chs_end p) = put_at v (b + 1) (part_slot p)"
    unfolding vs part_slot_def y1_def [symmetric] y2_def [symmetric] using put_slot b len p by simp
  moreover have "Suc (Suc (Suc (Suc (Suc n)))) = n + 5" by simp
  note t(2) [unfolded this]
  ultimately show ?thesis
    using s1(1) s2(1) s3(1) s4(1) t(1)
    by (simp add: write_partition_def ends_def y1_def y2_def) (simp add: b_def)
qed

lemma put_behind_zero:
  assumes "p + 1 + length xs \<le> length v" and "v ! p = 0"
  shows "put_at v (p + 1) xs = put_at v p (0 # xs)"
  using assms by (intro nth_equalityI) (auto simp: nth_put_at nth_Cons')

lemma write_partitions_ends:
  assumes "list_all part_ok ps"
  shows "state_is h v n s \<Longrightarrow> m + length ps \<le> 4 \<Longrightarrow> n + 5 * length ps \<le> 256 \<Longrightarrow> on_device v 510 \<Longrightarrow>
    (\<And>i. 446 + 16 * m \<le> i \<Longrightarrow> i < 510 \<Longrightarrow> v ! i = 0) \<Longrightarrow>
    ends h (put_at v (446 + 16 * m) (concat (map (\<lambda>p. 0 # part_slot p) ps))) (n + 5 * length ps) ()
      (run_for (zip [m..<m + length ps] ps) (write_partition h) s)"
  using assms
proof (induction ps arbitrary: v n s m)
  case Nil
  then show ?case using on_device_le [of v 510] by (simp add: ends_Ok)
next
  case (Cons p ps)
  have p: "part_ok p" "length (part_slot p) = 15" "list_all part_ok ps" using Cons.prems(6) length_part_slot by auto
  have len: "510 \<le> length v" using on_device_le [OF Cons.prems(4)] .
  define v1 where "v1 = put_at v (446 + 16 * m) (0 # part_slot p)"
  have m: "446 + 16 * m + 16 \<le> 510" using Cons.prems(2) by simp
  have v1: "put_at v (446 + 16 * m + 1) (part_slot p) = v1" "length v1 = length v"
    unfolding v1_def using put_behind_zero [of "446 + 16 * m" "part_slot p" v] Cons.prems(5) m p len by simp_all
  have w: "ends h v1 (n + 5) () (write_partition h (m, p) s)"
    using write_partition_ends [OF Cons.prems(1) _ _ p(1) Cons.prems(4), of m] Cons.prems(2,3) unfolding v1 by simp
  have z: "v1 ! i = 0" if "446 + 16 * Suc m \<le> i" "i < 510" for i
    using that Cons.prems(5) [of i] p len m by (simp add: v1_def nth_put_at)
  have rest: "ends h (put_at v1 (446 + 16 * Suc m) (concat (map (\<lambda>p. 0 # part_slot p) ps))) (n + 5 + 5 * length ps) ()
      (run_for (zip [Suc m..<Suc m + length ps] ps) (write_partition h) t)" if "state_is h v1 (n + 5) t" for t
    using Cons.IH [OF that, of "Suc m"] Cons.prems(2-4) z p(3) v1(2) by (simp add: on_device_def)
  have "length (concat (map (\<lambda>p. 0 # part_slot p) ps)) = length ps * 16"
    using p(3) by (intro length_concat_const) (simp add: list_all_iff length_part_slot)
  then have "put_at v1 (446 + 16 * Suc m) (concat (map (\<lambda>p. 0 # part_slot p) ps))
      = put_at v (446 + 16 * m) (concat (map (\<lambda>p. 0 # part_slot p) (p # ps)))"
    unfolding v1_def using put_at_append [of "446 + 16 * m" "0 # part_slot p" _ v] p Cons.prems(2) len by (simp add: add.commute)
  moreover have "[m..<m + length (p # ps)] = m # [Suc m..<Suc m + length ps]" by (simp add: upt_conv_Cons del: upt_Suc)
  moreover have "n + 5 * length (p # ps) = n + 5 + 5 * length ps" by simp
  ultimately show ?case using rest by (simp only: zip_Cons_Cons run_for.simps) (rule ends_bind [OF w])
qed

section \<open>The converted device\<close>

definition mbr_table :: "u8 list \<Rightarrow> nat \<Rightarrow> u8 list" where
  "mbr_table d lb = concat (map (\<lambda>k. 0 # mbr_slot d lb k) (used_entries d lb))"

definition converted :: "host \<Rightarrow> u8 list \<Rightarrow> nat \<Rightarrow> u8 list" where
  "converted h d lb = put_at (put_at (wiped d lb) 440 (map (random_byte h) [0..<4])) 446 (mbr_table d lb)"

lemma ucast_of_nat_lba: "x < 18446744073709551616 \<Longrightarrow> ucast (of_nat x :: u64) = (of_nat x :: u32)"
  by (simp add: unsigned_of_nat take_bit_nat_eq_self)

lemma part_slot_part_of: "convertible d lb k \<Longrightarrow> part_slot (part_of d lb k) = mbr_slot d lb k"
proof -
  assume c: "convertible d lb k"
  then have le: "first_lba d lb k \<le> last_lba d lb k" by (simp add: convertible_def)
  then have "of_nat (last_lba d lb k) - of_nat (first_lba d lb k) + 1 = (of_nat (Suc (last_lba d lb k) - first_lba d lb k) :: u64)"
    by (simp add: of_nat_diff Suc_diff_le)
  moreover have "Suc (last_lba d lb k) - first_lba d lb k < 18446744073709551616" using c by (auto simp: convertible_def)
  ultimately show ?thesis
    by (simp add: part_slot_def part_of_def mbr_slot_def ucast_of_nat_lba lba_bounds)
qed

lemma length_lba2chs [simp]: "length (lba2chs x) = 3"
  by (simp add: lba2chs_def Let_def)

lemma part_of_ok: "part_ok (part_of d lb k)"
  by (simp add: part_ok_def part_of_def)

lemma length_mbr_slot [simp]: "length (mbr_slot d lb k) = 15"
  by (simp add: mbr_slot_def)

lemma length_mbr_table: "length (mbr_table d lb) = 16 * length (used_entries d lb)"
  unfolding mbr_table_def by (subst length_concat_const [of _ _ 16]) simp_all

lemma iso_disk_length: "iso_disk d lb \<Longrightarrow> 34 * lb \<le> length d \<and> 17408 \<le> 34 * lb \<and> Suc (alternate_of d lb) * lb \<le> length d"
  using on_device_le [of d "34 * lb"] on_device_le [of d "Suc (alternate_of d lb) * lb"] gpt_disk_lb [of d lb] by (auto simp: iso_disk_def)

lemma length_wiped [simp]: "iso_disk d lb \<Longrightarrow> length (wiped d lb) = length d"
  using iso_disk_length [of d lb] iso_disk_ends [of d lb] by (simp add: wiped_def)

lemma length_converted [simp]: "iso_disk d lb \<Longrightarrow> length (converted h d lb) = length d"
  using iso_disk_length [of d lb] length_mbr_table [of d lb] by (simp add: converted_def iso_disk_def)

lemma nth_wiped:
  assumes "iso_disk d lb" and "i < length d"
  shows "wiped d lb ! i = (if i < 34 * lb \<or> (alternate_of d lb - 32) * lb \<le> i \<and> i < Suc (alternate_of d lb) * lb then 0 else d ! i)"
proof -
  note len = iso_disk_length [OF assms(1)] and last = iso_disk_ends [OF assms(1)]
  have "length (put_at d 0 (replicate (34 * lb) 0)) = length d" using len by simp
  then show ?thesis using assms(2) len last by (auto simp: wiped_def nth_put_at)
qed

lemma convert_ends:
  assumes "state_is h d 0 s" and "iso_disk d lb"
  shows "ends h (converted h d lb) (71 + 5 * length (used_entries d lb)) False (convert_isohybrid h (of_nat lb) (header_of h d lb) s)"
proof -
  have iso: "gpt_disk d lb" "bytes_at d 32769 5 = ascii ''CD001''" "on_device d 32774" "on_device d (34 * lb)"
    "on_device d (entry_pos d lb (entries_of d lb) + 128)" "length (used_entries d lb) \<le> 4"
    "list_all (convertible d lb) (used_entries d lb)" using assms(2) by (simp_all add: iso_disk_def)
  have lb: "unat (of_nat lb :: u64) = lb" using gpt_disk_lb [OF iso(1)] by auto
  define base where "base = mul_u64_overflow (ENDSWAP64 (bigendian h) (partition_entry_lba (header_of h d lb))) (of_nat lb)"
  have "le64 d (lb + 72) * lb < 2 ^ 63" using on_device_le [OF iso(5)] state_is_small [OF assms(1)] by (simp add: entry_pos_def)
  then have no: "\<not> fst base" unfolding base_def mul_u64_overflow_iff lb gpt_fields(2) [OF iso(1)] by simp
  have base: "unat (snd base) = le64 d (lb + 72) * lb"
    using mul_u64_exact no unfolding base_def by (simp add: lb gpt_fields(2) [OF iso(1)])
  define ps where "ps = map (part_of d lb) (used_entries d lb)"
  have "entries_of d lb < 4294967296" unfolding entries_of_def le32_def by (rule unat_u32_less)
  then have gather: "ends h d 0 (Some ps) (gather_parts h (header_of h d lb) (snd base)
      (unat (ENDSWAP32 (bigendian h) (number_of_partition_entries (header_of h d lb)))) 0 [] t)" if "state_is h d 0 t" for t
    using gather_all [OF iso(1) base iso(5) _ that, of 0 "entries_of d lb" "[]"] iso(6,7)
    by (simp add: gpt_fields(3) [OF iso(1)] ps_def used_entries_def)
  define v where "v = put_at (wiped d lb) 440 (map (random_byte h) [0..<4])"
  note len = iso_disk_length [OF assms(2)]
  have od: "on_device w 510" if "length w = length d" for w
    using that on_device_mono [OF iso(3), of 510] by (simp add: on_device_def)
  have random: "ends h v 71 () (run_for [0..<4] (\<lambda>i. device_write h [random_byte h i] (0x1b8 + of_nat i) 1) t)"
    if "state_is h (wiped d lb) 67 t" for t
    using ends_blocks [of 1 1 h "wiped d lb" 67 t 440 "[0..<4]" "\<lambda>i. [random_byte h i]" "\<lambda>i. 0x1b8 + of_nat i"] that
      on_device_mono [OF od, of "wiped d lb" 444] assms(2)
    by (auto simp: v_def kunat)
  have zero: "v ! i = 0" if "446 \<le> i" "i < 510" for i
    using that len nth_wiped [OF assms(2)] assms(2) by (simp add: v_def nth_put_at)
  have slots: "concat (map (\<lambda>p. 0 # part_slot p) ps) = mbr_table d lb"
    unfolding ps_def mbr_table_def using iso(7) by (auto simp: list_all_iff part_slot_part_of intro!: arg_cong [where f = concat])
  have parts: "ends h (converted h d lb) (71 + 5 * length (used_entries d lb)) () (run_for (zip [0..<length ps] ps) (write_partition h) t)"
    if "state_is h v 71 t" for t
    using write_partitions_ends [of ps h v 71 t 0] that iso(6) zero od [of v] slots len assms(2)
    by (simp add: converted_def v_def list_all_iff part_of_ok ps_def)
  show ?thesis
    unfolding convert_isohybrid_def case_prod_beta Let_def base_def [symmetric]
  proof (rule ends_read_bind [OF assms(1)], goal_cases)
    case 1
    then show ?case using iso(3) by simp
  next
    case (2 t)
    have "ends h (converted h d lb) (71 + 5 * length (used_entries d lb)) False
        (run_bind (nuke_gpt h (of_nat lb) (header_of h d lb) u) (\<lambda>_ s.
         run_bind (run_for [0..<4] (\<lambda>i. device_write h [random_byte h i] (0x1b8 + of_nat i) 1) s) (\<lambda>_ s.
         run_bind (run_for (zip [0..<length ps] ps) (write_partition h) s) (\<lambda>_ s. Ok False s))))" if "state_is h d 0 u" for u
      by (rule ends_bind [OF nuke_wipes [OF that assms(2)]], rule ends_bind [OF random], assumption,
          rule ends_bind [OF parts], assumption, rule ends_Ok)
    then show ?case using no iso(2) by simp (rule ends_bind [OF gather [OF 2]], simp)
  qed
qed

section \<open>The installation\<close>

lemma nth_converted:
  assumes "iso_disk d lb" and "i < length d"
  shows "converted h d lb ! i =
    (if 446 \<le> i \<and> i < 446 + 16 * length (used_entries d lb) then mbr_table d lb ! (i - 446)
     else if 440 \<le> i \<and> i < 444 then random_byte h (i - 440) else wiped d lb ! i)"
proof -
  have "length (used_entries d lb) \<le> 4" using assms(1) by (simp add: iso_disk_def)
  then show ?thesis
    using iso_disk_length [OF assms(1)] assms length_mbr_table [of d lb] by (auto simp: converted_def nth_put_at)
qed

lemma converted_zero:
  assumes "iso_disk d lb" and "p + n \<le> 440 \<or> 446 + 16 * length (used_entries d lb) \<le> p \<and> p + n \<le> 17408"
  shows "bytes_at (converted h d lb) p n = replicate n 0"
proof -
  have len: "17408 \<le> length d" "17408 \<le> 34 * lb" using iso_disk_length [OF assms(1)] by auto
  then have "p + n \<le> length (converted h d lb)" using assms by auto
  then show ?thesis
    using assms len nth_converted [OF assms(1)] nth_wiped [OF assms(1)] by (intro nth_equalityI) (auto simp: nth_bytes_at)
qed

lemma bytes_at_concat:
  "(\<And>x. x \<in> set xs \<Longrightarrow> length (f x) = c) \<Longrightarrow> j < length xs \<Longrightarrow> bytes_at (concat (map f xs)) (c * j) c = f (xs ! j)"
proof (induction xs arbitrary: j)
  case (Cons x xs)
  then show ?case by (cases j) (auto simp: bytes_at_def)
qed simp

lemma converted_slot:
  assumes "iso_disk d lb" and "j < length (used_entries d lb)"
  shows "bytes_at (converted h d lb) (446 + 16 * j) 16 = 0 # mbr_slot d lb (used_entries d lb ! j)"
proof -
  have four: "length (used_entries d lb) \<le> 4" using assms(1) by (simp add: iso_disk_def)
  have "bytes_at (converted h d lb) (446 + 16 * j) 16 = bytes_at (mbr_table d lb) (16 * j) 16"
    unfolding converted_def using assms four iso_disk_length [OF assms(1)] length_mbr_table [of d lb]
    by (intro bytes_at_put_at) simp_all
  then show ?thesis using bytes_at_concat [of "used_entries d lb" "\<lambda>k. 0 # mbr_slot d lb k" 16] assms(2) by (simp add: mbr_table_def)
qed

lemma mbr_slot_start: "bytes_at (0 # mbr_slot d lb k) 8 4 = word_bytes 4 (of_nat (first_lba d lb k) :: u32)"
  by (simp add: bytes_at_def mbr_slot_def)

lemma converted_mbr:
  assumes "iso_disk d lb"
  shows "mbr_disk (converted h d lb)" and "\<not> has_active (converted h d lb)"
proof -
  define v where "v = converted h d lb"
  have four: "length (used_entries d lb) \<le> 4" and conv: "list_all (convertible d lb) (used_entries d lb)"
    using assms(1) by (simp_all add: iso_disk_def)
  have len: "17408 \<le> length v" using iso_disk_length [OF assms] assms by (auto simp: v_def)
  have entry: "v ! b = 0 \<and> (v ! (b + 4) \<noteq> 0 \<longrightarrow> 63 \<le> (bytes_word (bytes_at v (b + 8) 4) :: u32))"
    if b: "b = 446 + 16 * j" and "j < 4" for b j
  proof (cases "j < length (used_entries d lb)")
    case True
    then have s: "bytes_at v b 16 = 0 # mbr_slot d lb (used_entries d lb ! j)" unfolding v_def b by (rule converted_slot [OF assms])
    have "v ! b = 0" using arg_cong [OF s, of "\<lambda>xs. xs ! 0"] len \<open>j < 4\<close> by (simp add: nth_bytes_at b)
    moreover have "bytes_at v (b + 8) 4 = word_bytes 4 (of_nat (first_lba d lb (used_entries d lb ! j)) :: u32)"
      using arg_cong [OF s, of "\<lambda>xs. bytes_at xs 8 4"] by (simp add: bytes_at_bytes_at mbr_slot_start)
    moreover have "convertible d lb (used_entries d lb ! j)" using conv True by (simp add: list_all_length)
    then have "63 \<le> (of_nat (first_lba d lb (used_entries d lb ! j)) :: u32)"
      by (auto simp: word_le_nat_alt unat_of_nat convertible_def)
    ultimately show ?thesis by (simp add: bytes_word_word_bytes)
  next
    case False
    then have s: "bytes_at v b 16 = replicate 16 0" unfolding v_def b using that(2) by (intro converted_zero [OF assms]) simp
    show ?thesis using arg_cong [OF s, of "\<lambda>xs. xs ! 0"] arg_cong [OF s, of "\<lambda>xs. xs ! 4"] len \<open>j < 4\<close>
      by (simp add: nth_bytes_at b)
  qed
  have entries: "v ! b = 0 \<and> (v ! (b + 4) \<noteq> 0 \<longrightarrow> 63 \<le> (bytes_word (bytes_at v (b + 8) 4) :: u32))" if "b \<in> set MBR_ENTRIES" for b
    using that entry [of b 0] entry [of b 1] entry [of b 2] entry [of b 3] by (auto simp: MBR_ENTRIES_def)
  then show "\<not> has_active (converted h d lb)" unfolding v_def [symmetric] by (auto simp: has_active_def list_ex_iff)
  have "bytes_at v p n = replicate n 0" if "p + n \<le> 440 \<or> 510 \<le> p \<and> p + n \<le> 17408" for p n
    unfolding v_def using that four by (intro converted_zero [OF assms]) auto
  then have zeros: "bytes_at v 512 8 = replicate 8 0" "bytes_at v 4096 8 = replicate 8 0" "bytes_at v 3 4 = replicate 4 0"
    "bytes_at v 54 3 = replicate 3 0" "bytes_at v 82 3 = replicate 3 0" "bytes_at v 3 5 = replicate 5 0" "bytes_at v 1080 2 = replicate 2 0"
    by simp_all
  show "mbr_disk (converted h d lb)"
    unfolding v_def [symmetric] mbr_disk_def no_file_system_def
    unfolding add_0 zeros using zero_no_marks len entries by (auto simp only: list_all_iff)
qed

lemma install_iso:
  assumes "state_is h d 0 s" and "iso_disk d lb" and "gpt2mbr_allowed opts" and "image_ok img" and "on_device d (length img)"
  shows "\<exists>t. install h opts img s = Ok () t \<and> device_inv h t \<and> disk t = boot_code img 512 (put_at (converted h d lb) 446 [0x80])"
proof -
  have g: "gpt_disk d lb" and few: "71 + 5 * length (used_entries d lb) < 199" using assms(2) by (simp_all add: iso_disk_def)
  obtain s1 where s1: "find_gpt h s = Ok (Some (of_nat lb, header_of h d lb)) s1" "state_is h d 0 s1"
    using find_gpt_finds [OF assms(1) g] by (auto simp: ends_def)
  obtain s2 where s2: "convert_isohybrid h (of_nat lb) (header_of h d lb) s1 = Ok False s2"
    "state_is h (converted h d lb) (71 + 5 * length (used_entries d lb)) s2" using convert_ends [OF s1(2) assms(2)] by (auto simp: ends_def)
  have "on_device (converted h d lb) (length img)" using assms(2,5) by (simp add: on_device_def)
  from install_on_mbr [OF s2(2) few converted_mbr(1) [OF assms(2)] assms(4) this, of "force opts"]
  show ?thesis using s1(1) s2(1) assms(3) converted_mbr(2) [OF assms(2)] by (simp add: install_def with_active_def)
qed

text \<open>The device after the installation, byte by byte.\<close>

definition iso_installed :: "host \<Rightarrow> u8 list \<Rightarrow> u8 list \<Rightarrow> nat \<Rightarrow> nat \<Rightarrow> u8" where
  "iso_installed h img d lb i =
     (if i = 446 then 0x80
      else if 446 < i \<and> i < 446 + 16 * length (used_entries d lb) then mbr_table d lb ! (i - 446)
      else if 440 \<le> i \<and> i < 444 then random_byte h (i - 440)
      else if 440 \<le> i \<and> i < 510 \<or> 218 \<le> i \<and> i < 224 then 0
      else if 420 \<le> i \<and> i < 428 then word_bytes 8 (512 :: u64) ! (i - 420)
      else if i < length img then img ! i
      else if i < 34 * lb \<or> (alternate_of d lb - 32) * lb \<le> i \<and> i < Suc (alternate_of d lb) * lb then 0
      else d ! i)"

lemma nth_iso_installed:
  assumes "iso_disk d lb" and "image_ok img" and "length img \<le> length d" and "i < length d"
  shows "boot_code img 512 (put_at (converted h d lb) 446 [0x80]) ! i = iso_installed h img d lb i"
proof -
  have len: "17408 \<le> length d" "17408 \<le> 34 * lb" using iso_disk_length [OF assms(1)] by auto
  have four: "length (used_entries d lb) \<le> 4" using assms(1) by (simp add: iso_disk_def)
  define v where "v = put_at (converted h d lb) 446 [0x80]"
  have v: "length v = length d" "v ! i = (if i = 446 then 0x80 else converted h d lb ! i)"
    using assms len by (auto simp: v_def nth_put_at)
  show ?thesis
    using nth_boot_code [OF assms(2), of v i] assms v four len nth_converted [OF assms(1,4)] nth_wiped [OF assms(1,4)]
    unfolding v_def [symmetric] iso_installed_def by (auto simp: image_ok_def)
qed

end
