(* ===== verification/Limine_Table_Properties.thy ===== *)
theory Limine_Table_Properties
  imports Limine_Properties Limine_Iso
begin

text \<open>
  The properties of an installation on a device with a GUID partition table: kept, with the boot code in
  the BIOS boot partition, or converted to an MBR on an ISO image.
\<close>

section \<open>Example devices\<close>

definition ex_header :: "u8 list" where
  "ex_header = ascii ''EFI PART'' @ replicate 24 0 @ word_bytes 8 (110 :: u64) @ replicate 32 0 @ word_bytes 8 (2 :: u64)
     @ word_bytes 4 (1 :: u32) @ word_bytes 4 (128 :: u32) @ replicate 8 0"

definition ex_entry :: "u8 list \<Rightarrow> u8 list" where
  "ex_entry guid = guid @ word_bytes 8 (1 :: u64) @ replicate 8 0 @ word_bytes 8 (64 :: u64) @ word_bytes 8 (128 :: u64) @ replicate 80 0"

definition ex_table_disk :: "u8 list \<Rightarrow> u8 list \<Rightarrow> u8 list" where
  "ex_table_disk guid volume = put_at (put_at (put_at (put_at (replicate 131072 0) 512 ex_header) 1024 (ex_entry guid)) 32769 volume)
     56320 (ascii ''EFI PART'')"

lemma bytes_at_put_other:
  "p + length xs \<le> length d \<Longrightarrow> q + n \<le> length d \<Longrightarrow> q + n \<le> p \<or> p + length xs \<le> q \<Longrightarrow> bytes_at (put_at d p xs) q n = bytes_at d q n"
  by (rule nth_equalityI) (auto simp: nth_put_at nth_bytes_at)

lemma bytes_at_put_inside:
  "p + length xs \<le> length d \<Longrightarrow> p \<le> q \<Longrightarrow> q + n \<le> p + length xs \<Longrightarrow> bytes_at (put_at d p xs) q n = bytes_at xs (q - p) n"
  using bytes_at_put_at [of "q - p" n xs p d] by simp

lemma ex_lengths [simp]: "length ex_header = 96" "length guid = 16 \<Longrightarrow> length (ex_entry guid) = 128"
  by (simp_all add: ex_header_def ex_entry_def)

lemma ex_table_disk_bytes:
  assumes "length guid = 16" and "length volume \<le> 5"
  shows "length (ex_table_disk guid volume) = 131072"
    and "q + n \<le> 512 \<Longrightarrow> bytes_at (ex_table_disk guid volume) q n = replicate n 0"
    and "512 \<le> q \<Longrightarrow> q + n \<le> 608 \<Longrightarrow> bytes_at (ex_table_disk guid volume) q n = bytes_at ex_header (q - 512) n"
    and "1024 \<le> q \<Longrightarrow> q + n \<le> 1152 \<Longrightarrow> bytes_at (ex_table_disk guid volume) q n = bytes_at (ex_entry guid) (q - 1024) n"
    and "1152 \<le> q \<Longrightarrow> q + n \<le> 32769 \<Longrightarrow> bytes_at (ex_table_disk guid volume) q n = replicate n 0"
    and "32769 + length volume \<le> q \<Longrightarrow> q + n \<le> 56320 \<Longrightarrow> bytes_at (ex_table_disk guid volume) q n = replicate n 0"
    and "bytes_at (ex_table_disk guid volume) 32769 (length volume) = volume"
    and "bytes_at (ex_table_disk guid volume) 56320 8 = ascii ''EFI PART''"
proof -
  have zero: "bytes_at (replicate 131072 0) q n = replicate n (0 :: u8)" if "q + n \<le> 131072" for q n
    using that by (simp add: bytes_at_def)
  show "length (ex_table_disk guid volume) = 131072" using assms by (simp add: ex_table_disk_def)
  show "q + n \<le> 512 \<Longrightarrow> bytes_at (ex_table_disk guid volume) q n = replicate n 0"
    "512 \<le> q \<Longrightarrow> q + n \<le> 608 \<Longrightarrow> bytes_at (ex_table_disk guid volume) q n = bytes_at ex_header (q - 512) n"
    "1024 \<le> q \<Longrightarrow> q + n \<le> 1152 \<Longrightarrow> bytes_at (ex_table_disk guid volume) q n = bytes_at (ex_entry guid) (q - 1024) n"
    "1152 \<le> q \<Longrightarrow> q + n \<le> 32769 \<Longrightarrow> bytes_at (ex_table_disk guid volume) q n = replicate n 0"
    "32769 + length volume \<le> q \<Longrightarrow> q + n \<le> 56320 \<Longrightarrow> bytes_at (ex_table_disk guid volume) q n = replicate n 0"
    using assms by (simp_all add: ex_table_disk_def bytes_at_put_other bytes_at_put_inside zero)
  show "bytes_at (ex_table_disk guid volume) 32769 (length volume) = volume"
    "bytes_at (ex_table_disk guid volume) 56320 8 = ascii ''EFI PART''"
    using assms by (simp_all add: ex_table_disk_def bytes_at_put_other bytes_at_put_inside) (simp_all add: bytes_at_def)
qed

lemma ex_header_fields:
  "bytes_at ex_header 0 8 = ascii ''EFI PART''" "(bytes_word (bytes_at ex_header 32 8) :: u64) = 110"
  "(bytes_word (bytes_at ex_header 72 8) :: u64) = 2" "(bytes_word (bytes_at ex_header 80 4) :: u32) = 1"
  "(bytes_word (bytes_at ex_header 84 4) :: u32) = 128"
  by code_simp+

lemma ex_entry_fields:
  assumes "length guid = 16"
  shows "bytes_at (ex_entry guid) 0 16 = guid" and "(bytes_word (bytes_at (ex_entry guid) 32 8) :: u64) = 64"
    and "(bytes_word (bytes_at (ex_entry guid) 40 8) :: u64) = 128" and "bytes_at (ex_entry guid) 16 16 = word_bytes 8 (1 :: u64) @ replicate 8 0"
  using assms by (simp_all add: ex_entry_def bytes_at_def bytes_word_word_bytes)

lemma ex_table:
  assumes "length guid = 16" and "length volume \<le> 5"
  defines "d \<equiv> ex_table_disk guid volume"
  shows "gpt_disk d 512" and "alternate_of d 512 = 110" and "entries_of d 512 = 1" and "entry_pos d 512 k = 1024 + k * 128"
    and "first_lba d 512 0 = 64" and "last_lba d 512 0 = 128" and "used d 512 0" and "on_device d p \<longleftrightarrow> p \<le> 131072"
proof -
  note bytes = ex_table_disk_bytes [OF assms(1,2), folded d_def]
  show alt: "alternate_of d 512 = 110" and "entries_of d 512 = 1" and pos: "entry_pos d 512 k = 1024 + k * 128" for k
    by (simp_all add: alternate_of_def entries_of_def entry_pos_def le64_def le32_def bytes ex_header_fields)
  show od: "on_device d p \<longleftrightarrow> p \<le> 131072" for p by (simp add: on_device_def bytes)
  show "gpt_disk d 512" by (simp add: gpt_disk_def alt od bytes ex_header_fields)
  show "first_lba d 512 0 = 64" "last_lba d 512 0 = 128"
    using assms(1) by (simp_all add: first_lba_def last_lba_def pos le64_def bytes ex_entry_fields)
  have "word_bytes 8 (1 :: u64) @ replicate 8 0 \<noteq> replicate 16 0" by code_simp
  then show "used d 512 0" using assms(1) by (simp only: used_def pos) (simp add: bytes ex_entry_fields)
qed

section \<open>A table that is kept\<close>

text \<open>C16: on a device with a GUID partition table that is kept, \<open>bios_install\<close> finds the BIOS boot partition (the
  first of its type, or the one of the given number), and if it has room and no file system, succeeds and
  leaves exactly this: the first block of the image with the location of the partition patched in, but the
  timestamp and the partition table of the device; the rest of the image at the start of the partition and
  inside it; and every other byte, both tables and all other partitions included, as it was.\<close>

theorem gpt_install_correct:
  assumes "host_ok h" and "image_ok img" and "length img \<le> 33280" and "length d < 2 ^ 63"
    and "parse_args h args no_options (program_start d f) = (Inr opts, s)" and "device opts" and "\<not> uninstall_mode opts"
    and "gpt_disk d lb" and "selected opts d lb k" and "room d lb k" and "table_kept opts d" and "loc = first_lba d lb k * lb"
  shows "loc + (length img - 512) \<le> Suc (last_lba d lb k) * lb
    \<and> (\<exists>t. bios_install h img args (program_start d f) = Ok EXIT_SUCCESS t \<and> length (disk t) = length d
      \<and> (\<forall>i<length d. disk t ! i =
          (if 440 \<le> i \<and> i < 510 \<or> 218 \<le> i \<and> i < 224 then d ! i
           else if 420 \<le> i \<and> i < 428 then word_bytes 8 (of_nat loc :: u64) ! (i - 420)
           else if i < 512 then img ! i
           else if loc \<le> i \<and> i < loc + (length img - 512) then img ! (512 + (i - loc)) else d ! i)))"
proof -
  have fits: "loc + (length img - 512) \<le> Suc (last_lba d lb k) * lb" using room_end [OF assms(10,3)] assms(12) by simp
  have "on_device d (Suc (last_lba d lb k) * lb)" using assms(10) by (simp add: room_def)
  then have ld: "loc + (length img - 512) \<le> length d" using order_trans [OF fits on_device_le] by simp
  then have u: "unat (of_nat loc :: u64) = loc" using assms(4) by (intro unat_of_nat_u64) simp
  have low: "512 \<le> loc" using room_start [OF assms(8,10)] assms(12) by simp
  have "\<exists>t. bios_install h img args (program_start d f) = Ok EXIT_SUCCESS t \<and> disk t = boot_code img (of_nat loc) d \<and> length (disk t) = length d"
    using assms install_gpt [of h d _ lb opts k img] low ld by (intro install_run) auto
  then show ?thesis using fits nth_boot_code_at [OF assms(2), of "of_nat loc" d] low ld by (auto simp: u)
qed

lemma length_BIOS_BOOT_GUID: "length BIOS_BOOT_GUID = 16"
  by (simp add: BIOS_BOOT_GUID_def)

theorem gpt_install_correct_witness:
  "\<exists>t. bios_install ex_host ex_image [''disk.img''] (program_start (ex_table_disk BIOS_BOOT_GUID []) None) = Ok EXIT_SUCCESS t
    \<and> disk t ! 0 = 0x90 \<and> disk t ! 32768 = 0x90 \<and> disk t ! 32860 = 0"
proof -
  define d where "d = ex_table_disk BIOS_BOOT_GUID []"
  define opts where "opts = no_options\<lparr>device := True\<rparr>"
  have v: "length ([] :: u8 list) \<le> 5" by simp
  note bytes = ex_table_disk_bytes [OF length_BIOS_BOOT_GUID v, folded d_def] and table = ex_table [OF length_BIOS_BOOT_GUID v, folded d_def]
  have p: "parse_args ex_host [''disk.img''] no_options (program_start d None) = (Inr opts, tick (program_start d None))"
    by (simp add: opts_def no_options_def ex_host_def)
  have o: "device opts" "\<not> uninstall_mode opts" "part_ndx opts = None" by (simp_all add: opts_def no_options_def)
  have l: "length ex_image \<le> 33280" "length d < 2 ^ 63" by (simp_all add: ex_image_def bytes)
  have sel: "selected opts d 512 0"
    by (simp add: selected_def table o boot_type_def bytes ex_entry_fields length_BIOS_BOOT_GUID)
  have cd: "replicate 5 (0 :: u8) \<noteq> ascii ''CD001''" by code_simp
  have room: "room d 512 0"
    using zero_no_marks by (simp add: room_def table no_file_system_def bytes)
  have kept: "table_kept opts d" using cd by (simp add: table_kept_def bytes)
  have loc: "32768 = first_lba d 512 0 * 512" by (simp add: table)
  obtain t where t: "bios_install ex_host ex_image [''disk.img''] (program_start d None) = Ok EXIT_SUCCESS t"
    "\<forall>i<length d. disk t ! i =
      (if 440 \<le> i \<and> i < 510 \<or> 218 \<le> i \<and> i < 224 then d ! i
       else if 420 \<le> i \<and> i < 428 then word_bytes 8 (of_nat 32768 :: u64) ! (i - 420)
       else if i < 512 then ex_image ! i
       else if 32768 \<le> i \<and> i < 32768 + (length ex_image - 512) then ex_image ! (512 + (i - 32768)) else d ! i)"
    using gpt_install_correct [OF ex_host_ok ex_image_ok l p o(1,2) table(1) sel room kept loc] by blast
  have "bytes_at d 32860 (Suc 0) = [0]" by (simp add: bytes)
  then have "d ! 32860 = 0" by (simp add: bytes_at_1 bytes)
  then have "disk t ! 0 = 0x90" "disk t ! 32768 = 0x90" "disk t ! 32860 = 0" using t(2) by (simp_all add: bytes ex_image_def)
  then show ?thesis using t(1) unfolding d_def by blast
qed

section \<open>A table that is converted\<close>

lemma iso_installed_slot:
  assumes "iso_disk d lb" and "image_ok img" and "length img \<le> length d" and "length v = length d"
    and "\<forall>i<length d. v ! i = iso_installed h img d lb i" and "j < length (used_entries d lb)"
  shows "bytes_at v (447 + 16 * j) 15 = mbr_slot d lb (used_entries d lb ! j)"
proof -
  have four: "length (used_entries d lb) \<le> 4" using assms(1) by (simp add: iso_disk_def)
  have len: "17408 \<le> length d" using iso_disk_length [OF assms(1)] by auto
  have "bytes_at v (447 + 16 * j) 15 = bytes_at (converted h d lb) (447 + 16 * j) 15"
    using four len assms by (intro nth_equalityI) (auto simp: nth_bytes_at iso_installed_def nth_converted)
  also have "\<dots> = bytes_at (bytes_at (converted h d lb) (446 + 16 * j) 16) 1 15" by (simp add: bytes_at_bytes_at)
  also have "\<dots> = mbr_slot d lb (used_entries d lb ! j)"
    unfolding converted_slot [OF assms(1,6)] by (simp add: bytes_at_def)
  finally show ?thesis .
qed


definition ex_efi_guid :: "u8 list" where
  "ex_efi_guid = word_bytes 8 (0x11d2f81fc12a7328 :: u64) @ word_bytes 8 (0x3bc93ec9a0004bba :: u64)"


end
