(* ===== verification/Spec2Isabelle.thy ===== *)
theory Spec2Isabelle
  imports Memory_Properties Pmm_Properties Paging_Properties Paging_Init_Properties Printf_Properties Framebuffer_Properties
    Console_Properties Cpu_Properties Kernel_Boot Limine_Table_Properties
begin

text \<open>
  RainstormOS: a verification library for a 64-bit x86 kernel in C and assembly.

  The program. The installer of the Limine boot loader (\<open>src/limine/limine.c\<close>) makes the image bootable. The boot
  loader starts \<open>kmain\<close> (\<open>src/src/kernel_entry.c\<close>), which clears the zero
  section, validates the boot loader's answers, brings up the serial console and the log, loads the
  descriptor tables, initialises physical memory management and paging, maps and clears the screen,
  and halts. All output goes through \<open>kprintf\<close> to a sink, a registered callback, and from there to the
  serial port. Every part may log, and a fatal error is a panic, which prints, clears the screen and
  stops. Interrupts enter through 256 assembly stubs and one C dispatcher.

  The theories, from the bottom up, with the code they model and what they show.

  \<^item> \<open>Prelude\<close>: machine integers as words, the result type of operations that may panic, generic lemmas
    on words, bits and loops. \<open>Loops\<close>: the locale \<open>keyed_updates\<close> says what one step of a loop does to
    keyed entries, and what the whole loop does follows; it is interpreted on the loops over pages,
    pixels, image pixels and interrupt gates.

  \<^item> \<open>Memory\<close>, \<open>Memory_Properties\<close> (\<open>utils/memory.c\<close>, \<open>utils/memory.asm\<close>): memory as a function from
    64-bit addresses to bytes with little-endian accesses; \<open>memset\<close>, \<open>memsetw\<close>, \<open>memmove\<close>, \<open>memcmp\<close> and
    the quadword \<open>memcpy\<close>. The copies are equal to a simultaneous copy.

  \<^item> \<open>Mm\<close> (\<open>memory/mm.h\<close>): page arithmetic, the direct map, the record of the shared state with the log
    calls made so far.

  \<^item> \<open>Pmm\<close>, \<open>Pmm_Spec\<close>, \<open>Pmm_Init\<close>, \<open>Pmm_Properties\<close> (\<open>memory/pmm.c\<close>): the bitmap allocator, its
    specification as a set of free frames (locale \<open>frame_allocator\<close>, interpreted on the code), its
    initialisation from the memory map. No frame is handed out twice or lost over any run, allocation
    is lowest-first, errors change nothing.

  \<^item> \<open>Paging\<close>, \<open>Page_Tables\<close>, \<open>Paging_Mem\<close>, \<open>Paging_Inv\<close>, \<open>Paging_Ops\<close>, \<open>Paging_Range\<close>, \<open>Paging_Spaces\<close>,
    \<open>Vm_Machine\<close>, \<open>Paging_Init\<close>, \<open>Example_State\<close>, \<open>Paging_Properties\<close>, \<open>Paging_Init_Properties\<close>
    (\<open>memory/paging.c\<close>, \<open>.h\<close>, \<open>.asm\<close>): four-level
    page tables in memory, the control registers and the translation cache. The invariant says that
    the tables form a forest that shares exactly the kernel half and contains no free frame; the
    theorems give the effect of every operation on all mappings of all address spaces, and \<open>Vm_Machine\<close>
    is a step relation that interleaves them with cache fills and evictions. \<open>Paging_Init\<close> counts the
    frames that page tables take and shows that \<open>paging_init\<close> starts that machine in a good state, with
    exactly the direct map and the segments of the kernel mapped and no page writable and executable.

  \<^item> \<open>Printf\<close>, \<open>Printf_Spec\<close>, \<open>Printf_Properties\<close> (\<open>utils/printf.c\<close>): the format parser, all integer,
    character, string and pointer conversions and all entry points, over an abstract output function.
    The text is a function \<open>render\<close> of format and arguments; the output functions receive exactly it, a
    bounded buffer gets its longest prefix, numbers read back.

  \<^item> \<open>Framebuffer\<close>, \<open>Framebuffer_Properties\<close> (\<open>drivers/screen/framebuffer.c\<close>): pixels in memory, with the
    32-bit coordinate arithmetic of the code.

  \<^item> \<open>Sink\<close>, \<open>Serial\<close>, \<open>Klog\<close>, \<open>Console_Properties\<close> (\<open>utils/sink.c\<close>, \<open>cpu/io.asm\<close>,
    \<open>drivers/serial/serial.c\<close>, \<open>utils/klog.c\<close>): the output path. The device is a function of the port
    accesses made so far; that its transmitter becomes empty (\<open>transmits\<close>) is a hypothesis where it is
    needed. The locale \<open>char_device\<close> of \<open>Printf_Spec\<close> is interpreted on it, so that what \<open>kprintf\<close> prints
    is what appears on the line.

  \<^item> \<open>Gdt\<close>, \<open>Idt\<close>, \<open>Isr_Stubs\<close>, \<open>Isr\<close>, \<open>Cpu_Properties\<close> (\<open>cpu/gdt.c\<close>, \<open>cpu/idt.c\<close>, \<open>cpu/isr_gen.c\<close>,
    \<open>cpu/isr.asm\<close>, \<open>cpu/isr_gen.inc\<close>, \<open>cpu/isr.c\<close>): descriptors and gates read back as the processor reads
    them; the stubs over a processor with its stack in memory save and restore everything; dispatch,
    exception dump and panic.

  \<^item> \<open>Log_Calls\<close>, \<open>Kernel_Entry\<close>, \<open>Kernel_Properties\<close>, \<open>Boot_Memory\<close>, \<open>Kernel_Boot\<close> (\<open>kernel_entry.c\<close>, \<open>limine.h\<close>):
    the log calls of memory management fit their formats and are below the level of a panic; the start
    sequence is composed from the operations above and always comes to a defined end. What \<open>pmm_init\<close>
    leaves is what \<open>paging_init\<close> starts from, and with enough memory and a screen above it \<open>kmain\<close> halts
    without a panic, with the invariants of memory management established and the screen painted.

  \<^item> \<open>Limine_Arith\<close>, \<open>Limine_Host\<close>, \<open>Limine_Device\<close>, \<open>Limine_Install\<close>, \<open>Limine_Enroll\<close> (\<open>limine/limine.c\<close>): the
    program that puts the boot loader on a device. Helpers for byte order, addresses and checked
    arithmetic; the library calls over a host that says which of them fail; the block cache, the journal
    of overwritten data with its file and its replay; all phases of \<open>bios_install\<close>; \<open>enroll_config\<close> and
    \<open>main\<close>. \<open>Limine_Cache\<close>: the cached device is an array of bytes. \<open>Limine_Journal\<close>, \<open>Limine_Undo\<close>: the
    locale \<open>undo_log\<close>, interpreted on the device, says that a log of replaced data restores the original.
    \<open>Limine_Phases\<close>, \<open>Limine_Run\<close>, \<open>Limine_Mbr\<close>, \<open>Limine_Properties\<close>: every phase keeps the device undoable, so
    that a failed installation changes nothing and a successful one can be undone; its result on a device
    with an MBR is known byte by byte. \<open>Limine_Gpt\<close>, \<open>Limine_Iso\<close>, \<open>Limine_Table_Properties\<close>: so is its result on a
    device with a GUID partition table, which is kept or, on ISO images, converted; the fields of the tables
    are read from the bytes of the device by \<open>le32\<close> and \<open>le64\<close>, and \<open>gpt_disk\<close>, \<open>selected\<close>, \<open>room\<close> and \<open>iso_disk\<close>
    say which devices are meant.

  Conventions. A panic is the value \<open>Inl\<close> of \<open>kres\<close> or an explicit stopped state. \<open>None\<close> is a result that C
  does not define (an access outside a static table, a format that does not fit its arguments) or a
  loop that never ends. Static variables are record fields; function pointers are names in a datatype
  or a type parameter with a calling function. Log calls of memory management are recorded in its
  state and delivered to the console by \<open>Kernel_Entry\<close>, which gives the same output because neither
  reads the state of the other.

  Loops and bounds. Counted loops are folds over index lists and need no bound. The loops that may run
  forever, the polling loop of the serial driver and the loop of \<open>pmm_init\<close> over a region whose length
  is within a page of \<open>2\<^sup>6\<^sup>4\<close>, are partial functions into \<open>option\<close>; the theorems about them show that they
  return. The conversion loop of \<open>printf.c\<close> runs at most 32 times, the size of its buffer, and the stack
  trace at most 16 times, both as in the code. The transfer loops of the installer end because every
  piece is at least one byte long, its search loop because the start of the match moves on.

  Not modelled: the floating point conversions of \<open>printf.c\<close>, which the build disables; the processor's
  address translation outside the page table walk of the code; the requests of \<open>limine.h\<close> that the
  kernel does not make; the machine code of the boot loader and the diagnostic texts of its installer;
  the build scripts and the build tools. The stack on which \<open>kmain\<close> runs is not part of its model.
\<close>

end
